(* ===== verification/A11_Prelude.thy ===== *)
theory A11_Prelude
  imports
    Main
    "HOL-Library.Word"
    "HOL-Library.AList"
    "HOL-Library.Char_ord"
    "HOL-Library.List_Lexorder"
begin

text \<open>
  Shared vocabulary of the development.  It fixes how C++ values are represented and
  collects the generic facts the components rest on:

  \<^item> machine integers are words of their width (\<open>u8\<close>, \<open>u16\<close>, \<open>u32\<close>, \<open>u64\<close>); a
    \<open>size_t\<close> is a natural number, and an addition of two of them that the source performs
    in \<open>size_t\<close> is \<open>sz_add\<close>, which wraps at 2^64;
  \<^item> a \<open>std::string\<close> or \<open>std::string_view\<close> is a HOL \<open>string\<close>, whose characters are
    exactly the 256 byte values;
  \<^item> \<open>absl::Status\<close> is a pair of a canonical code and a message, \<open>absl::StatusOr<T>\<close> the sum
    \<open>status + 'a\<close> with the error on the left, and \<open>ABSL_ASSIGN_OR_RETURN\<close> is \<open>r_bind\<close>;
  \<^item> \<open>absl::flat_hash_map\<close> is an association list with distinct keys: \<open>map_of\<close> is \<open>find\<close>,
    \<open>AList.update\<close> is \<open>insert_or_assign\<close>, \<open>AList.delete\<close> is \<open>erase\<close>, \<open>length\<close> is \<open>size\<close>.
    Nothing in the models depends on the order of such a list except where the source itself
    iterates over a hash map.
\<close>

unbundle bit_operations_syntax

section \<open>Machine integers\<close>

type_synonym u8 = "8 word"
type_synonym u16 = "16 word"
type_synonym u32 = "32 word"
type_synonym u64 = "64 word"

text \<open>Addition in \<open>size_t\<close> (and in \<open>std::uint64_t\<close> where the operands are kept as naturals).\<close>

definition size_limit :: nat where
  "size_limit = 2 ^ 64"

definition sz_add :: "nat \<Rightarrow> nat \<Rightarrow> nat" where
  "sz_add a b = (a + b) mod size_limit"

lemma sz_add_exact [simp]: "a + b < size_limit \<Longrightarrow> sz_add a b = a + b"
  by (simp add: sz_add_def)

lemma sz_add_less: "sz_add a b < size_limit"
  by (simp add: sz_add_def size_limit_def)

section \<open>Statuses and results\<close>

text \<open>The canonical codes of \<open>absl::StatusCode\<close>, in numeric order.\<close>

datatype status_code =
    kOk | kCancelled | kUnknown | kInvalidArgument | kDeadlineExceeded | kNotFound
  | kAlreadyExists | kPermissionDenied | kResourceExhausted | kFailedPrecondition
  | kAborted | kOutOfRange | kUnimplemented | kInternal | kUnavailable | kDataLoss
  | kUnauthenticated

definition all_codes :: "status_code list" where
  "all_codes = [kOk, kCancelled, kUnknown, kInvalidArgument, kDeadlineExceeded, kNotFound,
     kAlreadyExists, kPermissionDenied, kResourceExhausted, kFailedPrecondition, kAborted,
     kOutOfRange, kUnimplemented, kInternal, kUnavailable, kDataLoss, kUnauthenticated]"

fun code_num :: "status_code \<Rightarrow> nat" where
  "code_num kOk = 0"
| "code_num kCancelled = 1"
| "code_num kUnknown = 2"
| "code_num kInvalidArgument = 3"
| "code_num kDeadlineExceeded = 4"
| "code_num kNotFound = 5"
| "code_num kAlreadyExists = 6"
| "code_num kPermissionDenied = 7"
| "code_num kResourceExhausted = 8"
| "code_num kFailedPrecondition = 9"
| "code_num kAborted = 10"
| "code_num kOutOfRange = 11"
| "code_num kUnimplemented = 12"
| "code_num kInternal = 13"
| "code_num kUnavailable = 14"
| "code_num kDataLoss = 15"
| "code_num kUnauthenticated = 16"

text \<open>\<open>static_cast<absl::StatusCode>\<close> of a code that was checked to be canonical.\<close>

definition code_of_num :: "nat \<Rightarrow> status_code" where
  "code_of_num n = (if n < length all_codes then all_codes ! n else kUnknown)"

lemma code_num_less: "code_num c < 17"
  by (cases c) simp_all

lemma code_of_num_code_num [simp]: "code_of_num (code_num c) = c"
  by (cases c) (simp_all add: code_of_num_def all_codes_def)

lemma code_num_inject: "code_num a = code_num b \<longleftrightarrow> a = b"
  by (metis code_of_num_code_num)

instantiation status_code :: linorder
begin

definition less_eq_status_code :: "status_code \<Rightarrow> status_code \<Rightarrow> bool" where
  "less_eq_status_code a b \<longleftrightarrow> code_num a \<le> code_num b"

definition less_status_code :: "status_code \<Rightarrow> status_code \<Rightarrow> bool" where
  "less_status_code a b \<longleftrightarrow> code_num a < code_num b"

instance
  by standard (auto simp: less_eq_status_code_def less_status_code_def code_num_inject)

end

type_synonym status = "status_code \<times> string"
type_synonym 'a result = "status + 'a"

abbreviation OkStatus :: status where "OkStatus \<equiv> (kOk, [])"
abbreviation status_ok :: "status \<Rightarrow> bool" where "status_ok s \<equiv> fst s = kOk"
abbreviation Err :: "status_code \<Rightarrow> string \<Rightarrow> 'a result" where "Err c m \<equiv> Inl (c, m)"
abbreviation Ok :: "'a \<Rightarrow> 'a result" where "Ok x \<equiv> Inr x"

text \<open>\<open>ABSL_ASSIGN_OR_RETURN\<close> and \<open>ABSL_RETURN_IF_ERROR\<close>: stop at the first error.\<close>

definition r_bind :: "'a result \<Rightarrow> ('a \<Rightarrow> 'b result) \<Rightarrow> 'b result" where
  "r_bind m f = (case m of Inl e \<Rightarrow> Inl e | Inr x \<Rightarrow> f x)"

abbreviation r_then :: "unit result \<Rightarrow> 'b result \<Rightarrow> 'b result" where
  "r_then m f \<equiv> r_bind m (\<lambda>_. f)"

definition r_guard :: "bool \<Rightarrow> status_code \<Rightarrow> string \<Rightarrow> unit result" where
  "r_guard bad c m = (if bad then Err c m else Ok ())"

lemma r_bind_simps [simp]:
  "r_bind (Inl e) f = Inl e"
  "r_bind (Inr x) f = f x"
  by (simp_all add: r_bind_def)

lemma r_guard_simps [simp]:
  "r_guard True c m = Err c m"
  "r_guard False c m = Ok ()"
  by (simp_all add: r_guard_def)

named_theorems ok_iff \<open>when a result is a success\<close>

lemma r_bind_ok [ok_iff]: "r_bind m f = Inr y \<longleftrightarrow> (\<exists>x. m = Inr x \<and> f x = Inr y)"
  by (cases m) simp_all

lemma r_guard_ok [ok_iff]: "r_guard b c m = Inr u \<longleftrightarrow> \<not> b"
  by (simp add: r_guard_def)

lemma r_bind_split:
  "P (r_bind m f) \<longleftrightarrow> (\<forall>e. m = Inl e \<longrightarrow> P (Inl e)) \<and> (\<forall>x. m = Inr x \<longrightarrow> P (f x))"
  by (cases m) simp_all

lemma r_bind_cong [fundef_cong]:
  "m = m' \<Longrightarrow> (\<And>x. m' = Inr x \<Longrightarrow> f x = f' x) \<Longrightarrow> r_bind m f = r_bind m' f'"
  by (cases m') simp_all

text \<open>\<open>for (x : xs) ABSL_RETURN_IF_ERROR(f(x))\<close>, keeping the values.\<close>

fun r_map :: "('a \<Rightarrow> 'b result) \<Rightarrow> 'a list \<Rightarrow> 'b list result" where
  "r_map f [] = Ok []"
| "r_map f (x # xs) = r_bind (f x) (\<lambda>y. r_bind (r_map f xs) (\<lambda>ys. Ok (y # ys)))"

fun r_forall :: "('a \<Rightarrow> unit result) \<Rightarrow> 'a list \<Rightarrow> unit result" where
  "r_forall f [] = Ok ()"
| "r_forall f (x # xs) = r_then (f x) (r_forall f xs)"

lemma r_forall_ok [ok_iff]: "r_forall f xs = Inr u \<longleftrightarrow> (\<forall>x\<in>set xs. f x = Inr ())"
  by (induction xs) (auto simp: ok_iff)

lemma r_map_ok_map: "(\<And>x. x \<in> set xs \<Longrightarrow> f x = Inr (g x)) \<Longrightarrow> r_map f xs = Inr (map g xs)"
  by (induction xs) simp_all

section \<open>Numbers in error messages\<close>

definition digit :: "nat \<Rightarrow> char" where
  "digit n = (if n < 10 then char_of (48 + n) else char_of (87 + n))"

fun dec :: "nat \<Rightarrow> string" where
  "dec n = (if n < 10 then [digit n] else dec (n div 10) @ [digit (n mod 10)])"

declare dec.simps [simp del]

definition hex2 :: "nat \<Rightarrow> string" where
  "hex2 n = [digit (n div 16), digit (n mod 16)]"

section \<open>32-bit words and counts\<close>

lemma unat_of_nat32: "n < 2 ^ 32 \<Longrightarrow> unat (word_of_nat n :: u32) = n"
  by (simp add: unsigned_of_nat take_bit_eq_mod)

lemma unat_less32: "unat (w :: u32) < 2 ^ 32"
  by (rule order_less_le_trans [OF unsigned_less]) simp

lemma of_nat32_inject: "a < 2 ^ 32 \<Longrightarrow> b < 2 ^ 32 \<Longrightarrow> (word_of_nat a :: u32) = word_of_nat b \<longleftrightarrow> a = b"
  by (metis unat_of_nat32)

section \<open>Association lists\<close>

lemma length_alist_card: "distinct (map fst xs) \<Longrightarrow> length xs = card (dom (map_of xs))"
  by (simp add: dom_map_of_conv_image_fst distinct_card flip: set_map)

lemma sum_alist_update:
  fixes f :: "'b \<Rightarrow> nat"
  assumes "distinct (map fst xs)"
  shows "(\<Sum>x\<leftarrow>AList.update k v xs. f (snd x)) + (case map_of xs k of None \<Rightarrow> 0 | Some w \<Rightarrow> f w) =
    (\<Sum>x\<leftarrow>xs. f (snd x)) + f v"
  using assms by (induction xs) (auto split: option.splits)

lemma sum_alist_delete:
  fixes f :: "'b \<Rightarrow> nat"
  assumes "distinct (map fst xs)"
  shows "(\<Sum>x\<leftarrow>AList.delete k xs. f (snd x)) + (case map_of xs k of None \<Rightarrow> 0 | Some w \<Rightarrow> f w) =
    (\<Sum>x\<leftarrow>xs. f (snd x))"
  using assms by (induction xs) (auto simp: delete_id split: option.splits)

lemma length_alist_update:
  "length (AList.update k v xs) = (if map_of xs k = None then Suc (length xs) else length xs)"
  by (induction xs) auto

section \<open>Bits of natural numbers\<close>

lemma and_push: "(m::nat) AND push_bit n k = push_bit n (drop_bit n m AND k)"
  by (rule bit_eqI) (auto simp: bit_simps)

lemma and_high:
  fixes m :: nat
  assumes "m < 2 ^ (n + k)"
  shows "m AND push_bit n (mask k) = 2 ^ n * (m div 2 ^ n)"
proof -
  have "m div 2 ^ n < 2 ^ k" using assms by (simp add: less_mult_imp_div_less power_add mult.commute)
  then show ?thesis
    by (simp only: and_push flip: take_bit_eq_mask) (simp add: push_bit_eq_mult take_bit_eq_mod drop_bit_eq_div)
qed

lemma or_push: "n < 2 ^ k \<Longrightarrow> push_bit k a OR n = 2 ^ k * a + (n::nat)"
  using disjunctive_add_eq_or [of "push_bit k a" n] and_push [of n k a]
  by (simp add: drop_bit_eq_div push_bit_eq_mult and.commute mult.commute)

lemma and_mask_mod: "(m::nat) AND mask n = m mod 2 ^ n"
  by (metis take_bit_eq_mask take_bit_eq_mod)

lemma and_high_eq:
  assumes "(m::nat) < 2 ^ (n + k)"
  shows "m AND push_bit n (mask k) = 2 ^ n * j \<longleftrightarrow> m div 2 ^ n = j"
  using and_high [OF assms] by simp

lemma div_eq_iff_range: "0 < (b::nat) \<Longrightarrow> m div b = j \<longleftrightarrow> b * j \<le> m \<and> m < b * Suc j"
  by (metis div_nat_eqI dividend_less_times_div mult.commute mult_Suc_right times_div_less_eq_dividend)

lemma of_char_less_256 [simp]: "(of_char c :: nat) < 256"
  using of_char_mod_256 [of c, where ?'a = nat] by (metis mod_less_divisor zero_less_numeral)

lemma mod_range: "k * d \<le> (b::nat) \<Longrightarrow> b < k * d + d \<Longrightarrow> b mod d = b - k * d"
  using mod_mult_self1 [of "b - k * d" k d] by simp

end
