(* ===== verification/Byte_Order.thy ===== *)
theory Byte_Order
  imports A11_Prelude
begin

text \<open>
  Reading and writing machine integers as bytes.  The byte-chunking wire format is little
  endian (\<open>AppendLittleEndian\<close>, \<open>ReadLittleEndian\<close> of \<open>cpp/a11/net/byte_chunking.cc\<close>),
  MessagePack is big endian (\<open>AppendBigEndian\<close>, \<open>ReadUnsigned\<close> of \<open>cpp/a11/data/msgpack.cc\<close>
  and \<open>ReadBigEndian\<close> of \<open>cpp/a11/json_codec.cc\<close>).  Each loop of the source is a recursion or
  a fold over byte indices, and the round trips are proved once for every width.
\<close>

section \<open>Bytes of a word\<close>

text \<open>\<open>static_cast<char>((value >> shift) & 0xff)\<close>, for a shift of whole bytes.\<close>

definition byte_at :: "'a::len word \<Rightarrow> nat \<Rightarrow> char" where
  "byte_at v i = char_of (unat (drop_bit (8 * i) v AND 0xff))"

definition byte_val :: "char \<Rightarrow> 'a::len word" where
  "byte_val c = word_of_nat (of_char c)"

abbreviation width_bytes :: "'a::len word itself \<Rightarrow> nat" where
  "width_bytes _ \<equiv> LENGTH('a) div 8"

lemma and_255_take_bit: "(x :: 'a::len word) AND 255 = take_bit 8 x"
  using take_bit_eq_mask [of 8 x] by (simp add: mask_eq_exp_minus_1 and.commute)

lemma byte_val_byte_at: "(byte_val (byte_at v i) :: 'a::len word) = take_bit 8 (drop_bit (8 * i) v)"
proof -
  have "unat (take_bit 8 (drop_bit (8 * i) v)) mod 256 = unat (take_bit 8 (drop_bit (8 * i) v))"
    by (simp only: unsigned_take_bit_eq) (simp add: take_bit_eq_mod)
  then show ?thesis
    by (simp add: byte_val_def byte_at_def and_255_take_bit)
qed

lemma take_bit_byte_step:
  "take_bit (8 * n) v OR push_bit (8 * n) (take_bit 8 (drop_bit (8 * n) v))
   = take_bit (8 * Suc n) (v :: 'a::len word)"
  by (rule bit_word_eqI) (auto simp: bit_simps)

section \<open>Little endian\<close>

fun le_bytes :: "nat \<Rightarrow> 'a::len word \<Rightarrow> string" where
  "le_bytes 0 v = []"
| "le_bytes (Suc n) v = char_of (unat (v AND 0xff)) # le_bytes n (drop_bit 8 v)"

definition AppendLittleEndian :: "string \<Rightarrow> 'a::len word \<Rightarrow> string" where
  "AppendLittleEndian output v = output @ le_bytes (LENGTH('a) div 8) v"

definition ReadLittleEndian :: "string \<Rightarrow> nat \<Rightarrow> 'a::len word" where
  "ReadLittleEndian input offset =
     fold (\<lambda>index result. result OR push_bit (8 * index) (byte_val (input ! (offset + index))))
       [0..<LENGTH('a) div 8] 0"

lemma length_le_bytes [simp]: "length (le_bytes n v) = n"
  by (induction n v rule: le_bytes.induct) simp_all

lemma le_bytes_nth: "i < n \<Longrightarrow> le_bytes n v ! i = byte_at v i"
proof (induction n v arbitrary: i rule: le_bytes.induct)
  case (2 n v)
  then show ?case by (cases i) (simp_all add: byte_at_def add.commute)
qed simp

lemma read_le_prefix:
  assumes "n \<le> m" and "\<And>i. i < m \<Longrightarrow> input ! (offset + i) = byte_at (v :: 'a::len word) i"
  shows "fold (\<lambda>index result. result OR push_bit (8 * index) (byte_val (input ! (offset + index))))
           [0..<n] (0 :: 'a word) = take_bit (8 * n) v"
  using assms(1)
proof (induction n)
  case (Suc n)
  then show ?case
    using assms(2) [of n] take_bit_byte_step [of n v] by (simp add: byte_val_byte_at)
qed simp

theorem read_append_le:
  assumes "LENGTH('a::len) = 8 * n"
  shows "ReadLittleEndian (pre @ le_bytes n (v :: 'a word) @ post) (length pre) = v"
proof -
  have "\<And>i. i < n \<Longrightarrow> (pre @ le_bytes n v @ post) ! (length pre + i) = byte_at v i"
    by (simp add: nth_append le_bytes_nth)
  from read_le_prefix [OF order_refl this]
  have "ReadLittleEndian (pre @ le_bytes n v @ post) (length pre) = take_bit (LENGTH('a)) v"
    by (simp add: ReadLittleEndian_def assms)
  then show ?thesis by simp
qed

section \<open>Big endian\<close>

definition be_bytes :: "'a::len word \<Rightarrow> string" where
  "be_bytes v = map (byte_at v) (rev [0..<LENGTH('a) div 8])"

definition AppendBigEndian :: "string \<Rightarrow> 'a::len word \<Rightarrow> string" where
  "AppendBigEndian out v = out @ be_bytes v"

text \<open>The accumulator loop \<open>value = (value << 8) | byte\<close> over the given bytes.\<close>

definition be_value :: "string \<Rightarrow> 'a::len word" where
  "be_value bs = fold (\<lambda>c value. push_bit 8 value OR byte_val c) bs 0"

lemma length_be_bytes [simp]: "length (be_bytes (v :: 'a::len word)) = LENGTH('a) div 8"
  by (simp add: be_bytes_def)

lemma push_bit_byte_step:
  "push_bit 8 (drop_bit (8 * Suc i) v) OR take_bit 8 (drop_bit (8 * i) v)
   = drop_bit (8 * i) (v :: 'a::len word)"
  by (rule bit_word_eqI) (auto simp: bit_simps add.commute)

lemma be_fold_drop:
  "fold (\<lambda>c value. push_bit 8 value OR byte_val c) (map (byte_at v) (rev [0..<n])) (drop_bit (8 * n) v)
   = (v :: 'a::len word)"
proof (induction n)
  case (Suc n)
  have "fold (\<lambda>c value. push_bit 8 value OR byte_val c)
          (map (byte_at v) (rev [0..<Suc n])) (drop_bit (8 * Suc n) v)
      = fold (\<lambda>c value. push_bit 8 value OR byte_val c) (map (byte_at v) (rev [0..<n]))
          (push_bit 8 (drop_bit (8 * Suc n) v) OR byte_val (byte_at v n))"
    by simp
  also have "push_bit 8 (drop_bit (8 * Suc n) v) OR byte_val (byte_at v n) = drop_bit (8 * n) v"
    by (simp only: byte_val_byte_at push_bit_byte_step)
  finally show ?case using Suc.IH by simp
qed simp

theorem be_value_be_bytes:
  assumes "8 dvd LENGTH('a::len)"
  shows "be_value (be_bytes (v :: 'a word)) = v"
proof -
  have "drop_bit (8 * (LENGTH('a) div 8)) v = 0"
    using assms by simp
  then show ?thesis
    using be_fold_drop [of v "LENGTH('a) div 8"] by (simp add: be_value_def be_bytes_def)
qed

text \<open>
  The reader of \<open>msgpack.cc\<close> accumulates every width in a \<open>std::uint64_t\<close>; it yields the
  zero-extended value.
\<close>

lemma be_value_snoc: "be_value (bs @ [c]) = push_bit 8 (be_value bs) OR byte_val c"
  by (simp add: be_value_def)

lemma byte_val_unat:
  assumes "8 \<le> LENGTH('a::len)"
  shows "unat (byte_val c :: 'a word) = of_char c"
proof -
  have "(256::nat) \<le> 2 ^ LENGTH('a)"
    using power_increasing [OF assms, of "2::nat"] by simp
  then have "(of_char c :: nat) < 2 ^ LENGTH('a)"
    using of_char_less_256 [of c] by linarith
  then show ?thesis
    by (simp add: byte_val_def unsigned_of_nat take_bit_eq_mod)
qed

definition be_nat :: "string \<Rightarrow> nat" where
  "be_nat bs = fold (\<lambda>c n. n * 256 + of_char c) bs 0"

lemma be_nat_snoc: "be_nat (bs @ [c]) = be_nat bs * 256 + of_char c"
  by (simp add: be_nat_def)

lemma be_nat_less: "be_nat bs < 256 ^ length bs"
proof (induction bs rule: rev_induct)
  case (snoc c bs)
  then have "Suc (be_nat bs) * 256 \<le> 256 ^ length bs * 256"
    by (intro mult_le_mono1 Suc_leI)
  then have "be_nat bs * 256 + 256 \<le> 256 * 256 ^ length bs"
    by simp
  then show ?case
    using of_char_less_256 [of c] by (simp only: be_nat_snoc length_append_singleton power_Suc)
qed (simp add: be_nat_def)

lemma byte_val_take_bit:
  assumes "8 \<le> LENGTH('a::len)"
  shows "take_bit 8 (byte_val c :: 'a word) = byte_val c"
proof -
  have "unat (take_bit 8 (byte_val c :: 'a word)) = of_char c mod 256"
    by (simp only: unsigned_take_bit_eq byte_val_unat [OF assms]) (simp add: take_bit_eq_mod)
  also have "\<dots> = unat (byte_val c :: 'a word)"
    by (simp add: byte_val_unat [OF assms])
  finally show ?thesis by (rule unsigned_word_eqI)
qed

lemma shift_or_byte:
  assumes "8 \<le> LENGTH('a::len)" and "unat r * 256 + of_char c < 2 ^ LENGTH('a)"
  shows "unat (push_bit 8 (r :: 'a word) OR byte_val c) = unat r * 256 + of_char c"
proof -
  have "push_bit 8 r AND take_bit 8 (byte_val c) = 0"
    by (rule bit_word_eqI) (auto simp: bit_simps)
  then have or_add: "push_bit 8 r OR byte_val c = push_bit 8 r + byte_val c"
    using word_plus_and_or [of "push_bit 8 r" "byte_val c"] byte_val_take_bit [OF assms(1), of c]
    by simp
  have "unat (push_bit 8 r) = unat r * 256 mod 2 ^ LENGTH('a)"
    by (simp add: push_bit_eq_mult unat_word_ariths unsigned_numeral take_bit_eq_mod mod_mult_right_eq)
  then have "unat (push_bit 8 r) = unat r * 256"
    using assms(2) by simp
  then show ?thesis
    using assms(2) unat_add_lem [of "push_bit 8 r" "byte_val c"]
    by (simp add: or_add byte_val_unat [OF assms(1)])
qed

lemma unat_be_value:
  assumes "8 * length bs \<le> LENGTH('a::len)"
  shows "unat (be_value bs :: 'a word) = be_nat bs"
  using assms
proof (induction bs rule: rev_induct)
  case Nil
  then show ?case by (simp add: be_value_def be_nat_def)
next
  case (snoc c bs)
  have "(256::nat) ^ length (bs @ [c]) = 2 ^ (8 * length (bs @ [c]))"
    by (simp only: power_mult) simp
  also have "\<dots> \<le> 2 ^ LENGTH('a)"
    using snoc.prems by (rule power_increasing) simp
  finally have "be_nat (bs @ [c]) < 2 ^ LENGTH('a)"
    using be_nat_less [of "bs @ [c]"] by linarith
  then show ?case
    using snoc by (simp add: be_value_snoc be_nat_snoc shift_or_byte)
qed

lemma be_nat_be_bytes:
  assumes "8 dvd LENGTH('a::len)"
  shows "be_nat (be_bytes (v :: 'a word)) = unat v"
  using unat_be_value [of "be_bytes v", where ?'a = 'a] assms by (simp add: be_value_be_bytes)

theorem be_value_zero_extends:
  assumes "8 dvd LENGTH('a::len)" and "LENGTH('a) \<le> LENGTH('b::len)"
  shows "unat (be_value (be_bytes (v :: 'a word)) :: 'b word) = unat v"
  using assms by (simp add: unat_be_value be_nat_be_bytes)

end
