(* ===== verification/Byte_Chunking.thy ===== *)
theory Byte_Chunking
  imports Byte_Order
begin

text \<open>
  The byte-chunking layer, \<open>cpp/a11/net/byte_chunking.h\<close> and \<open>byte_chunking.cc\<close>: a message is
  split into packets that carry their framing metadata as a fixed little-endian suffix, and a
  bounded reassembler rebuilds messages from packets that arrive out of order and interleaved.

  A \<open>ByteReassembler\<close> is the record of its options, its table of incomplete messages and its
  running byte count; \<open>Feed\<close> returns the result together with the new state, which is what the
  source does under its mutex.  The lengths the source adds up are lengths of strings it holds
  in memory, so they are plain naturals; the two additions on caller-chosen limits are \<open>sz_add\<close>.
\<close>

section \<open>Packet format\<close>

definition kMinimumBytePacketSize :: nat where "kMinimumBytePacketSize = 8 + 2 * 4 + 2"
definition kCompleteMetadataSize :: nat where "kCompleteMetadataSize = 8 + 1"
definition kChunkMetadataSize :: nat where "kChunkMetadataSize = 4 + 8 + 1"
definition kFirstChunkMetadataSize :: nat where "kFirstChunkMetadataSize = 4 + 4 + 8 + 1"

lemmas packet_sizes = kMinimumBytePacketSize_def kCompleteMetadataSize_def
  kChunkMetadataSize_def kFirstChunkMetadataSize_def

datatype BytePacketType = kCompleteBytes | kByteChunk | kLengthSuffixedByteChunk

fun packet_type_byte :: "BytePacketType \<Rightarrow> char" where
  "packet_type_byte kCompleteBytes = CHR 0x00"
| "packet_type_byte kByteChunk = CHR 0x01"
| "packet_type_byte kLengthSuffixedByteChunk = CHR 0x02"

definition packet_type_of :: "char \<Rightarrow> BytePacketType option" where
  "packet_type_of c =
     (if c = CHR 0x00 then Some kCompleteBytes
      else if c = CHR 0x01 then Some kByteChunk
      else if c = CHR 0x02 then Some kLengthSuffixedByteChunk
      else None)"

record BytePacket =
  packet_type :: BytePacketType
  payload :: string
  transient_id :: u64
  sequence :: u32
  packet_count :: u32

record ByteChunkingOptions =
  packet_size :: nat
  max_message_size :: nat
  max_pending_messages :: nat
  max_pending_bytes :: nat

definition SerializeComplete :: "string \<Rightarrow> u64 \<Rightarrow> string" where
  "SerializeComplete body tid =
     AppendLittleEndian body tid @ [packet_type_byte kCompleteBytes]"

definition SerializeChunk :: "string \<Rightarrow> u64 \<Rightarrow> u32 \<Rightarrow> u32 option \<Rightarrow> string" where
  "SerializeChunk body tid seq count =
     (let packet = (case count of None \<Rightarrow> body | Some n \<Rightarrow> AppendLittleEndian body n);
          packet = AppendLittleEndian packet seq;
          packet = AppendLittleEndian packet tid
      in packet @ [packet_type_byte
           (if count \<noteq> None then kLengthSuffixedByteChunk else kByteChunk)])"

definition ValidateOptions :: "ByteChunkingOptions \<Rightarrow> unit result" where
  "ValidateOptions o' =
     (if packet_size o' < kMinimumBytePacketSize
      then Err kInvalidArgument ''byte packet_size must be at least 18''
      else if max_message_size o' = 0 \<or> max_pending_messages o' = 0 \<or> max_pending_bytes o' = 0
      then Err kInvalidArgument ''byte chunking limits must all be positive''
      else if packet_size o' > sz_add (max_message_size o') kCompleteMetadataSize
      then Err kInvalidArgument ''byte packet_size must not exceed max_message_size plus metadata''
      else Ok ())"

section \<open>Splitting\<close>

text \<open>
  The loop over the packets after the first.  \<open>later\<close> is \<open>later_payload_size\<close>, which is at
  least 5 wherever the loop is entered.
\<close>

function SplitLater :: "string \<Rightarrow> u64 \<Rightarrow> nat \<Rightarrow> nat \<Rightarrow> u32 \<Rightarrow> string list" where
  "SplitLater bytes tid later offset seq =
     (if offset < length bytes \<and> later > 0 then
        let payload_size = min later (length bytes - offset)
        in SerializeChunk (take payload_size (drop offset bytes)) tid seq None
           # SplitLater bytes tid later (offset + payload_size) (seq + 1)
      else [])"
  by pat_completeness auto
termination
  by (relation "measure (\<lambda>(bytes, _, _, offset, _). length bytes - offset)") auto

declare SplitLater.simps [simp del]

definition SplitBytesIntoPackets :: "string \<Rightarrow> u64 \<Rightarrow> nat \<Rightarrow> string list result" where
  "SplitBytesIntoPackets bytes tid psize =
     (if psize < kMinimumBytePacketSize
      then Err kInvalidArgument ''byte packet_size must be at least 18''
      else if length bytes \<le> psize - kCompleteMetadataSize
      then Ok [SerializeComplete bytes tid]
      else let first_payload_size = psize - kFirstChunkMetadataSize;
               later_payload_size = psize - kChunkMetadataSize;
               remaining = length bytes - first_payload_size;
               later_count = (remaining + later_payload_size - 1) div later_payload_size
           in if later_count \<ge> 2 ^ 32 - 1
              then Err kOutOfRange ''byte message requires too many packets''
              else Ok (SerializeChunk (take first_payload_size bytes) tid 0
                         (Some (word_of_nat (later_count + 1)))
                       # SplitLater bytes tid later_payload_size first_payload_size 1))"

definition SplitOwnedBytesIntoPackets :: "string \<Rightarrow> u64 \<Rightarrow> nat \<Rightarrow> string list result" where
  "SplitOwnedBytesIntoPackets bytes tid psize =
     (if psize < kMinimumBytePacketSize
      then Err kInvalidArgument ''byte packet_size must be at least 18''
      else if length bytes > psize - kCompleteMetadataSize
      then SplitBytesIntoPackets bytes tid psize
      else Ok [AppendLittleEndian bytes tid @ [packet_type_byte kCompleteBytes]])"

section \<open>Parsing\<close>

definition ParseBytePacketMetadata :: "string \<Rightarrow> (BytePacket \<times> nat) result" where
  "ParseBytePacketMetadata packet =
     (if length packet < kCompleteMetadataSize
      then Err kInvalidArgument ''byte packet is shorter than complete-packet metadata''
      else case packet_type_of (last packet) of
        None \<Rightarrow> Err kInvalidArgument ''byte packet has an unknown type''
      | Some type \<Rightarrow>
          let metadata_size = (case type of kCompleteBytes \<Rightarrow> kCompleteMetadataSize
                               | kByteChunk \<Rightarrow> kChunkMetadataSize
                               | kLengthSuffixedByteChunk \<Rightarrow> kFirstChunkMetadataSize)
          in if length packet < metadata_size
             then Err kInvalidArgument ''byte packet is shorter than its declared metadata''
             else let transient_offset = length packet - kCompleteMetadataSize;
                      sequence_offset = transient_offset - 4;
                      count_offset = sequence_offset - 4;
                      seq = (if type \<noteq> kCompleteBytes
                             then ReadLittleEndian packet sequence_offset else 0);
                      count = (if type = kLengthSuffixedByteChunk
                               then ReadLittleEndian packet count_offset else 0)
                  in if type = kLengthSuffixedByteChunk \<and> (seq \<noteq> 0 \<or> count = 0)
                     then Err kInvalidArgument
                       ''first byte chunk must have sequence zero and a positive count''
                     else Ok (\<lparr>packet_type = type, payload = [],
                               transient_id = ReadLittleEndian packet transient_offset,
                               sequence = seq, packet_count = count\<rparr>, metadata_size))"

definition ParseBytePacket :: "string \<Rightarrow> BytePacket result" where
  "ParseBytePacket packet =
     r_bind (ParseBytePacketMetadata packet) (\<lambda>(result, metadata_size).
       Ok (result\<lparr>payload := take (length packet - metadata_size) packet\<rparr>))"

text \<open>\<open>packet.resize(n)\<close> for an \<open>n\<close> within the string keeps its first \<open>n\<close> bytes.\<close>

definition ParseOwnedBytePacket :: "string \<Rightarrow> BytePacket result" where
  "ParseOwnedBytePacket packet =
     r_bind (ParseBytePacketMetadata packet) (\<lambda>(result, metadata_size).
       Ok (result\<lparr>payload := take (length packet - metadata_size) packet\<rparr>))"

section \<open>Reassembly\<close>

record Pending =
  declared_count :: "u32 option"
  chunks :: "(u32 \<times> string) list"
  byte_count :: nat

record ByteReassembler =
  options :: ByteChunkingOptions
  pending :: "(u64 \<times> Pending) list"
  pending_bytes :: nat

definition new_reassembler :: "ByteChunkingOptions \<Rightarrow> ByteReassembler" where
  "new_reassembler opts = \<lparr>options = opts, pending = [], pending_bytes = 0\<rparr>"

definition empty_pending :: Pending where
  "empty_pending = \<lparr>declared_count = None, chunks = [], byte_count = 0\<rparr>"

definition put_pending :: "u64 \<Rightarrow> Pending \<Rightarrow> ByteReassembler \<Rightarrow> ByteReassembler" where
  "put_pending i p st = st\<lparr>pending := AList.update i p (pending st)\<rparr>"

text \<open>\<open>impl->pending_bytes -= pending.byte_count; impl->pending.erase(found)\<close>\<close>

definition drop_pending :: "u64 \<Rightarrow> Pending \<Rightarrow> ByteReassembler \<Rightarrow> ByteReassembler" where
  "drop_pending i p st = st\<lparr>pending := AList.delete i (pending st),
                            pending_bytes := pending_bytes st - byte_count p\<rparr>"

definition FeedComplete :: "u64 \<Rightarrow> Pending \<Rightarrow> ByteReassembler \<Rightarrow>
    string option result \<times> ByteReassembler" where
  "FeedComplete i p st =
     (case declared_count p of
        None \<Rightarrow> (Ok None, st)
      | Some n \<Rightarrow>
          if length (chunks p) \<noteq> unat n then (Ok None, st)
          else if list_ex (\<lambda>s. map_of (chunks p) (word_of_nat s) = None) [0..<unat n]
          then (Ok None, st)
          else (Ok (Some (concat (map (\<lambda>s. the (map_of (chunks p) (word_of_nat s))) [0..<unat n]))),
                drop_pending i p st))"

definition FeedChunk :: "BytePacket \<Rightarrow> Pending \<Rightarrow> ByteReassembler \<Rightarrow>
    string option result \<times> ByteReassembler" where
  "FeedChunk packet p st =
     (if (case declared_count p of None \<Rightarrow> False | Some n \<Rightarrow> sequence packet \<ge> n)
      then (Err kOutOfRange ''byte chunk sequence exceeds the declared packet count'', st)
      else if map_of (chunks p) (sequence packet) \<noteq> None
      then (Err kAlreadyExists ''duplicate byte chunk sequence'', st)
      else if byte_count p + length (payload packet) > max_message_size (options st)
      then (Err kOutOfRange ''reassembled byte message exceeds max_message_size'', st)
      else let p' = p\<lparr>byte_count := byte_count p + length (payload packet),
                      chunks := AList.update (sequence packet) (payload packet) (chunks p)\<rparr>
           in FeedComplete (transient_id packet) p'
                (put_pending (transient_id packet) p'
                   (st\<lparr>pending_bytes := pending_bytes st + length (payload packet)\<rparr>)))"

definition FeedPending :: "BytePacket \<Rightarrow> Pending \<Rightarrow> ByteReassembler \<Rightarrow>
    string option result \<times> ByteReassembler" where
  "FeedPending packet p st =
     (if packet_type packet = kLengthSuffixedByteChunk then
        if declared_count p \<noteq> None \<and> declared_count p \<noteq> Some (packet_count packet)
        then (Err kInvalidArgument ''byte message has conflicting packet counts'', st)
        else if list_ex (\<lambda>(s, _). s \<ge> packet_count packet) (chunks p)
        then (Err kOutOfRange ''byte chunk sequence exceeds the declared packet count'',
              drop_pending (transient_id packet) p st)
        else let p' = p\<lparr>declared_count := Some (packet_count packet)\<rparr>
             in FeedChunk packet p' (put_pending (transient_id packet) p' st)
      else FeedChunk packet p st)"

definition FeedPacket :: "BytePacket \<Rightarrow> ByteReassembler \<Rightarrow>
    string option result \<times> ByteReassembler" where
  "FeedPacket packet st =
     (if length (payload packet) > max_message_size (options st)
      then (Err kOutOfRange ''incoming byte message exceeds its limit'', st)
      else if packet_type packet = kCompleteBytes then
        if map_of (pending st) (transient_id packet) \<noteq> None
        then (Err kAlreadyExists ''complete byte packet collides with pending chunks'', st)
        else (Ok (Some (payload packet)), st)
      else if unat (sequence packet) > max_message_size (options st)
      then (Err kOutOfRange ''byte chunk sequence exceeds the configured message bound'', st)
      else if packet_type packet = kLengthSuffixedByteChunk \<and>
              unat (packet_count packet) > sz_add (max_message_size (options st)) 1
      then (Err kOutOfRange ''byte message declares an unreasonable packet count'', st)
      else if pending_bytes st + length (payload packet) > max_pending_bytes (options st)
      then (Err kResourceExhausted ''pending byte chunks exceed max_pending_bytes'', st)
      else case map_of (pending st) (transient_id packet) of
        None \<Rightarrow>
          if length (pending st) \<ge> max_pending_messages (options st)
          then (Err kResourceExhausted ''too many byte messages are pending reassembly'', st)
          else FeedPending packet empty_pending
                 (put_pending (transient_id packet) empty_pending st)
      | Some p \<Rightarrow> FeedPending packet p st)"

definition Feed :: "string \<Rightarrow> ByteReassembler \<Rightarrow> string option result \<times> ByteReassembler" where
  "Feed serialized st =
     (if length serialized > packet_size (options st)
      then (Err kOutOfRange ''incoming byte packet exceeds packet_size'', st)
      else case ParseOwnedBytePacket serialized of
        Inl e \<Rightarrow> (Inl e, st)
      | Inr packet \<Rightarrow> FeedPacket packet st)"

definition Clear :: "ByteReassembler \<Rightarrow> ByteReassembler" where
  "Clear st = st\<lparr>pending := [], pending_bytes := 0\<rparr>"

definition pending_message_count :: "ByteReassembler \<Rightarrow> nat" where
  "pending_message_count st = length (pending st)"

definition pending_byte_count :: "ByteReassembler \<Rightarrow> nat" where
  "pending_byte_count st = pending_bytes st"

fun feed_all :: "string list \<Rightarrow> ByteReassembler \<Rightarrow> string option result list \<times> ByteReassembler" where
  "feed_all [] st = ([], st)"
| "feed_all (p # ps) st =
     (let (r, st') = Feed p st; (rs, st'') = feed_all ps st' in (r # rs, st''))"

end
