(* ===== verification/Byte_Reassembly.thy ===== *)
theory Byte_Reassembly
  imports Byte_Chunking "HOL-Library.Multiset"
begin

text \<open>
  Correctness of the byte packets of Byte_Chunking: what the parser reads back from what the
  serializers wrote, the packets a split gives, reassembly of the packets of a message in any order
  and from any state with room for it, and the invariant every call of Feed keeps whatever bytes it
  is given.
\<close>

section \<open>Parsing what was serialized\<close>

unbundle bit_operations_syntax

lemma read_le_at:
  assumes "LENGTH('a::len) = 8 * n" and "s = pre @ le_bytes n (v :: 'a word) @ post" and "k = length pre"
  shows "ReadLittleEndian s k = v"
  using read_append_le [OF assms(1)] assms(2,3) by simp

lemma packet_type_of_byte [simp]: "packet_type_of (packet_type_byte t) = Some t"
  by (cases t) (simp_all add: packet_type_of_def)

lemma serialize_complete_eq:
  "SerializeComplete b i = b @ le_bytes 8 i @ [packet_type_byte kCompleteBytes]"
  by (simp add: SerializeComplete_def AppendLittleEndian_def)

lemma serialize_later_eq:
  "SerializeChunk b i s None = b @ le_bytes 4 s @ le_bytes 8 i @ [packet_type_byte kByteChunk]"
  by (simp add: SerializeChunk_def AppendLittleEndian_def Let_def)

lemma serialize_first_eq:
  "SerializeChunk b i s (Some n) =
     b @ le_bytes 4 n @ le_bytes 4 s @ le_bytes 8 i @ [packet_type_byte kLengthSuffixedByteChunk]"
  by (simp add: SerializeChunk_def AppendLittleEndian_def Let_def)

lemmas serialize_eqs = serialize_complete_eq serialize_later_eq serialize_first_eq

lemma parse_complete:
  "ParseOwnedBytePacket (SerializeComplete b i) =
     Ok \<lparr>packet_type = kCompleteBytes, payload = b, transient_id = i, sequence = 0, packet_count = 0\<rparr>"
proof -
  have "ReadLittleEndian (SerializeComplete b i) (length b) = i"
    by (rule read_le_at [where n = 8 and pre = b]) (simp_all add: serialize_complete_eq)
  then show ?thesis
    by (simp add: ParseOwnedBytePacket_def ParseBytePacketMetadata_def serialize_complete_eq
        packet_sizes packet_type_of_def Let_def)
qed

lemma parse_later:
  "ParseOwnedBytePacket (SerializeChunk b i s None) =
     Ok \<lparr>packet_type = kByteChunk, payload = b, transient_id = i, sequence = s, packet_count = 0\<rparr>"
proof -
  let ?p = "SerializeChunk b i s None"
  have "ReadLittleEndian ?p (4 + length b) = i"
    by (rule read_le_at [where n = 8 and pre = "b @ le_bytes 4 s"]) (simp_all add: serialize_later_eq)
  moreover have "ReadLittleEndian ?p (length b) = s"
    by (rule read_le_at [where n = 4 and pre = b]) (simp_all add: serialize_later_eq)
  ultimately show ?thesis
    by (simp add: ParseOwnedBytePacket_def ParseBytePacketMetadata_def serialize_later_eq
        packet_sizes packet_type_of_def Let_def)
qed

lemma parse_first:
  assumes "n \<noteq> 0"
  shows "ParseOwnedBytePacket (SerializeChunk b i 0 (Some n)) =
     Ok \<lparr>packet_type = kLengthSuffixedByteChunk, payload = b, transient_id = i,
         sequence = 0, packet_count = n\<rparr>"
proof -
  let ?p = "SerializeChunk b i 0 (Some n)"
  have "ReadLittleEndian ?p (8 + length b) = i"
    by (rule read_le_at [where n = 8 and pre = "b @ le_bytes 4 n @ le_bytes 4 (0::u32)"])
      (simp_all add: serialize_first_eq)
  moreover have "ReadLittleEndian ?p (4 + length b) = (0::u32)"
    by (rule read_le_at [where n = 4 and pre = "b @ le_bytes 4 n"]) (simp_all add: serialize_first_eq)
  moreover have "ReadLittleEndian ?p (length b) = n"
    by (rule read_le_at [where n = 4 and pre = b]) (simp_all add: serialize_first_eq)
  ultimately show ?thesis
    using assms by (simp add: ParseOwnedBytePacket_def ParseBytePacketMetadata_def serialize_first_eq
        packet_sizes packet_type_of_def Let_def)
qed

text \<open>pieces\<close>

fun pieces :: "nat \<Rightarrow> string \<Rightarrow> string list" where
  "pieces n [] = []"
| "pieces n (c # cs) = (if n = 0 then [c # cs] else take n (c # cs) # pieces n (drop n (c # cs)))"

declare pieces.simps [simp del]
lemma pieces_nonempty: "s \<noteq> [] \<Longrightarrow> n > 0 \<Longrightarrow> pieces n s = take n s # pieces n (drop n s)"
  by (cases s) (simp_all add: pieces.simps)
lemma pieces_Nil [simp]: "pieces n [] = []" by (simp add: pieces.simps)

lemma concat_pieces: "concat (pieces n s) = s"
  by (induction n s rule: pieces.induct) (simp_all add: pieces.simps)

lemma pieces_length_le: "n > 0 \<Longrightarrow> p \<in> set (pieces n s) \<Longrightarrow> length p \<le> n"
  by (induction n s rule: pieces.induct) (auto simp add: pieces.simps split: if_splits)

lemma length_pieces: "n > 0 \<Longrightarrow> length (pieces n s) = (length s + n - 1) div n"
proof (induction n s rule: pieces.induct)
  case (2 n c cs)
  have step: "length (pieces n (c # cs)) = Suc (length (pieces n (drop n (c # cs))))"
    using 2(2) by (simp only: pieces_nonempty list.distinct not_False_eq_True list.size)
  also have "length (pieces n (drop n (c # cs))) = (length (drop n (c # cs)) + n - 1) div n"
    using 2 by blast
  also have "Suc \<dots> = (length (drop n (c # cs)) + n - 1 + n) div n"
    using 2(2) by (simp only: div_add_self2)
  also have "\<dots> = (length (c # cs) + n - 1) div n"
  proof (cases "length (c # cs) \<le> n")
    case True
    then have "(length cs + n) div n = 1" using 2(2) by (simp add: div_add_self2)
    moreover have "(n - 1 + n) div n = 1" using 2(2) by (simp only: div_add_self2) simp
    ultimately show ?thesis using True by simp
  next
    case False
    then have "length (drop n (c # cs)) + n - 1 + n = length (c # cs) + n - 1" using 2(2) by simp
    then show ?thesis by simp
  qed
  finally show ?case .
qed simp

fun later_packets :: "u64 \<Rightarrow> u32 \<Rightarrow> string list \<Rightarrow> string list" where
  "later_packets i s [] = []"
| "later_packets i s (p # ps) = SerializeChunk p i s None # later_packets i (s + 1) ps"

lemma SplitLater_pieces:
  "later > 0 \<Longrightarrow> SplitLater bytes i later off s = later_packets i s (pieces later (drop off bytes))"
proof (induction bytes i later off s rule: SplitLater.induct)
  case (1 bytes tid later offset seq)
  let ?m = "min later (length bytes - offset)"
  show ?case
  proof (cases "offset < length bytes")
    case True
    have "SplitLater bytes tid later offset seq =
        SerializeChunk (take ?m (drop offset bytes)) tid seq None
        # SplitLater bytes tid later (offset + ?m) (seq + 1)"
      using True 1(2) by (subst SplitLater.simps) (simp only: Let_def simp_thms if_True)
    also have "SplitLater bytes tid later (offset + ?m) (seq + 1)
        = later_packets tid (seq + 1) (pieces later (drop (offset + ?m) bytes))"
      using 1 True by blast
    also have "take ?m (drop offset bytes) = take later (drop offset bytes)"
      by (simp add: min_def)
    also have "drop (offset + ?m) bytes = drop later (drop offset bytes)"
      by (simp add: min_def add.commute)
    finally show ?thesis
      using 1(2) True by (simp only: pieces_nonempty later_packets.simps drop_eq_Nil not_le)
  next
    case False
    then show ?thesis using SplitLater.simps [of bytes tid later offset seq] by simp
  qed
qed

lemma length_later_packets [simp]: "length (later_packets i s ps) = length ps"
  by (induction ps arbitrary: s) simp_all

lemma later_packets_nth:
  "k < length ps \<Longrightarrow> later_packets i s ps ! k = SerializeChunk (ps ! k) i (s + word_of_nat k) None"
proof (induction ps arbitrary: s k)
  case (Cons p ps)
  then show ?case by (cases k) (simp_all add: add.assoc)
qed simp


section \<open>Reassembly\<close>

fun packets_of :: "u64 \<Rightarrow> string list \<Rightarrow> string list" where
  "packets_of i [] = []"
| "packets_of i (c # cs) =
     SerializeChunk c i 0 (Some (word_of_nat (length (c # cs)))) # later_packets i 1 cs"

definition chunk_packet :: "u64 \<Rightarrow> string list \<Rightarrow> nat \<Rightarrow> BytePacket" where
  "chunk_packet i cs k =
     \<lparr>packet_type = (if k = 0 then kLengthSuffixedByteChunk else kByteChunk), payload = cs ! k,
      transient_id = i, sequence = word_of_nat k,
      packet_count = (if k = 0 then word_of_nat (length cs) else 0)\<rparr>"

lemma chunk_packet_sel [simp]:
  "packet_type (chunk_packet i cs k) = (if k = 0 then kLengthSuffixedByteChunk else kByteChunk)"
  "payload (chunk_packet i cs k) = cs ! k"
  "transient_id (chunk_packet i cs k) = i"
  "sequence (chunk_packet i cs k) = word_of_nat k"
  "packet_count (chunk_packet i cs k) = (if k = 0 then word_of_nat (length cs) else 0)"
  by (simp_all add: chunk_packet_def)

definition split_pieces :: "string \<Rightarrow> nat \<Rightarrow> string list" where
  "split_pieces bytes psize =
     take (psize - kFirstChunkMetadataSize) bytes
     # pieces (psize - kChunkMetadataSize) (drop (psize - kFirstChunkMetadataSize) bytes)"

lemma length_packets_of [simp]: "length (packets_of i cs) = length cs"
  by (cases cs) simp_all

lemma parse_packet_nth:
  assumes "k < length cs" and "length cs < 2 ^ 32"
  shows "ParseOwnedBytePacket (packets_of i cs ! k) = Ok (chunk_packet i cs k)"
proof (cases cs)
  case (Cons c ds)
  have nz: "(word_of_nat (length cs) :: u32) \<noteq> 0"
    using assms unat_of_nat32 [of "length cs"] by (metis Cons length_0_conv list.distinct(1) unsigned_0)
  show ?thesis
  proof (cases k)
    case 0
    with Cons nz show ?thesis by (simp add: parse_first chunk_packet_def del: of_nat_Suc)
  next
    case (Suc j)
    with Cons assms show ?thesis
      by (simp add: later_packets_nth parse_later chunk_packet_def)
  qed
qed (use assms in simp)

lemma split_multi:
  assumes "SplitBytesIntoPackets bytes i psize = Ok ps" and "length bytes > psize - kCompleteMetadataSize"
  shows "ps = packets_of i (split_pieces bytes psize)" and "length ps < 2 ^ 32" and "length ps > 1"
    and "kMinimumBytePacketSize \<le> psize"
proof -
  let ?f = "psize - kFirstChunkMetadataSize" and ?l = "psize - kChunkMetadataSize"
  show min: "kMinimumBytePacketSize \<le> psize"
    using assms by (auto simp: SplitBytesIntoPackets_def split: if_splits)
  then have pos: "?l > 0" by (simp add: packet_sizes)
  let ?q = "pieces ?l (drop ?f bytes)"
  have len: "length ?q = (length bytes - ?f + ?l - 1) div ?l"
    using length_pieces [OF pos, of "drop ?f bytes"] by simp
  have ne: "drop ?f bytes \<noteq> []" using assms(2) min by (simp add: packet_sizes)
  have small: "length ?q < 2 ^ 32 - 1" and eq: "ps = packets_of i (split_pieces bytes psize)"
    using assms min len SplitLater_pieces [OF pos]
    by (auto simp: SplitBytesIntoPackets_def split_pieces_def Let_def add.commute split: if_splits)
  show "ps = packets_of i (split_pieces bytes psize)" by (rule eq)
  show "length ps < 2 ^ 32" using small by (simp add: eq split_pieces_def)
  have "length ?q > 0" using ne pos by (simp add: pieces_nonempty)
  then show "length ps > 1" by (simp add: eq split_pieces_def)
qed

lemma concat_split_pieces: "concat (split_pieces bytes psize) = bytes"
  by (simp add: split_pieces_def concat_pieces)


lemma dom_chunks_card:
  assumes "distinct (map fst xs)" and "S \<subseteq> {..<2 ^ 32}"
    and "\<forall>k. k < 2 ^ 32 \<longrightarrow> map_of xs (word_of_nat k :: u32) = (if k \<in> S then Some (f k) else None)"
  shows "length xs = card S"
proof -
  have "dom (map_of xs) = word_of_nat ` S"
  proof (intro set_eqI iffI)
    fix w :: u32 assume "w \<in> dom (map_of xs)"
    moreover have "unat w < 2 ^ 32" by (rule unat_less32)
    moreover have "word_of_nat (unat w) = w" by simp
    ultimately show "w \<in> word_of_nat ` S" using assms(3) by (metis domIff image_eqI)
  next
    fix w :: u32 assume "w \<in> word_of_nat ` S"
    then show "w \<in> dom (map_of xs)" using assms(2,3) by fastforce
  qed
  moreover have "inj_on (word_of_nat :: nat \<Rightarrow> u32) S"
    using assms(2) by (metis inj_onI lessThan_iff subsetD unat_of_nat32)
  ultimately show ?thesis
    using assms(1) by (simp add: length_alist_card card_image)
qed


definition chunk_view :: "string list \<Rightarrow> nat set \<Rightarrow> Pending \<Rightarrow> bool" where
  "chunk_view cs S p \<longleftrightarrow>
     declared_count p = (if 0 \<in> S then Some (word_of_nat (length cs)) else None) \<and>
     distinct (map fst (chunks p)) \<and>
     (\<forall>k. k < 2 ^ 32 \<longrightarrow> map_of (chunks p) (word_of_nat k) = (if k \<in> S then Some (cs ! k) else None)) \<and>
     byte_count p = (\<Sum>k\<in>S. length (cs ! k))"

definition add_chunk :: "string list \<Rightarrow> nat \<Rightarrow> Pending \<Rightarrow> Pending" where
  "add_chunk cs k p =
     \<lparr>declared_count = (if k = 0 then Some (word_of_nat (length cs)) else declared_count p),
      chunks = AList.update (word_of_nat k) (cs ! k) (chunks p),
      byte_count = byte_count p + length (cs ! k)\<rparr>"

lemma chunk_view_empty: "chunk_view cs {} empty_pending"
  by (simp add: chunk_view_def empty_pending_def)

lemma chunk_view_add:
  assumes "chunk_view cs S p" and "finite S" and "k \<notin> S" and "k < 2 ^ 32"
  shows "chunk_view cs (insert k S) (add_chunk cs k p)"
  using assms by (auto simp: chunk_view_def add_chunk_def update_conv' distinct_update of_nat32_inject)

lemma feed_complete_view:
  assumes v: "chunk_view cs S p" and S: "S \<subseteq> {..<length cs}" and n: "0 < length cs" "length cs < 2 ^ 32"
  shows "FeedComplete i p st =
    (if S = {..<length cs} then (Ok (Some (concat cs)), drop_pending i p st) else (Ok None, st))"
proof -
  have len: "length (chunks p) = card S"
    using v S n by (intro dom_chunks_card [where f = "\<lambda>k. cs ! k"]) (auto simp: chunk_view_def)
  have full: "card S = length cs \<longleftrightarrow> S = {..<length cs}"
    using S by (metis card_lessThan card_subset_eq finite_lessThan)
  show ?thesis
  proof (cases "S = {..<length cs}")
    case True
    then have c: "declared_count p = Some (word_of_nat (length cs))"
      and m: "\<And>k. k < length cs \<Longrightarrow> map_of (chunks p) (word_of_nat k) = Some (cs ! k)"
      using v n by (auto simp: chunk_view_def)
    have "map (\<lambda>s. the (map_of (chunks p) (word_of_nat s))) [0..<length cs] = cs"
      by (rule nth_equalityI) (simp_all add: m)
    then show ?thesis
      using True c m len full n by (auto simp: FeedComplete_def unat_of_nat32 list_ex_iff)
  next
    case False
    then show ?thesis
      using v len full n by (auto simp: FeedComplete_def unat_of_nat32 chunk_view_def)
  qed
qed

lemma feed_pending_step:
  assumes v: "chunk_view cs S p" and S: "S \<subseteq> {..<length cs}" and k: "k < length cs" "k \<notin> S"
    and n: "length cs < 2 ^ 32"
    and room: "byte_count p + length (cs ! k) \<le> max_message_size (options st)"
  shows "FeedPending (chunk_packet i cs k) p st =
    (let p' = add_chunk cs k p;
         st' = put_pending i p' (st\<lparr>pending_bytes := pending_bytes st + length (cs ! k)\<rparr>)
     in if insert k S = {..<length cs} then (Ok (Some (concat cs)), drop_pending i p' st')
        else (Ok None, st'))"
proof -
  have k32: "k < 2 ^ 32" using k n by simp
  have fin: "finite S" using S by (rule finite_subset) simp
  have v': "chunk_view cs (insert k S) (add_chunk cs k p)"
    using v fin k(2) k32 by (rule chunk_view_add)
  have keys: "s < word_of_nat (length cs)" if "(s, c) \<in> set (chunks p)" for s c
  proof -
    have "map_of (chunks p) s \<noteq> None" using that by (simp add: map_of_eq_None_iff) force
    moreover have "map_of (chunks p) (word_of_nat (unat s)) = (if unat s \<in> S then Some (cs ! unat s) else None)"
      using v unat_less32 [of s] unfolding chunk_view_def by blast
    ultimately have "unat s \<in> S" by (simp split: if_splits)
    then show ?thesis using S n by (auto simp: word_less_nat_alt unat_of_nat32)
  qed
  have fresh: "map_of (chunks p) (word_of_nat k) = None"
    using v k(2) k32 by (simp add: chunk_view_def)
  have below: "\<not> (word_of_nat (length cs) :: u32) \<le> word_of_nat k"
    using k n by (simp add: word_le_nat_alt unat_of_nat32 not_le)
  have chunk: "FeedChunk (chunk_packet i cs k) q st1 =
      FeedComplete i (add_chunk cs k p)
        (put_pending i (add_chunk cs k p) (st1\<lparr>pending_bytes := pending_bytes st1 + length (cs ! k)\<rparr>))"
    if "declared_count q = (if k = 0 then Some (word_of_nat (length cs)) else declared_count p)"
      and "chunks q = chunks p" and "byte_count q = byte_count p" and "options st1 = options st" for q st1
  proof -
    have "q\<lparr>byte_count := byte_count q + length (cs ! k),
            chunks := AList.update (word_of_nat k) (cs ! k) (chunks q)\<rparr> = add_chunk cs k p"
      using that by (cases q) (simp add: add_chunk_def)
    moreover have "\<not> (case declared_count q of None \<Rightarrow> False
                     | Some m \<Rightarrow> sequence (chunk_packet i cs k) \<ge> m)"
      using that(1) v below by (auto simp: chunk_view_def)
    ultimately show ?thesis
      using that(2-4) fresh room by (simp add: FeedChunk_def Let_def)
  qed
  have "FeedPending (chunk_packet i cs k) p st =
      FeedComplete i (add_chunk cs k p)
        (put_pending i (add_chunk cs k p) (st\<lparr>pending_bytes := pending_bytes st + length (cs ! k)\<rparr>))"
  proof (cases "k = 0")
    case True
    then have none: "declared_count p = None" using v k by (simp add: chunk_view_def)
    have bounded: "\<not> list_ex (\<lambda>(s, _). s \<ge> word_of_nat (length cs)) (chunks p)"
      using keys by (force simp: list_ex_iff)
    let ?q = "p\<lparr>declared_count := Some (word_of_nat (length cs))\<rparr>"
    have "FeedPending (chunk_packet i cs k) p st = FeedChunk (chunk_packet i cs k) ?q (put_pending i ?q st)"
      using True none bounded by (simp add: FeedPending_def Let_def)
    then show ?thesis
      using True chunk [of ?q "put_pending i ?q st"] by (simp add: put_pending_def update_last)
  next
    case False
    then show ?thesis using chunk [of p st] by (simp add: FeedPending_def)
  qed
  moreover have "insert k S \<subseteq> {..<length cs}" and "0 < length cs"
    using S k by auto
  ultimately show ?thesis
    using feed_complete_view [OF v' _ _ n] by (simp add: Let_def)
qed


definition feed_inv :: "u64 \<Rightarrow> string list \<Rightarrow> nat set \<Rightarrow> ByteReassembler \<Rightarrow> ByteReassembler \<Rightarrow> bool" where
  "feed_inv i cs S st0 st \<longleftrightarrow>
     options st = options st0 \<and> AList.delete i (pending st) = pending st0 \<and>
     pending_bytes st = pending_bytes st0 + (\<Sum>k\<in>S. length (cs ! k)) \<and>
     (if S = {} then map_of (pending st) i = None
      else \<exists>p. map_of (pending st) i = Some p \<and> chunk_view cs S p)"

text \<open>The limits leave room for the message \<open>cs\<close> besides what is already pending.\<close>

definition has_room :: "string list \<Rightarrow> ByteReassembler \<Rightarrow> bool" where
  "has_room cs st \<longleftrightarrow>
     length cs \<le> max_message_size (options st) \<and>
     length (concat cs) \<le> max_message_size (options st) \<and>
     max_message_size (options st) + 1 < size_limit \<and>
     pending_bytes st + length (concat cs) \<le> max_pending_bytes (options st) \<and>
     length (pending st) < max_pending_messages (options st)"

lemma sum_lengths_le:
  assumes "S \<subseteq> {..<length cs}"
  shows "(\<Sum>k\<in>S. length (cs ! k)) \<le> length (concat cs)"
proof -
  have "length (concat cs) = (\<Sum>k<length cs. length (cs ! k))"
    by (simp add: length_concat sum_list_sum_nth atLeast0LessThan)
  then show ?thesis using assms by (simp add: sum_mono2)
qed

lemma feed_packet_step:
  assumes inv: "feed_inv i cs S st0 st" and room: "has_room cs st0"
    and S: "S \<subseteq> {..<length cs}" and k: "k < length cs" "k \<notin> S" and n: "length cs < 2 ^ 32"
  shows "\<exists>st'. FeedPacket (chunk_packet i cs k) st =
           (if insert k S = {..<length cs} then (Ok (Some (concat cs)), st0) else (Ok None, st')) \<and>
           feed_inv i cs (insert k S) st0 st'"
proof -
  have fin: "finite S" using S by (rule finite_subset) simp
  have sum: "(\<Sum>k\<in>S. length (cs ! k)) + length (cs ! k) \<le> length (concat cs)"
    using sum_lengths_le [of "insert k S" cs] S k fin by simp
  have k32: "unat (word_of_nat k :: u32) = k" using k n by (intro unat_of_nat32) simp
  define p where "p = (if S = {} then empty_pending else the (map_of (pending st) i))"
  define st1 where "st1 = (if S = {} then put_pending i empty_pending st else st)"
  have v: "chunk_view cs S p"
    using inv by (auto simp: p_def feed_inv_def chunk_view_empty split: if_splits)
  have bc: "byte_count p = (\<Sum>k\<in>S. length (cs ! k))"
    using v by (simp add: chunk_view_def)
  have "S = {} \<Longrightarrow> length (pending st) = length (pending st0)"
    using inv by (auto simp: feed_inv_def delete_id map_of_eq_None_iff)
  then have "FeedPacket (chunk_packet i cs k) st = FeedPending (chunk_packet i cs k) p st1"
    using inv room k sum k32 n
    by (auto simp: FeedPacket_def has_room_def feed_inv_def p_def st1_def unat_of_nat32 split: if_splits)
  also have "\<dots> = (let p' = add_chunk cs k p;
         st' = put_pending i p' (st1\<lparr>pending_bytes := pending_bytes st1 + length (cs ! k)\<rparr>)
     in if insert k S = {..<length cs} then (Ok (Some (concat cs)), drop_pending i p' st')
        else (Ok None, st'))"
    using inv room sum bc
    by (intro feed_pending_step v S k n) (auto simp: has_room_def feed_inv_def st1_def put_pending_def)
  finally have step: "FeedPacket (chunk_packet i cs k) st = \<dots>" .
  define p' where "p' = add_chunk cs k p"
  define st' where "st' = put_pending i p' (st1\<lparr>pending_bytes := pending_bytes st1 + length (cs ! k)\<rparr>)"
  have "drop_pending i p' st' = st0"
    using inv bc by (intro ByteReassembler.equality)
      (auto simp: drop_pending_def st'_def st1_def p'_def put_pending_def add_chunk_def feed_inv_def delete_update_same)
  moreover have "feed_inv i cs (insert k S) st0 st'"
    using inv chunk_view_add [OF v fin k(2)] k n fin
    by (auto simp: feed_inv_def st'_def st1_def put_pending_def p'_def update_conv' delete_update_same)
  ultimately show ?thesis
    using step by (auto simp: Let_def p'_def st'_def)
qed


lemma feed_serialized:
  assumes "k < length cs" and "length cs < 2 ^ 32" and "length (packets_of i cs ! k) \<le> packet_size (options st)"
  shows "Feed (packets_of i cs ! k) st = FeedPacket (chunk_packet i cs k) st"
  using assms by (simp add: Feed_def parse_packet_nth)

lemma packets_inj:
  assumes "k < length cs" "l < length cs" "length cs < 2 ^ 32" and "packets_of i cs ! k = packets_of i cs ! l"
  shows "k = l"
proof -
  have "chunk_packet i cs k = chunk_packet i cs l"
    using parse_packet_nth [OF assms(1,3), of i] parse_packet_nth [OF assms(2,3), of i] assms(4) by simp
  then have "(word_of_nat k :: u32) = word_of_nat l" by (metis chunk_packet_sel(4))
  then show ?thesis using assms(1-3) by (simp add: of_nat32_inject)
qed

lemma distinct_packets: "length cs < 2 ^ 32 \<Longrightarrow> distinct (packets_of i cs)"
  by (auto simp: distinct_conv_nth dest: packets_inj)

lemma feed_rest:
  assumes n: "length cs < 2 ^ 32" and room: "has_room cs st0"
    and fits: "\<forall>q\<in>set (packets_of i cs). length q \<le> packet_size (options st0)"
  shows "S \<subset> {..<length cs} \<Longrightarrow> feed_inv i cs S st0 st \<Longrightarrow> distinct ks \<Longrightarrow> set ks = {..<length cs} - S \<Longrightarrow>
    feed_all (map (\<lambda>k. packets_of i cs ! k) ks) st = (replicate (length ks - 1) (Ok None) @ [Ok (Some (concat cs))], st0)"
proof (induction ks arbitrary: S st)
  case Nil
  then show ?case by auto
next
  case (Cons k ks)
  have "k \<in> {..<length cs} - S" using Cons.prems(4) by (metis list.set_intros(1))
  then have k: "k < length cs" "k \<notin> S" by simp_all
  have "set ks = set (k # ks) - {k}" using Cons.prems(3) by simp
  then have rest: "set ks = {..<length cs} - insert k S" by (simp only: Cons.prems(4)) blast
  have sub: "insert k S \<subseteq> {..<length cs}" using Cons.prems(1) k by auto
  have fed: "Feed (packets_of i cs ! k) st = FeedPacket (chunk_packet i cs k) st"
    using k n fits Cons.prems(2) by (intro feed_serialized) (auto simp: feed_inv_def)
  obtain st' where step: "FeedPacket (chunk_packet i cs k) st =
        (if insert k S = {..<length cs} then (Ok (Some (concat cs)), st0) else (Ok None, st'))"
      and inv': "feed_inv i cs (insert k S) st0 st'"
    using feed_packet_step [OF Cons.prems(2) room _ k n] Cons.prems(1) by blast
  show ?case
  proof (cases "insert k S = {..<length cs}")
    case True
    then have "ks = []" using rest by simp
    then show ?thesis using fed step by (simp only: True if_True) simp
  next
    case False
    then have sub: "insert k S \<subset> {..<length cs}" using sub by (rule psubsetI [rotated])
    then have "ks \<noteq> []" using rest by auto
    then have "replicate (length ks) (Ok None :: string option result) = Ok None # replicate (length ks - 1) (Ok None)"
      by (cases ks) simp_all
    moreover note Cons.IH [OF sub inv' _ rest] Cons.prems(3)
    ultimately show ?thesis using False fed step by simp
  qed
qed

lemma mset_map_inv: "mset qs = image_mset f M \<Longrightarrow> \<exists>ks. qs = map f ks \<and> mset ks = M"
proof (induction qs arbitrary: M)
  case (Cons q qs)
  then have "q \<in># image_mset f M" by (metis list.set_intros(1) set_mset_mset)
  then obtain k N where k: "q = f k" "M = add_mset k N" by (auto dest: multi_member_split)
  then have "mset qs = image_mset f N" using Cons.prems by simp
  then obtain ks where "qs = map f ks" "mset ks = N" using Cons.IH by blast
  then have "q # qs = map f (k # ks) \<and> mset (k # ks) = M" using k by simp
  then show ?case by (rule exI)
qed simp

lemma perm_indices:
  assumes "mset qs = mset ps"
  shows "\<exists>ks. qs = map (\<lambda>k. ps ! k) ks \<and> distinct ks \<and> set ks = {..<length ps}"
proof -
  have "mset qs = image_mset (\<lambda>k. ps ! k) (mset [0..<length ps])"
    using assms by (metis map_nth mset_map)
  then obtain ks where "qs = map (\<lambda>k. ps ! k) ks" and m: "mset ks = mset [0..<length ps]"
    using mset_map_inv by blast
  moreover have "distinct ks" using mset_eq_imp_distinct_iff [OF m] by simp
  moreover have "set ks = {..<length ps}" using mset_eq_setD [OF m] by (simp add: atLeast0LessThan)
  ultimately show ?thesis by blast
qed


lemma validated_no_wrap:
  assumes "ValidateOptions opts = Ok ()" and "max_message_size opts < size_limit"
  shows "max_message_size opts + 1 < size_limit"
proof (rule ccontr)
  assume "\<not> ?thesis"
  then have "max_message_size opts + kCompleteMetadataSize = 8 + size_limit"
    using assms(2) by (simp add: packet_sizes)
  then have "sz_add (max_message_size opts) kCompleteMetadataSize = 8"
    by (simp add: sz_add_def size_limit_def)
  then show False using assms(1) by (simp add: ValidateOptions_def packet_sizes split: if_splits)
qed

lemma pieces_ne: "n > 0 \<Longrightarrow> p \<in> set (pieces n s) \<Longrightarrow> p \<noteq> []"
proof (induction n s rule: pieces.induct)
  case (2 n c cs)
  then have "p \<in> set (take n (c # cs) # pieces n (drop n (c # cs)))"
    by (simp only: pieces_nonempty list.distinct not_False_eq_True)
  then show ?case using 2 by (cases n) auto
qed simp

lemma length_le_concat: "(\<And>p. p \<in> set ps \<Longrightarrow> p \<noteq> []) \<Longrightarrow> length ps \<le> length (concat ps)"
proof (induction ps)
  case (Cons p ps)
  then have "length ps \<le> length (concat ps)" and "length p > 0" by auto
  then show ?case unfolding list.size concat.simps length_append by linarith
qed simp

lemma split_pieces_ne:
  assumes "kMinimumBytePacketSize \<le> psize" and "length bytes > psize - kCompleteMetadataSize"
    and "p \<in> set (split_pieces bytes psize)"
  shows "p \<noteq> []"
  using assms pieces_ne [of "psize - kChunkMetadataSize" p] by (auto simp: split_pieces_def packet_sizes)

lemma split_packet_length:
  assumes min: "kMinimumBytePacketSize \<le> psize" and q: "q \<in> set (packets_of i (split_pieces bytes psize))"
  shows "length q \<le> psize"
proof -
  let ?cs = "split_pieces bytes psize"
  obtain k where k: "k < length ?cs" "q = packets_of i ?cs ! k"
    using q by (metis in_set_conv_nth length_packets_of)
  show ?thesis
  proof (cases k)
    case 0
    then show ?thesis using k min by (simp add: split_pieces_def serialize_first_eq packet_sizes del: of_nat_Suc)
  next
    case (Suc j)
    let ?q = "pieces (psize - kChunkMetadataSize) (drop (psize - kFirstChunkMetadataSize) bytes)"
    have "?q ! j \<in> set ?q" using k Suc by (simp add: split_pieces_def)
    then have "length (?q ! j) \<le> psize - kChunkMetadataSize"
      using min by (intro pieces_length_le) (simp_all add: packet_sizes)
    then show ?thesis
      using k Suc min by (simp add: split_pieces_def later_packets_nth serialize_later_eq packet_sizes)
  qed
qed

lemma split_fits:
  assumes "SplitBytesIntoPackets bytes i psize = Ok ps"
  shows "\<forall>p\<in>set ps. length p \<le> psize"
proof (cases "length bytes \<le> psize - kCompleteMetadataSize")
  case True
  then show ?thesis
    using assms by (auto simp: SplitBytesIntoPackets_def serialize_complete_eq packet_sizes split: if_splits)
next
  case False
  then show ?thesis
    using split_multi [OF assms] split_packet_length by (metis not_le)
qed

lemma split_has_room:
  assumes "SplitBytesIntoPackets bytes i psize = Ok ps" and "length bytes > psize - kCompleteMetadataSize"
    and "ValidateOptions (options st) = Ok ()" and "max_message_size (options st) < size_limit"
    and "length bytes \<le> max_message_size (options st)"
    and "pending_bytes st + length bytes \<le> max_pending_bytes (options st)"
    and "length (pending st) < max_pending_messages (options st)"
  shows "has_room (split_pieces bytes psize) st"
proof -
  have "length (split_pieces bytes psize) \<le> length bytes"
    using length_le_concat [of "split_pieces bytes psize"] split_pieces_ne split_multi(4) [OF assms(1,2)] assms(2)
    by (simp add: concat_split_pieces)
  then show ?thesis
    using assms validated_no_wrap [OF assms(3,4)] by (simp add: has_room_def concat_split_pieces)
qed

lemma reassembles:
  assumes split: "SplitBytesIntoPackets bytes i psize = Ok ps" and perm: "mset qs = mset ps"
    and fresh: "map_of (pending st) i = None"
    and "psize \<le> packet_size (options st)"
    and "ValidateOptions (options st) = Ok ()" and "max_message_size (options st) < size_limit"
    and "length bytes \<le> max_message_size (options st)"
    and "pending_bytes st + length bytes \<le> max_pending_bytes (options st)"
    and "length (pending st) < max_pending_messages (options st)"
  shows "feed_all qs st = (replicate (length ps - 1) (Ok None) @ [Ok (Some bytes)], st)"
proof (cases "length bytes \<le> psize - kCompleteMetadataSize")
  case True
  then have "ps = [SerializeComplete bytes i]"
    using split by (auto simp: SplitBytesIntoPackets_def split: if_splits)
  moreover from this have "qs = ps" using perm by simp
  moreover have "length (SerializeComplete bytes i) \<le> packet_size (options st)"
    using split_fits [OF split] calculation(1) assms(4) by simp
  ultimately show ?thesis
    using assms by (simp add: Feed_def parse_complete FeedPacket_def)
next
  case False
  then have big: "length bytes > psize - kCompleteMetadataSize" by simp
  let ?cs = "split_pieces bytes psize"
  note m = split_multi [OF split big]
  obtain ks where ks: "qs = map (\<lambda>k. ps ! k) ks" "distinct ks" "set ks = {..<length ps}"
    using perm_indices [OF perm] by blast
  have "feed_all (map (\<lambda>k. packets_of i ?cs ! k) ks) st =
      (replicate (length ks - 1) (Ok None) @ [Ok (Some (concat ?cs))], st)"
  proof (rule feed_rest [where S = "{}"])
    show "length ?cs < 2 ^ 32" using m by simp
    show "has_room ?cs st" using split_has_room split big assms(5-9) by blast
    show "\<forall>q\<in>set (packets_of i ?cs). length q \<le> packet_size (options st)"
      using split_fits [OF split] m assms(4) by fastforce
    show "{} \<subset> {..<length ?cs}" by (auto simp: split_pieces_def)
    show "feed_inv i ?cs {} st st" using fresh by (auto simp: feed_inv_def map_of_eq_None_iff)
    show "distinct ks" by (rule ks)
    show "set ks = {..<length ?cs} - {}" using ks m by simp
  qed
  moreover have "length ks = length ps" using ks by (metis card_lessThan distinct_card)
  ultimately show ?thesis using ks m by (simp add: concat_split_pieces)
qed

text \<open>C1. Whatever order the packets of a message arrive in, feeding them to a reassembler that
  has room for the message (its limits validated, the id not pending) answers "not yet" for every
  packet but the last one, hands out exactly the bytes that were split at the last one, and leaves
  the reassembler as it was before, other pending messages included.\<close>

theorem reassembly_any_order:
  assumes split: "SplitBytesIntoPackets bytes i psize = Ok ps" and perm: "mset qs = mset ps"
    and fresh: "map_of (pending st) i = None"
    and "psize \<le> packet_size (options st)"
    and "ValidateOptions (options st) = Ok ()" and "max_message_size (options st) < size_limit"
    and "length bytes \<le> max_message_size (options st)"
    and "pending_bytes st + length bytes \<le> max_pending_bytes (options st)"
    and "length (pending st) < max_pending_messages (options st)"
  shows "feed_all qs st = (replicate (length ps - 1) (Ok None) @ [Ok (Some bytes)], st)"
  by (rule reassembles [OF assms])

definition sample_limits :: ByteChunkingOptions where
  "sample_limits = \<lparr>packet_size = 18, max_message_size = 100, max_pending_messages = 2, max_pending_bytes = 50\<rparr>"

theorem reassembly_any_order_witness:
  "feed_all (rev (projr (SplitBytesIntoPackets ''twenty-one bytes long'' 7 18))) (new_reassembler sample_limits) =
     (replicate (length (projr (SplitBytesIntoPackets ''twenty-one bytes long'' 7 18)) - 1) (Ok None)
      @ [Ok (Some ''twenty-one bytes long'')], new_reassembler sample_limits)"
  by (rule reassembly_any_order [where i = 7 and psize = 18])
    (simp_all add: sample_limits_def SplitBytesIntoPackets_def new_reassembler_def ValidateOptions_def
      packet_sizes size_limit_def Let_def)

section \<open>The invariant of the reassembler\<close>

definition pending_ok :: "ByteChunkingOptions \<Rightarrow> Pending \<Rightarrow> bool" where
  "pending_ok opts p \<longleftrightarrow>
     distinct (map fst (chunks p)) \<and>
     byte_count p = (\<Sum>x\<leftarrow>chunks p. length (snd x)) \<and>
     byte_count p \<le> max_message_size opts \<and>
     (\<forall>s c. map_of (chunks p) s = Some c \<longrightarrow>
        unat s \<le> max_message_size opts \<and> (\<forall>n. declared_count p = Some n \<longrightarrow> s < n))"

definition reasm_core :: "u64 option \<Rightarrow> ByteReassembler \<Rightarrow> bool" where
  "reasm_core skip st \<longleftrightarrow>
     distinct (map fst (pending st)) \<and>
     pending_bytes st = (\<Sum>x\<leftarrow>pending st. byte_count (snd x)) \<and>
     pending_bytes st \<le> max_pending_bytes (options st) \<and>
     length (pending st) \<le> max_pending_messages (options st) \<and>
     (\<forall>i p. map_of (pending st) i = Some p \<longrightarrow>
        pending_ok (options st) p \<and> (skip \<noteq> Some i \<longrightarrow> chunks p \<noteq> []))"

abbreviation reasm_inv :: "ByteReassembler \<Rightarrow> bool" where
  "reasm_inv \<equiv> reasm_core None"

lemma core_put:
  assumes "reasm_core skip st" and "pending_ok (options st) p'"
    and "skip' = None \<Longrightarrow> skip = None \<or> skip = Some i" and "skip' \<noteq> None \<Longrightarrow> skip' = Some i \<and> (skip = None \<or> skip = Some i)"
    and "skip' = None \<Longrightarrow> chunks p' \<noteq> []"
    and "(case map_of (pending st) i of
        None \<Rightarrow> byte_count p' = d \<and> length (pending st) < max_pending_messages (options st)
      | Some p \<Rightarrow> byte_count p' = byte_count p + d)"
    and "pending_bytes st + d \<le> max_pending_bytes (options st)"
  shows "reasm_core skip' (put_pending i p' (st\<lparr>pending_bytes := pending_bytes st + d\<rparr>))"
proof -
  have "distinct (map fst (pending st))" using assms(1) by (simp add: reasm_core_def)
  note sum = sum_alist_update [OF this, where f = byte_count and k = i and v = p']
  show ?thesis
    using assms sum
    by (auto simp: reasm_core_def put_pending_def update_conv' distinct_update length_alist_update
        split: option.splits if_splits)
qed

lemma core_drop:
  assumes "reasm_core skip st" and "skip = None \<or> skip = Some i"
    and "map_of (pending st) i = Some p" and "byte_count p' = byte_count p"
  shows "reasm_core None (drop_pending i p' st)"
proof -
  have d: "distinct (map fst (pending st))" using assms(1) by (simp add: reasm_core_def)
  note sum = sum_alist_delete [OF d, where f = byte_count and k = i]
  show ?thesis
    using assms sum length_delete_le [of i "pending st"]
    by (auto simp: reasm_core_def drop_pending_def delete_conv' distinct_delete
        split: option.splits if_splits)
qed

lemma sum_map_of:
  assumes d: "distinct (map fst xs)" and ks: "distinct ks" "\<forall>k\<in>set ks. map_of xs k \<noteq> None"
  shows "(\<Sum>k\<leftarrow>ks. length (the (map_of xs k))) \<le> (\<Sum>x\<leftarrow>xs. length (snd x))"
proof -
  let ?f = "\<lambda>k. length (the (map_of xs k))"
  have "(\<Sum>x\<leftarrow>xs. length (snd x)) = (\<Sum>k\<leftarrow>map fst xs. ?f k)"
    unfolding map_map using d by (intro arg_cong [where f = sum_list] map_cong) (auto simp: map_of_eq_Some_iff)
  also have "\<dots> = (\<Sum>k\<in>fst ` set xs. ?f k)" using d by (subst sum_list_distinct_conv_sum_set) simp_all
  also have "\<dots> \<ge> (\<Sum>k\<in>set ks. ?f k)"
    using ks(2) by (intro sum_mono2) (auto simp: map_of_eq_None_iff)
  finally show ?thesis using ks(1) by (simp add: sum_list_distinct_conv_sum_set)
qed

lemma feed_complete_core:
  assumes "reasm_core None st" and "map_of (pending st) i = Some p"
  shows "reasm_core None (snd (FeedComplete i p st))"
  using assms core_drop [OF assms(1) _ assms(2) refl]
  by (auto simp: FeedComplete_def split: option.splits)

lemma feed_complete_bounded:
  assumes p: "pending_ok opts p" and m: "fst (FeedComplete i p st) = Ok (Some m)"
  shows "length m \<le> max_message_size opts"
proof -
  obtain n where n: "declared_count p = Some n"
      "\<forall>s\<in>set [0..<unat n]. map_of (chunks p) (word_of_nat s) \<noteq> None"
      "m = concat (map (\<lambda>s. the (map_of (chunks p) (word_of_nat s))) [0..<unat n])"
    using m by (auto simp: FeedComplete_def list_ex_iff split: option.splits if_splits)
  let ?ks = "map (word_of_nat :: nat \<Rightarrow> u32) [0..<unat n]"
  have inj: "inj_on (word_of_nat :: nat \<Rightarrow> u32) {0..<unat n}"
    using unat_less32 [of n] by (intro inj_onI) (simp add: of_nat32_inject)
  have "length m = (\<Sum>k\<leftarrow>?ks. length (the (map_of (chunks p) k)))"
    by (simp add: n(3) length_concat o_def)
  also have "\<dots> \<le> (\<Sum>x\<leftarrow>chunks p. length (snd x))"
  proof (rule sum_map_of)
    show "distinct (map fst (chunks p))" using p by (simp add: pending_ok_def)
    show "distinct ?ks" using inj by (simp add: distinct_map)
    show "\<forall>k\<in>set ?ks. map_of (chunks p) k \<noteq> None" using n(2) by simp
  qed
  finally show ?thesis using p by (simp add: pending_ok_def)
qed

definition packet_ok :: "ByteChunkingOptions \<Rightarrow> BytePacket \<Rightarrow> bool" where
  "packet_ok opts q \<longleftrightarrow>
     length (payload q) \<le> max_message_size opts \<and> unat (sequence q) \<le> max_message_size opts \<and>
     (packet_type q = kLengthSuffixedByteChunk \<longrightarrow> sequence q < packet_count q)"

lemma feed_chunk_core:
  assumes "reasm_core skip st" and "skip = None \<or> skip = Some (transient_id q)"
    and "map_of (pending st) (transient_id q) = Some p"
    and "pending_bytes st + length (payload q) \<le> max_pending_bytes (options st)"
    and "packet_ok (options st) q"
    and "skip \<noteq> None \<Longrightarrow> chunks p = [] \<and> byte_count p = 0 \<and> (\<forall>n. declared_count p = Some n \<longrightarrow> sequence q < n)"
  shows "reasm_core None (snd (FeedChunk q p st)) \<and>
    (fst (FeedChunk q p st) = Ok (Some m) \<longrightarrow> length m \<le> max_message_size (options st))"
proof -
  let ?i = "transient_id q"
  have ok: "pending_ok (options st) p" using assms(1,3) by (auto simp: reasm_core_def)
  define p' where "p' = p\<lparr>byte_count := byte_count p + length (payload q),
                      chunks := AList.update (sequence q) (payload q) (chunks p)\<rparr>"
  define st' where "st' = put_pending ?i p' (st\<lparr>pending_bytes := pending_bytes st + length (payload q)\<rparr>)"
  show ?thesis
  proof (cases "(case declared_count p of None \<Rightarrow> False | Some n \<Rightarrow> sequence q \<ge> n) \<or>
      map_of (chunks p) (sequence q) \<noteq> None \<or>
      byte_count p + length (payload q) > max_message_size (options st)")
    case True
    then have "skip = None"
      using assms(5,6) by (cases "declared_count p"; cases skip) (auto simp: packet_ok_def)
    then show ?thesis using True assms(1) by (auto simp: FeedChunk_def)
  next
    case False
    then have step: "FeedChunk q p st = FeedComplete ?i p' st'"
      by (simp add: FeedChunk_def p'_def st'_def Let_def)
    have "distinct (map fst (chunks p))" using ok by (simp add: pending_ok_def)
    note sum = sum_alist_update [OF this, where f = length and k = "sequence q" and v = "payload q"]
    have ok': "pending_ok (options st) p'"
      using ok False assms(5) sum
      by (auto simp: pending_ok_def p'_def packet_ok_def distinct_update update_conv' not_le split: option.splits)
    have "reasm_core None st'"
      unfolding st'_def using assms(1-4) ok'
      by (intro core_put [where skip = skip]) (auto simp: p'_def)
    moreover have "map_of (pending st') ?i = Some p'" by (simp add: st'_def put_pending_def update_conv')
    ultimately show ?thesis
      using step feed_complete_core feed_complete_bounded [OF ok'] by simp
  qed
qed

lemma feed_pending_core:
  assumes core: "reasm_core skip st" and skip: "skip = None \<or> skip = Some (transient_id q)"
    and at: "map_of (pending st) (transient_id q) = Some p"
    and room: "pending_bytes st + length (payload q) \<le> max_pending_bytes (options st)"
    and q: "packet_ok (options st) q"
    and fresh: "skip \<noteq> None \<Longrightarrow> p = empty_pending"
  shows "reasm_core None (snd (FeedPending q p st)) \<and>
    (fst (FeedPending q p st) = Ok (Some m) \<longrightarrow> length m \<le> max_message_size (options st))"
proof (cases "packet_type q = kLengthSuffixedByteChunk")
  case False
  then show ?thesis
    using feed_chunk_core [OF core skip at room q] fresh by (simp add: FeedPending_def empty_pending_def)
next
  case True
  let ?i = "transient_id q" and ?n = "packet_count q"
  consider (clash) "declared_count p \<noteq> None" "declared_count p \<noteq> Some ?n"
    | (over) "declared_count p = None \<or> declared_count p = Some ?n" "list_ex (\<lambda>(s, _). s \<ge> ?n) (chunks p)"
    | (go) "declared_count p = None \<or> declared_count p = Some ?n" "\<not> list_ex (\<lambda>(s, _). s \<ge> ?n) (chunks p)"
    by metis
  then show ?thesis
  proof cases
    case clash
    then have "skip = None" using fresh by (cases skip) (auto simp: empty_pending_def)
    then show ?thesis using clash True core by (simp add: FeedPending_def)
  next
    case over
    then show ?thesis
      using True core_drop [OF core skip at refl] by (auto simp: FeedPending_def)
  next
    case go
    define p' where "p' = p\<lparr>declared_count := Some ?n\<rparr>"
    have ok: "pending_ok (options st) p" using core at by (auto simp: reasm_core_def)
    have "\<forall>s c. map_of (chunks p) s = Some c \<longrightarrow> s < ?n"
      using go(2) by (auto simp: list_ex_iff not_le dest!: map_of_SomeD)
    then have ok': "pending_ok (options st) p'"
      using ok by (auto simp: pending_ok_def p'_def)
    have ne: "skip = None \<Longrightarrow> chunks p \<noteq> []" using core at by (auto simp: reasm_core_def)
    have "reasm_core skip (put_pending ?i p' (st\<lparr>pending_bytes := pending_bytes st + 0\<rparr>))"
      using core skip at ok' ne room by (intro core_put [where skip = skip]) (auto simp: p'_def)
    then have "reasm_core skip (put_pending ?i p' st)" by simp
    moreover have "FeedPending q p st = FeedChunk q p' (put_pending ?i p' st)"
      using go True by (auto simp: FeedPending_def p'_def Let_def)
    ultimately show ?thesis
      using feed_chunk_core [of skip "put_pending ?i p' st" q p'] skip room q fresh True
      by (auto simp: put_pending_def update_conv' p'_def empty_pending_def packet_ok_def)
  qed
qed

lemma parsed_sequence:
  assumes "ParseOwnedBytePacket s = Ok q" and "packet_type q = kLengthSuffixedByteChunk"
  shows "sequence q < packet_count q"
  using assms by (auto simp: ParseOwnedBytePacket_def ParseBytePacketMetadata_def Let_def ok_iff word_neq_0_conv
      split: if_splits option.splits)

text \<open>C2. Whatever bytes a peer sends, a call of Feed keeps the reassembler's invariant: every
  pending message holds at least one chunk, its sequence numbers lie below its declared count and the
  configured bound, its byte count and the total are the sums of what is held, and neither the number
  of pending messages nor the pending bytes exceed their limits; a message that is handed out is
  never longer than the limit.\<close>

theorem feed_keeps_invariant:
  assumes "reasm_inv st"
  shows "reasm_inv (snd (Feed s st)) \<and>
    (fst (Feed s st) = Ok (Some m) \<longrightarrow> length m \<le> max_message_size (options st))"
proof (cases "length s > packet_size (options st) \<or> isl (ParseOwnedBytePacket s)")
  case True
  then show ?thesis using assms by (auto simp: Feed_def split: sum.splits)
next
  case False
  then obtain q where q: "ParseOwnedBytePacket s = Ok q" "Feed s st = FeedPacket q st"
    by (cases "ParseOwnedBytePacket s") (auto simp: Feed_def)
  let ?i = "transient_id q"
  show ?thesis
  proof (cases "packet_ok (options st) q \<and> packet_type q \<noteq> kCompleteBytes \<and>
      pending_bytes st + length (payload q) \<le> max_pending_bytes (options st)")
    case False
    then show ?thesis
      using q assms parsed_sequence [OF q(1)] by (auto simp: FeedPacket_def packet_ok_def)
  next
    case True
    have empty: "pending_ok (options st) empty_pending" by (simp add: pending_ok_def empty_pending_def)
    have fresh: "reasm_core (Some ?i) (put_pending ?i empty_pending (st\<lparr>pending_bytes := pending_bytes st + 0\<rparr>))"
      if "map_of (pending st) ?i = None" "length (pending st) < max_pending_messages (options st)"
      using that assms empty True by (intro core_put [where skip = None]) (auto simp: empty_pending_def)
    show ?thesis
    proof (cases "map_of (pending st) ?i")
      case None
      then show ?thesis
        using q True assms fresh feed_pending_core [of "Some ?i" "put_pending ?i empty_pending st" q empty_pending]
        by (auto simp: FeedPacket_def put_pending_def update_conv' not_le)
    next
      case (Some p)
      then show ?thesis
        using q True assms feed_pending_core [of None st q p] by (auto simp: FeedPacket_def)
    qed
  qed
qed

theorem feed_keeps_invariant_witness:
  "reasm_inv (snd (Feed (SerializeChunk ''ab'' 7 1 None) (new_reassembler sample_limits)))"
proof -
  have "reasm_inv (new_reassembler sample_limits)"
    by (simp add: reasm_core_def new_reassembler_def)
  then show ?thesis by (rule conjunct1 [OF feed_keeps_invariant])
qed

end
