(* ===== verification/Names.thy ===== *)
theory Names
  imports A11_Prelude
begin

text \<open>
  The identifier grammar of A11 (\<open>ValidateName\<close> of \<open>cpp/a11/data/types.cc\<close>) that node, port,
  action, attribute and header names share.
\<close>

definition between :: "char \<Rightarrow> char \<Rightarrow> char \<Rightarrow> bool" where
  "between lo hi c \<longleftrightarrow> lo \<le> c \<and> c \<le> hi"

definition IsAsciiAlpha :: "char \<Rightarrow> bool" where
  "IsAsciiAlpha c \<longleftrightarrow> between (CHR ''a'') (CHR ''z'') c \<or> between (CHR ''A'') (CHR ''Z'') c"

definition IsNameBoundary :: "char \<Rightarrow> bool" where
  "IsNameBoundary c \<longleftrightarrow> IsAsciiAlpha c \<or> between (CHR ''0'') (CHR ''9'') c \<or> c = CHR ''_''"

definition IsNameMiddle :: "char \<Rightarrow> bool" where
  "IsNameMiddle c \<longleftrightarrow> IsNameBoundary c \<or> c = CHR ''-'' \<or> c = CHR ''#''"

text \<open>The lookup table \<open>kAllowed\<close> holds \<open>IsNameMiddle\<close> for each of the 256 byte values.\<close>

definition kAllowed :: "bool list" where
  "kAllowed = map (\<lambda>v. IsNameMiddle (char_of v)) [0..<256]"

definition ValidateName :: "string \<Rightarrow> unit result" where
  "ValidateName name =
     (if name = [] \<or> length name > 255
      then Err kInvalidArgument ''name must contain between 1 and 255 characters''
      else if \<not> IsNameBoundary (hd name) \<or> \<not> IsNameBoundary (last name)
      then Err kInvalidArgument ''name must start and end with an ASCII letter, digit, or underscore''
      else if \<not> list_all (\<lambda>c. kAllowed ! of_char c) name
      then Err kInvalidArgument ''name contains a character outside [a-zA-Z0-9-_#]''
      else Ok ())"

lemma kAllowed_nth: "kAllowed ! of_char c = IsNameMiddle c"
  by (simp add: kAllowed_def)

lemma ValidateName_ok:
  "ValidateName name = Ok u \<longleftrightarrow>
     name \<noteq> [] \<and> length name \<le> 255 \<and> IsNameBoundary (hd name) \<and> IsNameBoundary (last name) \<and>
     (\<forall>c\<in>set name. IsNameMiddle c)"
  by (auto simp: ValidateName_def list_all_iff kAllowed_nth)

text \<open>\<open>id.empty() ? OK : ValidateName(id)\<close>\<close>

definition ValidateOptionalName :: "string \<Rightarrow> unit result" where
  "ValidateOptionalName name = (if name = [] then Ok () else ValidateName name)"

lemma validate_optional_name: "ValidateOptionalName n = Ok u \<longleftrightarrow> n = [] \<or> ValidateName n = Ok ()"
  by (simp add: ValidateOptionalName_def)

lemmas name_simps =
  ValidateName_ok validate_optional_name IsNameMiddle_def IsNameBoundary_def IsAsciiAlpha_def between_def less_eq_char_def

end
