(* ===== verification/Json_Codec.thy ===== *)
theory Json_Codec
  imports Byte_Order
begin

text \<open>
  The JSON values A11 exchanges and its own MessagePack decoder
  (\<open>cpp/a11/json_codec.cc\<close>).  A value of \<open>nlohmann::json\<close> is the datatype \<open>json\<close>; an
  object is the list of its entries in key order, which is how \<open>nlohmann::json\<close> (a
  \<open>std::map\<close>) iterates it.  The decoder's cursor \<open>(bytes_, position_)\<close> is the unread
  suffix of the input, so \<open>Need(n)\<close> compares \<open>n\<close> with its length and a successful call
  returns the rest.  Results of the encoding direction (\<open>to_msgpack\<close>, \<open>dump\<close>) come from the
  third-party library and are parameters where they are used.
\<close>

section \<open>Values\<close>

datatype json =
    JNull
  | JBool bool
  | JUint u64
  | JInt u64
  | JFloat u64
  | JString string
  | JBinary string "u8 option"
  | JArray "json list"
  | JObject "(string \<times> json) list"

text \<open>
  \<open>JInt\<close> holds the bits of a \<open>std::int64_t\<close> (read with \<open>sint\<close>), \<open>JFloat\<close> the bits of a
  \<open>double\<close>.  \<open>value[key] = v\<close> on an object:
\<close>

fun obj_put :: "string \<Rightarrow> 'v \<Rightarrow> (string \<times> 'v) list \<Rightarrow> (string \<times> 'v) list" where
  "obj_put k v [] = [(k, v)]"
| "obj_put k v ((k', v') # xs) =
     (if k = k' then (k, v) # xs
      else if k < k' then (k, v) # (k', v') # xs
      else (k', v') # obj_put k v xs)"

abbreviation obj_sorted :: "(string \<times> 'v) list \<Rightarrow> bool" where
  "obj_sorted xs \<equiv> sorted_wrt (<) (map fst xs)"

lemma map_of_obj_put [simp]: "map_of (obj_put k v xs) = (map_of xs)(k \<mapsto> v)"
  by (induction xs) auto

lemma set_obj_put: "set (map fst (obj_put k v xs)) = insert k (set (map fst xs))"
  by (induction k v xs rule: obj_put.induct) (simp_all add: insert_commute)

lemma obj_sorted_put: "obj_sorted xs \<Longrightarrow> obj_sorted (obj_put k v xs)"
proof (induction xs)
  case (Cons x xs)
  obtain k' v' where x: "x = (k', v')" by (cases x)
  have "\<forall>y\<in>set (map fst (obj_put k v xs)). k' < y" if "k' < k"
    using Cons.prems that x by (auto simp: set_obj_put simp del: set_map)
  then show ?case
    using Cons x by auto
qed simp

lemma obj_put_last:
  "\<forall>x\<in>set xs. fst x < k \<Longrightarrow> obj_put k v xs = xs @ [(k, v)]"
  by (induction xs) auto

lemma fold_obj_put_sorted:
  assumes "obj_sorted (ys @ xs)"
  shows "fold (\<lambda>(k, v). obj_put k v) xs ys = ys @ xs"
  using assms
proof (induction xs arbitrary: ys)
  case (Cons x xs)
  have "obj_put (fst x) (snd x) ys = ys @ [x]"
    using Cons.prems by (subst obj_put_last) (auto simp: sorted_wrt_append)
  then show ?case
    using Cons.IH [of "ys @ [x]"] Cons.prems by (cases x) simp
qed simp

definition is_null :: "json \<Rightarrow> bool" where
  "is_null v = (v = JNull)"

fun is_array :: "json \<Rightarrow> bool" where
  "is_array (JArray _) = True"
| "is_array _ = False"

fun is_object :: "json \<Rightarrow> bool" where
  "is_object (JObject _) = True"
| "is_object _ = False"

fun is_number_integer :: "json \<Rightarrow> bool" where
  "is_number_integer (JUint _) = True"
| "is_number_integer (JInt _) = True"
| "is_number_integer _ = False"

text \<open>\<open>get<std::int64_t>()\<close> and \<open>get<std::uint64_t>()\<close> of a number convert between the two
  64-bit types, which keeps the bits.\<close>

fun get_bits :: "json \<Rightarrow> u64" where
  "get_bits (JUint n) = n"
| "get_bits (JInt n) = n"
| "get_bits _ = 0"

section \<open>The decoder\<close>

definition kMaxMsgpackNesting :: nat where
  "kMaxMsgpackNesting = 256"

abbreviation truncated :: "'a result" where
  "truncated \<equiv> Err kInvalidArgument ''truncated''"

definition ReadBigEndian :: "string \<Rightarrow> ('a::len word \<times> string) result" where
  "ReadBigEndian s =
     (let n = LENGTH('a) div 8
      in if n > length s then truncated else Ok (be_value (take n s), drop n s))"

text \<open>On a 64-bit \<open>size_t\<close> no \<open>std::uint64_t\<close> length exceeds the largest size, so the first
  check of \<open>ReadPayload\<close> never fires.\<close>

definition ReadPayload :: "u64 \<Rightarrow> string \<Rightarrow> (string \<times> string) result" where
  "ReadPayload len s =
     (if unat len > length s then truncated else Ok (take (unat len) s, drop (unat len) s))"

text \<open>The integer a reader produced, widened to \<open>std::uint64_t\<close>.\<close>

abbreviation widen :: "('a::len word \<times> string) result \<Rightarrow> (u64 \<times> string) result" where
  "widen m \<equiv> r_bind m (\<lambda>(n, r). Ok (ucast n, r))"

definition ReadStringLength :: "nat \<Rightarrow> string \<Rightarrow> (u64 \<times> string) result" where
  "ReadStringLength marker s =
     (if marker AND 0xe0 = 0xa0 then Ok (word_of_nat (marker AND 0x1f), s)
      else if marker = 0xd9 then widen (ReadBigEndian s :: (u8 \<times> string) result)
      else if marker = 0xda then widen (ReadBigEndian s :: (u16 \<times> string) result)
      else if marker = 0xdb then widen (ReadBigEndian s :: (u32 \<times> string) result)
      else Err kInvalidArgument (''expected a string, found marker 0x'' @ hex2 marker))"

definition DecodeString :: "nat \<Rightarrow> string \<Rightarrow> (string \<times> string) result" where
  "DecodeString marker s =
     r_bind (ReadStringLength marker s) (\<lambda>(len, s). ReadPayload len s)"

text \<open>The length field and whether a subtype byte follows it.\<close>

definition ReadBinaryHeader :: "nat \<Rightarrow> string \<Rightarrow> ((u64 \<times> bool) \<times> string) result" where
  "ReadBinaryHeader marker s =
     (let sized = (\<lambda>m sub. r_bind m (\<lambda>(n, r). Ok ((n, sub), r)))
      in if marker = 0xc4 then sized (widen (ReadBigEndian s :: (u8 \<times> string) result)) False
         else if marker = 0xc5 then sized (widen (ReadBigEndian s :: (u16 \<times> string) result)) False
         else if marker = 0xc6 then sized (widen (ReadBigEndian s :: (u32 \<times> string) result)) False
         else if marker = 0xc7 then sized (widen (ReadBigEndian s :: (u8 \<times> string) result)) True
         else if marker = 0xc8 then sized (widen (ReadBigEndian s :: (u16 \<times> string) result)) True
         else if marker = 0xc9 then sized (widen (ReadBigEndian s :: (u32 \<times> string) result)) True
         else if marker = 0xd4 then Ok ((1, True), s)
         else if marker = 0xd5 then Ok ((2, True), s)
         else if marker = 0xd6 then Ok ((4, True), s)
         else if marker = 0xd7 then Ok ((8, True), s)
         else if marker = 0xd8 then Ok ((16, True), s)
         else Err kInternal ''Unreachable MessagePack binary marker'')"

definition DecodeBinary :: "nat \<Rightarrow> string \<Rightarrow> (json \<times> string) result" where
  "DecodeBinary marker s =
     r_bind (ReadBinaryHeader marker s) (\<lambda>((len, has_subtype), s).
       if has_subtype then
         r_bind (ReadBigEndian s :: (u8 \<times> string) result) (\<lambda>(subtype, s).
           r_bind (ReadPayload len s) (\<lambda>(p, s). Ok (JBinary p (Some subtype), s)))
       else r_bind (ReadPayload len s) (\<lambda>(p, s). Ok (JBinary p None, s)))"

text \<open>
  \<open>static_cast<double>(std::bit_cast<float>(bits))\<close>: sign, the rebiased exponent and the
  mantissa padded on the right; a subnormal is normalised, a NaN becomes quiet.
\<close>

fun top_bit :: "nat \<Rightarrow> nat" where
  "top_bit n = (if n \<le> 1 then 0 else Suc (top_bit (n div 2)))"

declare top_bit.simps [simp del]

definition float_to_double :: "u32 \<Rightarrow> u64" where
  "float_to_double w =
     (let sign = unat w div 2 ^ 31; e = unat w div 2 ^ 23 mod 2 ^ 8; m = unat w mod 2 ^ 23
      in word_of_nat (sign * 2 ^ 63 +
           (if e = 255 then 2047 * 2 ^ 52 + (if m = 0 then 0 else (2 ^ 22 + m mod 2 ^ 22) * 2 ^ 29)
            else if e > 0 then (e + 896) * 2 ^ 52 + m * 2 ^ 29
            else if m = 0 then 0
            else (top_bit m + 874) * 2 ^ 52 + (m - 2 ^ top_bit m) * 2 ^ (52 - top_bit m))))"

text \<open>The markers of \<open>Decode\<close> that hold no other value.\<close>

definition DecodeScalar :: "nat \<Rightarrow> string \<Rightarrow> (json \<times> string) result" where
  "DecodeScalar marker s =
     (if marker = 0xc0 then Ok (JNull, s)
      else if marker = 0xc2 then Ok (JBool False, s)
      else if marker = 0xc3 then Ok (JBool True, s)
      else if marker \<in> {0xc4, 0xc5, 0xc6, 0xc7, 0xc8, 0xc9, 0xd4, 0xd5, 0xd6, 0xd7, 0xd8}
      then DecodeBinary marker s
      else if marker = 0xca then r_bind (ReadBigEndian s) (\<lambda>(bits, s). Ok (JFloat (float_to_double bits), s))
      else if marker = 0xcb then r_bind (ReadBigEndian s) (\<lambda>(bits, s). Ok (JFloat bits, s))
      else if marker = 0xcc then r_bind (ReadBigEndian s) (\<lambda>(n :: u8, s). Ok (JUint (ucast n), s))
      else if marker = 0xcd then r_bind (ReadBigEndian s) (\<lambda>(n :: u16, s). Ok (JUint (ucast n), s))
      else if marker = 0xce then r_bind (ReadBigEndian s) (\<lambda>(n :: u32, s). Ok (JUint (ucast n), s))
      else if marker = 0xcf then r_bind (ReadBigEndian s) (\<lambda>(n :: u64, s). Ok (JUint n, s))
      else if marker = 0xd0 then r_bind (ReadBigEndian s) (\<lambda>(n :: u8, s). Ok (JInt (scast n), s))
      else if marker = 0xd1 then r_bind (ReadBigEndian s) (\<lambda>(n :: u16, s). Ok (JInt (scast n), s))
      else if marker = 0xd2 then r_bind (ReadBigEndian s) (\<lambda>(n :: u32, s). Ok (JInt (scast n), s))
      else if marker = 0xd3 then r_bind (ReadBigEndian s) (\<lambda>(n :: u64, s). Ok (JInt n, s))
      else if marker \<in> {0xd9, 0xda, 0xdb}
      then r_bind (DecodeString marker s) (\<lambda>(text, s). Ok (JString text, s))
      else Err kInvalidArgument (''unsupported marker 0x'' @ hex2 marker))"

text \<open>
  \<open>Decode\<close> and the loops of \<open>DecodeArray\<close> and \<open>DecodeObject\<close>.  The depth bound makes the
  recursion terminate on every input, whatever counts it declares.
\<close>

function Decode :: "nat \<Rightarrow> string \<Rightarrow> (json \<times> string) result"
  and DecodeArray :: "nat \<Rightarrow> nat \<Rightarrow> string \<Rightarrow> (json list \<times> string) result"
  and DecodeObject :: "nat \<Rightarrow> nat \<Rightarrow> (string \<times> json) list \<Rightarrow> string \<Rightarrow>
    ((string \<times> json) list \<times> string) result" where
  "Decode depth s =
     (if depth > kMaxMsgpackNesting then Err kResourceExhausted ''nesting is too deep''
      else case s of [] \<Rightarrow> truncated
      | c # s \<Rightarrow>
          let marker = of_char c;
              arr = (\<lambda>n s. r_bind (DecodeArray n depth s) (\<lambda>(vs, s). Ok (JArray vs, s)));
              obj = (\<lambda>n s. r_bind (DecodeObject n depth [] s) (\<lambda>(vs, s). Ok (JObject vs, s)))
          in if marker \<le> 0x7f then Ok (JUint (word_of_nat marker), s)
             else if marker \<ge> 0xe0 then Ok (JInt (scast (word_of_nat marker :: u8)), s)
             else if marker AND 0xe0 = 0xa0
             then r_bind (DecodeString marker s) (\<lambda>(text, s). Ok (JString text, s))
             else if marker AND 0xf0 = 0x90 then arr (marker AND 0x0f) s
             else if marker AND 0xf0 = 0x80 then obj (marker AND 0x0f) s
             else if marker = 0xdc then r_bind (ReadBigEndian s) (\<lambda>(n :: u16, s). arr (unat n) s)
             else if marker = 0xdd then r_bind (ReadBigEndian s) (\<lambda>(n :: u32, s). arr (unat n) s)
             else if marker = 0xde then r_bind (ReadBigEndian s) (\<lambda>(n :: u16, s). obj (unat n) s)
             else if marker = 0xdf then r_bind (ReadBigEndian s) (\<lambda>(n :: u32, s). obj (unat n) s)
             else DecodeScalar marker s)"
| "DecodeArray count depth s =
     (case count of 0 \<Rightarrow> Ok ([], s)
      | Suc n \<Rightarrow>
          r_bind (Decode (depth + 1) s) (\<lambda>(v, s).
            r_bind (DecodeArray n depth s) (\<lambda>(vs, s). Ok (v # vs, s))))"
| "DecodeObject count depth acc s =
     (case count of 0 \<Rightarrow> Ok (acc, s)
      | Suc n \<Rightarrow>
          (case s of [] \<Rightarrow> truncated
           | c # s \<Rightarrow>
               r_bind (DecodeString (of_char c) s) (\<lambda>(key, s).
                 r_bind (Decode (depth + 1) s) (\<lambda>(v, s).
                   DecodeObject n depth (obj_put key v acc) s))))"
  by pat_completeness auto
termination
  by (relation "measures [\<lambda>x. case x of Inl (d, _) \<Rightarrow> 2 * (259 - d)
        | Inr (Inl (_, d, _)) \<Rightarrow> 2 * (258 - d) + 1 | Inr (Inr (_, d, _, _)) \<Rightarrow> 2 * (258 - d) + 1,
      \<lambda>x. case x of Inl _ \<Rightarrow> 0 | Inr (Inl (n, _, _)) \<Rightarrow> n | Inr (Inr (n, _, _, _)) \<Rightarrow> n]")
    (auto simp: kMaxMsgpackNesting_def)

declare Decode.simps [simp del] DecodeArray.simps [simp del] DecodeObject.simps [simp del]

definition UnpackMsgpack :: "string \<Rightarrow> string \<Rightarrow> json result" where
  "UnpackMsgpack encoded what =
     (case Decode 0 encoded of
        Inl (code, message) \<Rightarrow> Err code (''Invalid '' @ what @ '' MessagePack data: '' @ message)
      | Inr (v, rest) \<Rightarrow>
          if rest \<noteq> []
          then Err kInvalidArgument (''Invalid '' @ what @ '' MessagePack data: '' @ dec (length rest) @ '' trailing bytes'')
          else Ok v)"

text \<open>
  \<open>PackMsgpack\<close> calls \<open>nlohmann::json::to_msgpack\<close>, the parameter \<open>to_msgpack\<close>: the encoded
  bytes, or the text of the exception it raises.
\<close>

type_synonym msgpack_encoder = "json \<Rightarrow> string + string"

definition PackMsgpack :: "msgpack_encoder \<Rightarrow> json \<Rightarrow> string \<Rightarrow> string result" where
  "PackMsgpack to_msgpack v what =
     (case to_msgpack v of
        Inl error \<Rightarrow> Err kInvalidArgument (''Failed to encode '' @ what @ '' as MessagePack: '' @ error)
      | Inr encoded \<Rightarrow> Ok encoded)"

end
