(* ===== verification/Storage_Identity.thy ===== *)
theory Storage_Identity
  imports Names Json_Codec
begin

text \<open>
  Storage identities and their JSON form (\<open>StorageCredentials\<close>, \<open>StorageService\<close>,
  \<open>StorageIdentity\<close> of \<open>cpp/a11/data/types.cc\<close>, \<open>StorageIdentityToJsonValue\<close> and
  \<open>StorageIdentityFromJsonValue\<close> of \<open>cpp/a11/data/json.cc\<close>), with the accessors of JSON
  objects that file shares.
\<close>

section \<open>Records\<close>

record StorageCredentials =
  sc_scheme :: string
  sc_fields :: "(string \<times> string) list"

record StorageService =
  ss_role :: string
  ss_endpoint :: string
  ss_credentials :: "StorageCredentials option"

record StorageIdentity =
  si_id :: string
  si_credentials :: "StorageCredentials option"
  si_services :: "StorageService list"

definition ValidateCredentials :: "StorageCredentials \<Rightarrow> unit result" where
  "ValidateCredentials c =
     r_then (ValidateName (sc_scheme c)) (r_forall (\<lambda>(name, _). ValidateName name) (sc_fields c))"

definition ValidateCredentialsOpt :: "StorageCredentials option \<Rightarrow> unit result" where
  "ValidateCredentialsOpt c = (case c of None \<Rightarrow> Ok () | Some c \<Rightarrow> ValidateCredentials c)"

definition ValidateService :: "StorageService \<Rightarrow> unit result" where
  "ValidateService s =
     r_then (ValidateName (ss_role s)) (ValidateCredentialsOpt (ss_credentials s))"

definition ValidateIdentity :: "StorageIdentity \<Rightarrow> unit result" where
  "ValidateIdentity v =
     r_then (ValidateName (si_id v))
       (r_then (ValidateCredentialsOpt (si_credentials v)) (r_forall ValidateService (si_services v)))"

definition fields_size :: "(string \<times> string) list \<Rightarrow> nat" where
  "fields_size m = (\<Sum>(key, v)\<leftarrow>m. length key + length v)"

definition credentials_size :: "StorageCredentials option \<Rightarrow> nat" where
  "credentials_size c = (case c of None \<Rightarrow> 0 | Some c \<Rightarrow> length (sc_scheme c) + fields_size (sc_fields c))"

definition IdentityApproxBytes :: "StorageIdentity \<Rightarrow> nat" where
  "IdentityApproxBytes v =
     length (si_id v) + credentials_size (si_credentials v) +
     (\<Sum>s\<leftarrow>si_services v. length (ss_role s) + length (ss_endpoint s) + credentials_size (ss_credentials s))"

section \<open>Access to JSON objects\<close>

definition GetOptional :: "json \<Rightarrow> string \<Rightarrow> json option" where
  "GetOptional v key = (case v of JObject kvs \<Rightarrow> map_of kvs key | _ \<Rightarrow> None)"

definition GetRequired :: "json \<Rightarrow> string \<Rightarrow> string \<Rightarrow> json result" where
  "GetRequired v key ctx =
     (case v of
        JObject kvs \<Rightarrow>
          (case map_of kvs key of
             None \<Rightarrow> Err kInvalidArgument (ctx @ '' is missing field '' @ key)
           | Some x \<Rightarrow> Ok x)
      | _ \<Rightarrow> Err kInvalidArgument (ctx @ '' must be a JSON object''))"

definition GetString :: "json \<Rightarrow> string \<Rightarrow> string \<Rightarrow> string \<Rightarrow> string result" where
  "GetString v key dflt ctx =
     (case GetOptional v key of
        None \<Rightarrow> Ok dflt
      | Some (JString text) \<Rightarrow> Ok text
      | Some _ \<Rightarrow> Err kInvalidArgument (ctx @ ''.'' @ key @ '' must be a string''))"

text \<open>\<open>Json::object({{k, v}, ...})\<close>, and the loop \<open>fields[name] = field\<close>.\<close>

definition make_object :: "(string \<times> json) list \<Rightarrow> json" where
  "make_object kvs = JObject (fold (\<lambda>(k, v). obj_put k v) kvs [])"

section \<open>JSON form\<close>

definition CredentialsToJson :: "StorageCredentials \<Rightarrow> json" where
  "CredentialsToJson c =
     make_object [(''scheme'', JString (sc_scheme c)),
       (''fields'', make_object (map (\<lambda>(name, field). (name, JString field)) (sc_fields c)))]"

definition ServiceToJson :: "StorageService \<Rightarrow> json" where
  "ServiceToJson s =
     make_object ([(''role'', JString (ss_role s)), (''endpoint'', JString (ss_endpoint s))] @
       (case ss_credentials s of None \<Rightarrow> [] | Some c \<Rightarrow> [(''credentials'', CredentialsToJson c)]))"

definition StorageIdentityToJsonValue :: "StorageIdentity \<Rightarrow> json result" where
  "StorageIdentityToJsonValue v =
     r_then (ValidateIdentity v)
       (Ok (make_object ([(''id'', JString (si_id v))] @
          (case si_credentials v of None \<Rightarrow> [] | Some c \<Rightarrow> [(''credentials'', CredentialsToJson c)]) @
          (if si_services v = [] then []
           else [(''services'', JArray (map ServiceToJson (si_services v)))]))))"

text \<open>The loop over the credential fields; \<open>emplace\<close> keeps the first of two equal keys, and an
  object has none.\<close>

definition FieldsFromJson :: "json \<Rightarrow> (string \<times> string) list result" where
  "FieldsFromJson v =
     (case v of
        JObject kvs \<Rightarrow>
          r_map (\<lambda>(key, field). case field of
              JString text \<Rightarrow> Ok (key, text)
            | _ \<Rightarrow> Err kInvalidArgument ''Credential fields must be strings'') kvs
      | _ \<Rightarrow> Err kInvalidArgument ''Credential fields must be an object'')"

definition CredentialsFromJson :: "json option \<Rightarrow> StorageCredentials option result" where
  "CredentialsFromJson access =
     (case access of
        None \<Rightarrow> Ok None
      | Some v \<Rightarrow>
          if is_null v then Ok None
          else case v of
            JObject kvs \<Rightarrow>
              r_bind (GetString v ''scheme'' [] ''StorageCredentials'') (\<lambda>scheme.
                r_bind (case map_of kvs ''fields'' of None \<Rightarrow> Ok [] | Some f \<Rightarrow> FieldsFromJson f)
                  (\<lambda>members. Ok (Some \<lparr>sc_scheme = scheme, sc_fields = members\<rparr>)))
          | _ \<Rightarrow> Err kInvalidArgument ''Storage credentials must be an object'')"

definition ServiceFromJson :: "json \<Rightarrow> StorageService result" where
  "ServiceFromJson entry =
     (case entry of
        JObject kvs \<Rightarrow>
          r_bind (GetString entry ''role'' [] ''StorageService'') (\<lambda>role.
            r_bind (GetString entry ''endpoint'' [] ''StorageService'') (\<lambda>endpoint.
              r_bind (CredentialsFromJson (map_of kvs ''credentials'')) (\<lambda>credentials.
                Ok \<lparr>ss_role = role, ss_endpoint = endpoint, ss_credentials = credentials\<rparr>)))
      | _ \<Rightarrow> Err kInvalidArgument ''Storage service must be an object'')"

definition StorageIdentityFromJsonValue :: "json \<Rightarrow> StorageIdentity result" where
  "StorageIdentityFromJsonValue v =
     (case v of
        JObject kvs \<Rightarrow>
          r_bind (GetString v ''id'' [] ''StorageIdentity'') (\<lambda>id'.
            r_bind (CredentialsFromJson (map_of kvs ''credentials'')) (\<lambda>credentials.
              r_bind (case map_of kvs ''services'' of
                        None \<Rightarrow> Ok []
                      | Some (JArray entries) \<Rightarrow> r_map ServiceFromJson entries
                      | Some _ \<Rightarrow> Err kInvalidArgument ''Storage services must be an array'')
                (\<lambda>services.
                  let result = \<lparr>si_id = id', si_credentials = credentials, si_services = services\<rparr>
                  in r_then (ValidateIdentity result) (Ok result))))
      | _ \<Rightarrow> Err kInvalidArgument ''Storage identity must be an object'')"

end
