(* ===== verification/Msgpack.thy ===== *)
theory Msgpack
  imports Json_Codec
begin

text \<open>
  The typed MessagePack writer and the record reader of \<open>cpp/a11/data/msgpack.cc\<close>.  A writer
  is the bytes it has appended so far, so each \<open>Pack\<close> function maps the buffer to the buffer; a
  reader is the unread suffix of its input.  The reading functions restore the cursor when they
  fail, so an error carries no new cursor.
\<close>

section \<open>Writing\<close>

definition AppendByte :: "string \<Rightarrow> nat \<Rightarrow> string" where
  "AppendByte out b = out @ [char_of b]"

definition Pack :: "msgpack_encoder \<Rightarrow> json \<Rightarrow> string \<Rightarrow> string result" where
  "Pack to_msgpack v out = r_bind (PackMsgpack to_msgpack v ''a value'') (\<lambda>encoded. Ok (out @ encoded))"

definition PackNil :: "string \<Rightarrow> string" where
  "PackNil out = AppendByte out 0xc0"

definition PackBool :: "bool \<Rightarrow> string \<Rightarrow> string" where
  "PackBool v out = AppendByte out (if v then 0xc3 else 0xc2)"

definition PackUint :: "u64 \<Rightarrow> string \<Rightarrow> string" where
  "PackUint v out =
     (if v < 128 then AppendByte out (unat v)
      else if v \<le> 0xff then AppendByte (AppendByte out 0xcc) (unat (ucast v :: u8))
      else if v \<le> 0xffff then AppendBigEndian (AppendByte out 0xcd) (ucast v :: u16)
      else if v \<le> 0xffffffff then AppendBigEndian (AppendByte out 0xce) (ucast v :: u32)
      else AppendBigEndian (AppendByte out 0xcf) v)"

definition PackInt :: "u64 \<Rightarrow> string \<Rightarrow> string" where
  "PackInt v out =
     (if sint v \<ge> 0 then PackUint v out
      else if sint v \<ge> - 32 then AppendByte out (unat (ucast v :: u8))
      else if sint v \<ge> - (2 ^ 7) then AppendByte (AppendByte out 0xd0) (unat (ucast v :: u8))
      else if sint v \<ge> - (2 ^ 15) then AppendBigEndian (AppendByte out 0xd1) (ucast v :: u16)
      else if sint v \<ge> - (2 ^ 31) then AppendBigEndian (AppendByte out 0xd2) (ucast v :: u32)
      else AppendBigEndian (AppendByte out 0xd3) v)"

definition PackString :: "string \<Rightarrow> string \<Rightarrow> string" where
  "PackString v out =
     (let n = length v
      in (if n < 32 then AppendByte out (0xa0 OR n)
          else if n \<le> 0xff then AppendByte (AppendByte out 0xd9) n
          else if n \<le> 0xffff then AppendBigEndian (AppendByte out 0xda) (word_of_nat n :: u16)
          else AppendBigEndian (AppendByte out 0xdb) (word_of_nat n :: u32)) @ v)"

definition PackBinary :: "string \<Rightarrow> string \<Rightarrow> string" where
  "PackBinary v out =
     (let n = length v
      in (if n \<le> 0xff then AppendByte (AppendByte out 0xc4) n
          else if n \<le> 0xffff then AppendBigEndian (AppendByte out 0xc5) (word_of_nat n :: u16)
          else AppendBigEndian (AppendByte out 0xc6) (word_of_nat n :: u32)) @ v)"

definition PackArrayHeader :: "nat \<Rightarrow> string \<Rightarrow> string" where
  "PackArrayHeader n out =
     (if n < 16 then AppendByte out (0x90 OR n)
      else if n \<le> 0xffff then AppendBigEndian (AppendByte out 0xdc) (word_of_nat n :: u16)
      else AppendBigEndian (AppendByte out 0xdd) (word_of_nat n :: u32))"

definition PackMapHeader :: "nat \<Rightarrow> string \<Rightarrow> string" where
  "PackMapHeader n out =
     (if n < 16 then AppendByte out (0x80 OR n)
      else if n \<le> 0xffff then AppendBigEndian (AppendByte out 0xde) (word_of_nat n :: u16)
      else AppendBigEndian (AppendByte out 0xdf) (word_of_nat n :: u32))"

text \<open>\<open>encode\<close> fills a scratch buffer that starts empty.\<close>

definition PackRecord :: "(string \<Rightarrow> string result) \<Rightarrow> string \<Rightarrow> string result" where
  "PackRecord encode out = r_bind (encode []) (\<lambda>scratch. Ok (PackBinary scratch out))"

section \<open>Scanning\<close>

definition kMaxNesting :: nat where
  "kMaxNesting = 256"

abbreviation truncated_data :: "'a result" where
  "truncated_data \<equiv> Err kInvalidArgument ''Truncated MessagePack data''"

abbreviation too_deep :: "'a result" where
  "too_deep \<equiv> Err kResourceExhausted ''MessagePack nesting is too deep''"

text \<open>\<open>Need\<close> followed by advancing the cursor.\<close>

definition Advance :: "nat \<Rightarrow> string \<Rightarrow> string result" where
  "Advance n s = (if n > length s then truncated_data else Ok (drop n s))"

definition ReadUnsigned :: "nat \<Rightarrow> string \<Rightarrow> (u64 \<times> string) result" where
  "ReadUnsigned width s =
     (if width > length s then truncated_data else Ok (be_value (take width s), drop width s))"

text \<open>\<open>fixed_width\<close>, zero for the markers the switch does not name.\<close>

definition fixed_width :: "nat \<Rightarrow> nat" where
  "fixed_width marker =
     (if marker \<in> {0xc4, 0xd9, 0xcc, 0xd0} then 1
      else if marker \<in> {0xc5, 0xda, 0xcd, 0xd1} then 2
      else if marker \<in> {0xc6, 0xdb, 0xca, 0xce, 0xd2} then 4
      else if marker \<in> {0xcb, 0xcf, 0xd3} then 8
      else if marker = 0xd4 then 2 else if marker = 0xd5 then 3 else if marker = 0xd6 then 5
      else if marker = 0xd7 then 9 else if marker = 0xd8 then 17 else 0)"

text \<open>A map of more than half the 64-bit range cannot be doubled; the check is the source's.\<close>

definition item_count :: "bool \<Rightarrow> nat \<Rightarrow> nat result" where
  "item_count is_map n =
     (if is_map then
        if n > (2 ^ 64 - 1) div 2 then Err kResourceExhausted ''MessagePack map is too large''
        else Ok (2 * n)
      else Ok n)"

text \<open>The markers of \<open>SkipValue\<close> whose extent needs no recursion.\<close>

definition SkipFlat :: "nat \<Rightarrow> string \<Rightarrow> string result" where
  "SkipFlat marker s =
     (if fixed_width marker \<noteq> 0 then Advance (fixed_width marker) s
      else if marker \<in> {0xc7, 0xc8, 0xc9} then
        r_bind (ReadUnsigned (if marker = 0xc7 then 1 else if marker = 0xc8 then 2 else 4) s)
          (\<lambda>(len, s). if unat len > 2 ^ 64 - 2
             then Err kResourceExhausted ''MessagePack extension is too large''
             else Advance (unat len + 1) s)
      else Err kInvalidArgument (''Unsupported MessagePack marker: '' @ dec marker))"

function SkipValue :: "nat \<Rightarrow> string \<Rightarrow> string result"
  and SkipValues :: "nat \<Rightarrow> nat \<Rightarrow> string \<Rightarrow> string result" where
  "SkipValue depth s =
     (if depth > kMaxNesting then too_deep
      else case s of [] \<Rightarrow> truncated_data
      | c # s \<Rightarrow>
          let marker = of_char c
          in if marker \<le> 0x7f \<or> marker \<ge> 0xe0 \<or> marker = 0xc0 \<or> marker = 0xc2 \<or> marker = 0xc3
             then Ok s
             else if marker AND 0xe0 = 0xa0 then Advance (marker AND 0x1f) s
             else if marker AND 0xf0 = 0x90 \<or> marker AND 0xf0 = 0x80
             then SkipValues ((if marker AND 0xf0 = 0x80 then 2 else 1) * (marker AND 0x0f)) depth s
             else if fixed_width marker \<noteq> 0 then SkipFlat marker s
             else if marker \<in> {0xdc, 0xdd, 0xde, 0xdf}
             then r_bind (ReadUnsigned (if marker = 0xdc \<or> marker = 0xde then 2 else 4) s) (\<lambda>(n, s).
                    r_bind (item_count (marker = 0xde \<or> marker = 0xdf) (unat n)) (\<lambda>m.
                      SkipValues m depth s))
             else SkipFlat marker s)"
| "SkipValues count depth s =
     (case count of 0 \<Rightarrow> Ok s
      | Suc n \<Rightarrow> r_bind (SkipValue (depth + 1) s) (\<lambda>s. SkipValues n depth s))"
  by pat_completeness auto
termination
  by (relation "measures [\<lambda>x. case x of Inl (d, _) \<Rightarrow> 2 * (259 - d) | Inr (_, d, _) \<Rightarrow> 2 * (258 - d) + 1,
      \<lambda>x. case x of Inl _ \<Rightarrow> 0 | Inr (n, _, _) \<Rightarrow> n]")
    (auto simp: kMaxNesting_def)

declare SkipValue.simps [simp del] SkipValues.simps [simp del]

text \<open>Whether a marker is handled by \<open>ScanValue\<close> itself: length-prefixed data, and containers.\<close>

definition is_sized :: "nat \<Rightarrow> bool" where
  "is_sized marker \<longleftrightarrow> marker \<in> {0xc4, 0xc5, 0xc6, 0xd9, 0xda, 0xdb}"

definition is_container :: "nat \<Rightarrow> bool" where
  "is_container marker \<longleftrightarrow>
     marker AND 0xf0 = 0x90 \<or> marker AND 0xf0 = 0x80 \<or> marker \<in> {0xdc, 0xdd, 0xde, 0xdf}"

definition container_count :: "nat \<Rightarrow> string \<Rightarrow> (nat \<times> string) result" where
  "container_count marker s =
     r_bind (if marker AND 0xf0 = 0x90 \<or> marker AND 0xf0 = 0x80
             then Ok (marker AND 0x0f, marker AND 0xf0 = 0x80, s)
             else r_bind (ReadUnsigned (if marker = 0xdc \<or> marker = 0xde then 2 else 4) s)
                    (\<lambda>(n, s). Ok (unat n, marker = 0xde \<or> marker = 0xdf, s)))
       (\<lambda>(n, is_map, s). r_bind (item_count is_map n) (\<lambda>m. Ok (m, s)))"

function ScanValue :: "nat \<Rightarrow> string \<Rightarrow> string result"
  and ScanValues :: "nat \<Rightarrow> nat \<Rightarrow> string \<Rightarrow> string result" where
  "ScanValue depth s =
     (case s of [] \<Rightarrow> truncated_data
      | c # s' \<Rightarrow>
          let marker = of_char c
          in if is_sized marker
             then r_bind (ReadUnsigned (if marker = 0xc4 \<or> marker = 0xd9 then 1
                                        else if marker = 0xc5 \<or> marker = 0xda then 2 else 4) s')
                    (\<lambda>(len, s). Advance (unat len) s)
             else if is_container marker
             then if depth > kMaxNesting then too_deep
                  else r_bind (container_count marker s') (\<lambda>(n, s). ScanValues n depth s)
             else SkipValue depth s)"
| "ScanValues count depth s =
     (case count of 0 \<Rightarrow> Ok s
      | Suc n \<Rightarrow> r_bind (ScanValue (depth + 1) s) (\<lambda>s. ScanValues n depth s))"
  by pat_completeness auto
termination
  by (relation "measures [\<lambda>x. case x of Inl (d, _) \<Rightarrow> 2 * (259 - d) | Inr (_, d, _) \<Rightarrow> 2 * (258 - d) + 1,
      \<lambda>x. case x of Inl _ \<Rightarrow> 0 | Inr (n, _, _) \<Rightarrow> n]")
    (auto simp: kMaxNesting_def)

declare ScanValue.simps [simp del] ScanValues.simps [simp del]

section \<open>Reading\<close>

definition Read :: "string \<Rightarrow> (json \<times> string) result" where
  "Read s =
     r_bind (ScanValue 0 s) (\<lambda>rest.
       r_bind (UnpackMsgpack (take (length s - length rest) s) ''a value'') (\<lambda>v. Ok (v, rest)))"

definition ReadBinaryView :: "string \<Rightarrow> (string \<times> string) result" where
  "ReadBinaryView s =
     (case s of [] \<Rightarrow> truncated_data
      | c # s \<Rightarrow>
          let marker = (of_char c :: nat)
          in if marker \<noteq> 0xc4 \<and> marker \<noteq> 0xc5 \<and> marker \<noteq> 0xc6
             then Err kInvalidArgument ''Expected MessagePack binary data at this field''
             else r_bind (ReadUnsigned (if marker = 0xc4 then 1 else if marker = 0xc5 then 2 else 4) s)
                    (\<lambda>(len, s). r_bind (Advance (unat len) s) (\<lambda>rest. Ok (take (unat len) s, rest))))"

definition ReadArrayLength :: "string \<Rightarrow> (nat \<times> string) result" where
  "ReadArrayLength s =
     (case s of [] \<Rightarrow> truncated_data
      | c # s \<Rightarrow>
          let marker = (of_char c :: nat)
          in if marker AND 0xf0 = 0x90 then Ok (marker AND 0x0f, s)
             else if marker \<noteq> 0xdc \<and> marker \<noteq> 0xdd
             then Err kInvalidArgument ''Expected a MessagePack array at this field''
             else r_bind (ReadUnsigned (if marker = 0xdc then 2 else 4) s) (\<lambda>(n, s). Ok (unat n, s)))"

definition EnsureFullyConsumed :: "string \<Rightarrow> unit result" where
  "EnsureFullyConsumed s = r_guard (s \<noteq> []) kInvalidArgument ''Extra data after deserialization''"

definition Binary :: "string \<Rightarrow> json" where
  "Binary bytes = JBinary bytes None"

definition GetBinary :: "json \<Rightarrow> string \<Rightarrow> string result" where
  "GetBinary v field =
     (case v of JBinary bytes _ \<Rightarrow> Ok bytes
      | _ \<Rightarrow> Err kInvalidArgument (field @ '' must be MessagePack binary data''))"

end
