(* ===== verification/Text_Encoding.thy ===== *)
theory Text_Encoding
  imports Byte_Order
begin

text \<open>
  Text encodings: strict UTF-8 validation (\<open>cpp/a11/utf8.h\<close>) and percent escapes
  (\<open>cpp/a11/percent.h\<close>).  The scanning loops are recursions on the unread suffix.
\<close>

section \<open>UTF-8\<close>

definition IsContinuation :: "char \<Rightarrow> bool" where
  "IsContinuation c \<longleftrightarrow> of_char c AND 0xC0 = (0x80 :: nat)"

definition SequenceWidth :: "char \<Rightarrow> nat" where
  "SequenceWidth c =
     (let byte = (of_char c :: nat)
      in if byte \<ge> 0xF0 then 4 else if byte \<ge> 0xE0 then 3 else if byte \<ge> 0xC0 then 2 else 1)"

definition Utf16Units :: "char \<Rightarrow> nat" where
  "Utf16Units c = (if of_char c \<ge> (0xF0 :: nat) then 2 else 1)"

definition kSmallest :: "nat \<Rightarrow> nat" where
  "kSmallest width = [0, 0, 0x80, 0x800, 0x10000] ! width"

text \<open>The width a lead byte announces and the bits of the code point it holds.\<close>

definition LeadByte :: "nat \<Rightarrow> (nat \<times> nat) option" where
  "LeadByte lead =
     (if lead AND 0xE0 = 0xC0 then Some (2, lead AND 0x1F)
      else if lead AND 0xF0 = 0xE0 then Some (3, lead AND 0x0F)
      else if lead AND 0xF8 = 0xF0 then Some (4, lead AND 0x07)
      else None)"

text \<open>The loop over the continuation bytes.\<close>

fun Continue :: "nat \<Rightarrow> string \<Rightarrow> nat option" where
  "Continue point [] = Some point"
| "Continue point (c # cs) =
     (if \<not> IsContinuation c then None
      else Continue (push_bit 6 point OR (of_char c AND 0x3F)) cs)"

definition bad_point :: "nat \<Rightarrow> nat \<Rightarrow> bool" where
  "bad_point width point \<longleftrightarrow>
     point < kSmallest width \<or> point > 0x10FFFF \<or> point \<ge> 0xD800 \<and> point \<le> 0xDFFF"

fun IsValid :: "string \<Rightarrow> bool" where
  "IsValid [] = True"
| "IsValid (c # cs) =
     (if of_char c < (0x80 :: nat) then IsValid cs
      else case LeadByte (of_char c) of
        None \<Rightarrow> False
      | Some (width, point) \<Rightarrow>
          if length (c # cs) < width then False
          else case Continue point (take (width - 1) cs) of
            None \<Rightarrow> False
          | Some p \<Rightarrow> \<not> bad_point width p \<and> IsValid (drop (width - 1) cs))"

section \<open>Percent escapes\<close>

definition HexDigit :: "char \<Rightarrow> nat option" where
  "HexDigit c =
     (let one = of_char c
      in if 48 \<le> one \<and> one \<le> 57 then Some (one - 48)
         else if 97 \<le> one \<and> one \<le> 102 then Some (one - 97 + 10)
         else if 65 \<le> one \<and> one \<le> 70 then Some (one - 65 + 10)
         else None)"

text \<open>The two digits after a percent sign, when there are two and both are hexadecimal.\<close>

fun escape_value :: "string \<Rightarrow> char option" where
  "escape_value (h # l # _) =
     (case (HexDigit h, HexDigit l) of
        (Some high, Some low) \<Rightarrow> Some (char_of (push_bit 4 high OR low))
      | _ \<Rightarrow> None)"
| "escape_value _ = None"

function PercentDecode :: "bool \<Rightarrow> string \<Rightarrow> string" where
  "PercentDecode plus_is_space [] = []"
| "PercentDecode plus_is_space (c # cs) =
     (if plus_is_space \<and> c = CHR ''+'' then CHR '' '' # PercentDecode plus_is_space cs
      else if c = CHR ''%'' \<and> escape_value cs \<noteq> None
      then the (escape_value cs) # PercentDecode plus_is_space (drop 2 cs)
      else c # PercentDecode plus_is_space cs)"
  by pat_completeness auto
termination by (relation "measure (\<lambda>(_, s). length s)") auto

function DecodeStrict :: "string \<Rightarrow> string \<Rightarrow> string result" where
  "DecodeStrict [] what = Ok []"
| "DecodeStrict (c # cs) what =
     (if c \<noteq> CHR ''%'' then r_bind (DecodeStrict cs what) (\<lambda>r. Ok (c # r))
      else if length cs < 2 then Err kInvalidArgument (''Truncated percent escape in '' @ what)
      else case escape_value cs of
        None \<Rightarrow> Err kInvalidArgument (''Invalid percent escape in '' @ what)
      | Some v \<Rightarrow> r_bind (DecodeStrict (drop 2 cs) what) (\<lambda>r. Ok (v # r)))"
  by pat_completeness auto
termination by (relation "measure (\<lambda>(s, _). length s)") auto

definition unreserved :: "char \<Rightarrow> bool" where
  "unreserved c \<longleftrightarrow>
     (let b = (of_char c :: nat)
      in 48 \<le> b \<and> b \<le> 57 \<or> 65 \<le> b \<and> b \<le> 90 \<or> 97 \<le> b \<and> b \<le> 122) \<or>
     c \<in> {CHR ''-'', CHR ''.'', CHR ''_'', CHR ''~''}"

definition kLowerHex :: string where
  "kLowerHex = ''0123456789abcdef''"

definition EncodeByte :: "char \<Rightarrow> string" where
  "EncodeByte c =
     (if unreserved c then [c]
      else [CHR ''%'', kLowerHex ! drop_bit 4 (of_char c), kLowerHex ! (of_char c AND 0x0F)])"

definition PercentEncode :: "string \<Rightarrow> string" where
  "PercentEncode s = concat (map EncodeByte s)"

end
