(* ===== verification/Status_Codec.thy ===== *)
theory Status_Codec
  imports Msgpack Text_Encoding
begin

text \<open>
  Structured statuses (\<open>cpp/a11/status.cc\<close>, the status record of \<open>cpp/a11/data/msgpack.cc\<close> and the
  strict JSON dump of \<open>cpp/a11/json_codec.cc\<close>): conversions to and from HTTP and WebSocket codes,
  and the encodings of a status with its details.  The details travel as the payload of an
  \<open>absl::Status\<close>, a JSON text; \<open>dump\<close> and \<open>parse\<close> are the third-party JSON printer and parser.
\<close>

section \<open>Codes\<close>

definition IsCanonicalCode :: "int \<Rightarrow> bool" where
  "IsCanonicalCode code \<longleftrightarrow> int (code_num kOk) \<le> code \<and> code \<le> int (code_num kUnauthenticated)"

definition StatusCodeFromHttp :: "int \<Rightarrow> status_code" where
  "StatusCodeFromHttp h =
     (if h \<ge> 200 \<and> h < 300 then kOk
      else if h = 400 then kInvalidArgument
      else if h = 401 then kUnauthenticated
      else if h = 403 then kPermissionDenied
      else if h = 404 then kNotFound
      else if h = 409 then kAborted
      else if h = 429 then kResourceExhausted
      else if h = 501 then kUnimplemented
      else if h = 503 then kUnavailable
      else if h \<ge> 400 \<and> h < 500 then kFailedPrecondition
      else if h \<ge> 500 \<and> h < 600 then kInternal
      else kUnknown)"

fun StatusCodeToHttp :: "status_code \<Rightarrow> int" where
  "StatusCodeToHttp kOk = 200"
| "StatusCodeToHttp kCancelled = 499"
| "StatusCodeToHttp kInvalidArgument = 400"
| "StatusCodeToHttp kFailedPrecondition = 400"
| "StatusCodeToHttp kOutOfRange = 400"
| "StatusCodeToHttp kDeadlineExceeded = 504"
| "StatusCodeToHttp kNotFound = 404"
| "StatusCodeToHttp kAlreadyExists = 409"
| "StatusCodeToHttp kAborted = 409"
| "StatusCodeToHttp kPermissionDenied = 403"
| "StatusCodeToHttp kResourceExhausted = 429"
| "StatusCodeToHttp kUnimplemented = 501"
| "StatusCodeToHttp kUnavailable = 503"
| "StatusCodeToHttp kUnauthenticated = 401"
| "StatusCodeToHttp kUnknown = 500"
| "StatusCodeToHttp kInternal = 500"
| "StatusCodeToHttp kDataLoss = 500"

definition StatusCodeFromWebSocket :: "u16 \<Rightarrow> status_code" where
  "StatusCodeFromWebSocket close_code =
     (let c = unat close_code
      in if c = 1000 then kOk
         else if c = 1001 then kAborted
         else if c = 1002 \<or> c = 1003 \<or> c = 1007 then kInvalidArgument
         else if c = 1008 then kPermissionDenied
         else if c = 1009 then kResourceExhausted
         else if c = 1011 then kInternal
         else if c = 1012 \<or> c = 1013 then kUnavailable
         else if c = 4000 then kCancelled
         else if c = 4002 then kInvalidArgument
         else if c = 4003 then kDeadlineExceeded
         else if c = 4004 then kNotFound
         else if c = 4005 then kAlreadyExists
         else if c = 4006 then kPermissionDenied
         else if c = 4007 then kUnauthenticated
         else if c = 4008 then kResourceExhausted
         else if c = 4009 then kFailedPrecondition
         else if c = 4010 then kAborted
         else if c = 4011 then kOutOfRange
         else if c = 4012 then kUnimplemented
         else if c = 4013 then kInternal
         else if c = 4014 then kUnavailable
         else if c = 4015 then kDataLoss
         else kUnknown)"

definition StatusCodeToWebSocket :: "status_code \<Rightarrow> u16" where
  "StatusCodeToWebSocket code =
     (if code = kOk then 1000
      else let raw = code_num code
           in if raw \<ge> 1 \<and> raw \<le> 15 then word_of_nat (3999 + raw)
              else if code = kUnauthenticated then 4007
              else 4001)"

section \<open>Strict JSON text\<close>

text \<open>\<open>FindUnencodableStringImpl\<close>: the explicit stack of values still to look at, its back first.\<close>

fun json_size :: "json \<Rightarrow> nat" where
  "json_size (JArray vs) = Suc (sum_list (map json_size vs))"
| "json_size (JObject kvs) = Suc (sum_list (map (\<lambda>(k, v). json_size v) kvs))"
| "json_size _ = 1"

definition json_elements :: "json \<Rightarrow> json list" where
  "json_elements v = (case v of JArray vs \<Rightarrow> vs | JObject kvs \<Rightarrow> map snd kvs | _ \<Rightarrow> [])"

lemma json_size_pos [simp]: "0 < json_size v"
  by (cases v) simp_all

lemma json_size_elements: "sum_list (map json_size (json_elements v)) < json_size v"
  by (cases v) (simp_all add: json_elements_def case_prod_unfold o_def)

function FindUnencodable :: "json list \<Rightarrow> json option" where
  "FindUnencodable [] = None"
| "FindUnencodable (one # rest) =
     (case one of
        JString text \<Rightarrow> if \<not> IsValid text then Some one else FindUnencodable rest
      | _ \<Rightarrow> FindUnencodable (rev (json_elements one) @ rest))"
  by pat_completeness auto
termination
  by (relation "measure (\<lambda>vs. sum_list (map json_size vs))")
    (simp_all add: json_elements_def case_prod_unfold o_def flip: rev_map)

definition FindUnencodableString :: "json \<Rightarrow> json option" where
  "FindUnencodableString v = FindUnencodable [v]"

type_synonym json_printer = "json \<Rightarrow> string + string"
type_synonym json_parser = "string \<Rightarrow> string + json"

definition DumpJson :: "json_printer \<Rightarrow> json \<Rightarrow> string \<Rightarrow> string result" where
  "DumpJson dump v what =
     (if FindUnencodableString v \<noteq> None
      then Err kInvalidArgument (''Failed to serialize '' @ what @
        '': it holds bytes that are not valid UTF-8, which JSON has no spelling for. '' @
        ''MessagePack carries them exactly, and base64 carries them through JSON.'')
      else case dump v of
        Inl error \<Rightarrow> Err kInvalidArgument (''Failed to serialize '' @ what @ '': '' @ error)
      | Inr text \<Rightarrow> Ok text)"

definition ParseJson :: "json_parser \<Rightarrow> string \<Rightarrow> string \<Rightarrow> json result" where
  "ParseJson parse encoded what =
     (case parse encoded of
        Inl diagnostic \<Rightarrow> Err kInvalidArgument (''Failed to parse '' @ what @ '': '' @ diagnostic)
      | Inr v \<Rightarrow> Ok v)"

section \<open>Statuses with details\<close>

text \<open>An \<open>absl::Status\<close> with its details payload; an OK status has neither message nor payload.\<close>

record Status =
  st_code :: status_code
  st_message :: string
  st_payload :: "string option"

definition make_status :: "status_code \<Rightarrow> string \<Rightarrow> Status" where
  "make_status code message =
     \<lparr>st_code = code, st_message = (if code = kOk then [] else message), st_payload = None\<rparr>"

definition SetPayload :: "string \<Rightarrow> Status \<Rightarrow> Status" where
  "SetPayload text st = (if st_code st = kOk then st else st\<lparr>st_payload := Some text\<rparr>)"

definition MakeStatus :: "json_printer \<Rightarrow> status_code \<Rightarrow> string \<Rightarrow> json \<Rightarrow> Status" where
  "MakeStatus dump code message details =
     (let status = make_status code message
      in case details of
           JArray (_ # _) \<Rightarrow>
             (case DumpJson dump details ''status details'' of
                Inl (_, error) \<Rightarrow> make_status kInternal (''Failed to encode status details: '' @ error)
              | Inr text \<Rightarrow> SetPayload text status)
         | _ \<Rightarrow> status)"

definition StatusDetails :: "json_parser \<Rightarrow> Status \<Rightarrow> json" where
  "StatusDetails parse st =
     (case st_payload st of
        None \<Rightarrow> JArray []
      | Some text \<Rightarrow>
          (case ParseJson parse text ''status details'' of
             Inr (JArray vs) \<Rightarrow> JArray vs
           | _ \<Rightarrow> JArray []))"

definition StatusToJson :: "json_parser \<Rightarrow> Status \<Rightarrow> json" where
  "StatusToJson parse st =
     JObject [(''code'', JInt (word_of_nat (code_num (st_code st)))),
       (''details'', StatusDetails parse st), (''message'', JString (st_message st))]"

definition StatusFromJson :: "json_printer \<Rightarrow> json \<Rightarrow> Status result" where
  "StatusFromJson dump v =
     (let invalid = Err kInvalidArgument ''JSON does not contain a valid Status''
      in case v of
           JObject kvs \<Rightarrow>
             (case (map_of kvs ''code'', map_of kvs ''message'') of
                (Some c, Some (JString message)) \<Rightarrow>
                  if \<not> is_number_integer c then invalid
                  else if \<not> IsCanonicalCode (sint (get_bits c))
                  then Err kInvalidArgument ''Status code is not canonical''
                  else let code = code_of_num (nat (sint (get_bits c)))
                       in (case map_of kvs ''details'' of
                             None \<Rightarrow> Ok (MakeStatus dump code message (JArray []))
                           | Some (JArray vs) \<Rightarrow> Ok (MakeStatus dump code message (JArray vs))
                           | Some _ \<Rightarrow> Err kInvalidArgument ''Status details must be an array'')
              | _ \<Rightarrow> invalid)
         | _ \<Rightarrow> invalid)"

definition PackStatus :: "msgpack_encoder \<Rightarrow> json_parser \<Rightarrow> Status \<Rightarrow> string result" where
  "PackStatus tm parse st =
     r_bind (Pack tm (JInt (word_of_nat (code_num (st_code st)))) []) (\<lambda>out.
     r_bind (Pack tm (JString (st_message st)) out) (\<lambda>out.
     Pack tm (StatusDetails parse st) out))"

definition UnpackStatus :: "json_printer \<Rightarrow> string \<Rightarrow> Status result" where
  "UnpackStatus dump bytes =
     r_bind (Read bytes) (\<lambda>(code, reader).
     r_bind (Read reader) (\<lambda>(message, reader).
     r_bind (Read reader) (\<lambda>(details, reader).
     r_then (EnsureFullyConsumed reader)
       (case message of
          JString text \<Rightarrow>
            let d = details in if \<not> is_number_integer code \<or> (\<not> is_null d \<and> \<not> is_array d)
            then Err kInvalidArgument ''MessagePack does not contain a valid Status''
            else let raw = sint (get_bits code)
                 in if raw < 0 \<or> raw > 16
                    then Err kInvalidArgument ''MessagePack status code is not canonical''
                    else let elements = (case d of JArray vs \<Rightarrow> vs | _ \<Rightarrow> [])
                         in if \<not> list_all is_object elements
                            then Err kInvalidArgument ''Each Status detail must be an object''
                            else Ok (MakeStatus dump (code_of_num (nat raw)) text (JArray elements))
        | _ \<Rightarrow> Err kInvalidArgument ''MessagePack does not contain a valid Status''))))"

end
