(* ===== verification/Wire_Types.thy ===== *)
theory Wire_Types
  imports Storage_Identity Status_Codec
begin

text \<open>
  The records A11 endpoints exchange and their MessagePack form (\<open>cpp/a11/data/types.h\<close> and
  \<open>types.cc\<close>): chunk metadata, chunks, node references, node fragments, ports, action messages and
  the top-level wire message.  Each record has its \<open>Validate\<close>, its \<open>ToMsgpackInto\<close> (a map on the
  writer's buffer) and its \<open>FromMsgpack\<close>.  A \<open>ByteMap\<close> is a hash map, so an association list
  whose order means nothing; \<open>PackByteMap\<close> sorts it.  A timestamp is an
  \<open>absl::Time\<close>; \<open>tc\<close> holds Abseil's conversions between times and the microseconds since the Unix epoch that
  the encoding carries.  \<open>tm\<close> is \<open>nlohmann::json::to_msgpack\<close>, which only a node
  reference with a storage identity uses.
\<close>

section \<open>Records\<close>

type_synonym ByteMap = "(string \<times> string) list"

text \<open>An \<open>absl::Time\<close> is one of the two infinite times or counts quarter nanoseconds from the Unix epoch.  What
  \<open>absl::ToUnixMicros\<close> and \<open>absl::FromUnixMicros\<close> do with one is a parameter; \<open>std::int64_t\<close> is the word of its bits.\<close>

datatype Time = InfinitePast | Instant int | InfiniteFuture

record time_conv =
  ToUnixMicros :: "Time \<Rightarrow> u64"
  FromUnixMicros :: "u64 \<Rightarrow> Time"

record ChunkMetadata =
  cm_mimetype :: string
  cm_timestamp :: "Time option"
  cm_attributes :: ByteMap

text \<open>\<open>ChunkObject\<close> is an interface; an object is what its methods return.\<close>

record ChunkObject =
  co_tag :: string
  co_mimetype :: string
  co_encode :: "string result"
  co_approx_bytes :: nat

record Chunk =
  ch_metadata :: "ChunkMetadata option"
  ch_ref :: string
  ch_data :: string
  ch_object :: "ChunkObject option"

record NodeRef =
  nr_id :: string
  nr_offset :: u32
  nr_length :: "u64 option"
  nr_storage :: "StorageIdentity option"

datatype fragment_data = FChunk Chunk | FNodeRef NodeRef

record NodeFragment =
  nf_id :: string
  nf_data :: fragment_data
  nf_seq :: "u32 option"
  nf_continued :: bool

record Port =
  pt_name :: string
  pt_id :: string

record ActionMessage =
  am_id :: string
  am_name :: string
  am_inputs :: "Port list"
  am_outputs :: "Port list"
  am_headers :: ByteMap

record WireMessage =
  wm_node_fragments :: "NodeFragment list"
  wm_actions :: "ActionMessage list"
  wm_headers :: ByteMap

definition kVersion :: u64 where
  "kVersion = 1"

definition kUint32Range :: u64 where
  "kUint32Range = 2 ^ 32"

section \<open>Fields\<close>

definition JsonUnsigned :: "json \<Rightarrow> string \<Rightarrow> u64 result" where
  "JsonUnsigned v field =
     (case v of
        JUint n \<Rightarrow> Ok n
      | JInt n \<Rightarrow> if sint n \<ge> 0 then Ok n
                  else Err kInvalidArgument (field @ '' must be a non-negative integer'')
      | _ \<Rightarrow> Err kInvalidArgument (field @ '' must be a non-negative integer''))"

definition JsonString :: "json \<Rightarrow> string \<Rightarrow> string result" where
  "JsonString v field =
     (case v of JString text \<Rightarrow> Ok text | _ \<Rightarrow> Err kInvalidArgument (field @ '' must be a string''))"

definition PackEntry :: "string \<times> string \<Rightarrow> string \<Rightarrow> string" where
  "PackEntry e out = PackBinary (snd e) (PackString (fst e) out)"

definition PackByteMap :: "ByteMap \<Rightarrow> string \<Rightarrow> string" where
  "PackByteMap m out =
     (let entries = sort_key fst m
      in fold PackEntry entries (PackMapHeader (length entries) out))"

definition DecodeByteMap :: "json \<Rightarrow> string \<Rightarrow> ByteMap result" where
  "DecodeByteMap v field =
     (case v of
        JObject kvs \<Rightarrow>
          r_map (\<lambda>(key, x).
            case ValidateName key of
              Inl (_, message) \<Rightarrow> Err kInvalidArgument (''Invalid key in '' @ field @ '': '' @ message)
            | Inr _ \<Rightarrow> r_bind (GetBinary x field) (\<lambda>bytes. Ok (key, bytes))) kvs
      | _ \<Rightarrow> Err kInvalidArgument (field @ '' must be a map''))"

definition ReadField :: "string \<Rightarrow> string \<Rightarrow> (json \<times> string) result" where
  "ReadField reader field =
     (case Read reader of
        Inl (_, message) \<Rightarrow> Err kInvalidArgument (''Failed to read '' @ field @ '': '' @ message)
      | Inr x \<Rightarrow> Ok x)"

section \<open>Chunk metadata\<close>

definition MetadataApproxBytes :: "ChunkMetadata \<Rightarrow> nat" where
  "MetadataApproxBytes m = length (cm_mimetype m) + 8 + 1 + fields_size (cm_attributes m)"

definition MetadataValidate :: "ChunkMetadata \<Rightarrow> unit result" where
  "MetadataValidate m = r_forall (\<lambda>(key, _). ValidateName key) (cm_attributes m)"

definition GetAttribute :: "ChunkMetadata \<Rightarrow> string \<Rightarrow> string result" where
  "GetAttribute m key =
     (case map_of (cm_attributes m) key of
        None \<Rightarrow> Err kNotFound (''Attribute not found: '' @ key)
      | Some v \<Rightarrow> Ok v)"

definition SetAttribute :: "string \<Rightarrow> string \<Rightarrow> ChunkMetadata \<Rightarrow> ChunkMetadata result" where
  "SetAttribute key v m =
     r_then (ValidateName key) (Ok (m\<lparr>cm_attributes := AList.update key v (cm_attributes m)\<rparr>))"

definition MetadataToMsgpackInto :: "time_conv \<Rightarrow> ChunkMetadata \<Rightarrow> string \<Rightarrow> string result" where
  "MetadataToMsgpackInto tc m out =
     (let out = PackString (cm_mimetype m) out;
          out = (case cm_timestamp m of Some t \<Rightarrow> PackInt (ToUnixMicros tc t) out | None \<Rightarrow> PackNil out)
      in Ok (PackByteMap (cm_attributes m) out))"

definition MetadataToMsgpack :: "time_conv \<Rightarrow> ChunkMetadata \<Rightarrow> string result" where
  "MetadataToMsgpack tc m = r_then (MetadataValidate m) (MetadataToMsgpackInto tc m [])"

definition MetadataFromMsgpack :: "time_conv \<Rightarrow> string \<Rightarrow> ChunkMetadata result" where
  "MetadataFromMsgpack tc bytes =
     r_bind (ReadField bytes ''ChunkMetadata.mimetype'') (\<lambda>(mimetype_value, reader).
     r_bind (JsonString mimetype_value ''ChunkMetadata.mimetype'') (\<lambda>mimetype.
     r_bind (ReadField reader ''ChunkMetadata.timestamp'') (\<lambda>(timestamp_value, reader).
     r_bind (if is_null timestamp_value then Ok None
             else if \<not> is_number_integer timestamp_value
             then Err kInvalidArgument ''ChunkMetadata.timestamp must be integer microseconds or null''
             else Ok (Some (FromUnixMicros tc (get_bits timestamp_value)))) (\<lambda>timestamp.
     r_bind (ReadField reader ''ChunkMetadata.attributes'') (\<lambda>(attributes_value, reader).
     r_bind (DecodeByteMap attributes_value ''ChunkMetadata.attributes'') (\<lambda>attributes.
     r_then (EnsureFullyConsumed reader)
       (let result = \<lparr>cm_mimetype = mimetype, cm_timestamp = timestamp, cm_attributes = attributes\<rparr>
        in r_then (MetadataValidate result) (Ok result))))))))"

section \<open>Chunks\<close>

definition ChunkApproxBytes :: "Chunk \<Rightarrow> nat" where
  "ChunkApproxBytes c =
     length (ch_ref c) + length (ch_data c) +
     (case ch_object c of Some ob \<Rightarrow> co_approx_bytes ob | None \<Rightarrow> 0) +
     (case ch_metadata c of Some m \<Rightarrow> MetadataApproxBytes m | None \<Rightarrow> 1) + 5"

definition GetMimetype :: "Chunk \<Rightarrow> string" where
  "GetMimetype c = (case ch_metadata c of Some m \<Rightarrow> cm_mimetype m | None \<Rightarrow> [])"

definition ChunkIsEmpty :: "Chunk \<Rightarrow> bool" where
  "ChunkIsEmpty c \<longleftrightarrow> ch_ref c = [] \<and> ch_data c = [] \<and> ch_object c = None"

definition ChunkIsNull :: "Chunk \<Rightarrow> bool" where
  "ChunkIsNull c \<longleftrightarrow> ChunkIsEmpty c \<and> GetMimetype c = ''application/octet-stream''"

definition ChunkValidate :: "Chunk \<Rightarrow> unit result" where
  "ChunkValidate c =
     (if ch_ref c \<noteq> [] \<and> ch_data c \<noteq> []
      then Err kInvalidArgument ''Only one of ref or data may be set''
      else if ch_object c \<noteq> None \<and> ch_ref c \<noteq> []
      then Err kInvalidArgument ''A chunk carrying an object cannot also reference another node''
      else case ch_metadata c of Some m \<Rightarrow> MetadataValidate m | None \<Rightarrow> Ok ())"

text \<open>\<open>Materialize\<close> changes the chunk in place and leaves it unchanged when encoding fails.\<close>

definition Materialize :: "Chunk \<Rightarrow> Chunk result" where
  "Materialize c =
     (case ch_object c of
        None \<Rightarrow> Ok c
      | Some ob \<Rightarrow>
          if ch_data c \<noteq> [] then Ok (c\<lparr>ch_object := None\<rparr>)
          else r_bind (co_encode ob) (\<lambda>bytes.
            let metadata = (case ch_metadata c of
                  None \<Rightarrow> \<lparr>cm_mimetype = co_mimetype ob, cm_timestamp = None, cm_attributes = []\<rparr>
                | Some m \<Rightarrow> if cm_mimetype m = [] then m\<lparr>cm_mimetype := co_mimetype ob\<rparr> else m)
            in Ok (c\<lparr>ch_data := bytes, ch_metadata := Some metadata, ch_object := None\<rparr>)))"

definition ChunkToMsgpackInto :: "time_conv \<Rightarrow> Chunk \<Rightarrow> string \<Rightarrow> string result" where
  "ChunkToMsgpackInto tc c out =
     r_bind (case ch_metadata c of
               Some m \<Rightarrow> PackRecord (MetadataToMsgpackInto tc m) out
             | None \<Rightarrow> Ok (PackNil out))
       (\<lambda>out. Ok (PackBinary (ch_data c) (PackString (ch_ref c) out)))"

definition ChunkToMsgpack :: "time_conv \<Rightarrow> Chunk \<Rightarrow> string result" where
  "ChunkToMsgpack tc c = r_then (ChunkValidate c) (ChunkToMsgpackInto tc c [])"

definition ChunkFromMsgpack :: "time_conv \<Rightarrow> string \<Rightarrow> Chunk result" where
  "ChunkFromMsgpack tc bytes =
     r_bind (ReadField bytes ''Chunk.metadata'') (\<lambda>(metadata_value, reader).
     r_bind (if is_null metadata_value then Ok None
             else r_bind (GetBinary metadata_value ''Chunk.metadata'') (\<lambda>encoded.
                    r_bind (MetadataFromMsgpack tc encoded) (\<lambda>m. Ok (Some m)))) (\<lambda>metadata.
     r_bind (ReadField reader ''Chunk.ref'') (\<lambda>(ref_value, reader).
     r_bind (JsonString ref_value ''Chunk.ref'') (\<lambda>ref.
     r_bind (ReadBinaryView reader) (\<lambda>(bytes, reader).
     r_then (EnsureFullyConsumed reader)
       (let result = \<lparr>ch_metadata = metadata, ch_ref = ref, ch_data = bytes, ch_object = None\<rparr>
        in r_then (ChunkValidate result) (Ok result)))))))"

section \<open>Status chunks\<close>

definition kStatusMimetype :: string where
  "kStatusMimetype = ''application/x-a11-status''"

definition kCloseAttribute :: string where
  "kCloseAttribute = ''a11-close''"

definition MakeStatusChunk :: "msgpack_encoder \<Rightarrow> json_parser \<Rightarrow> Status \<Rightarrow> bool \<Rightarrow> Chunk result" where
  "MakeStatusChunk tm parse status closing =
     r_bind (PackStatus tm parse status) (\<lambda>bytes.
     r_bind (let metadata = \<lparr>cm_mimetype = kStatusMimetype, cm_timestamp = None, cm_attributes = []\<rparr>
             in if closing then SetAttribute kCloseAttribute ''1'' metadata else Ok metadata) (\<lambda>metadata.
     Ok \<lparr>ch_metadata = Some metadata, ch_ref = [], ch_data = bytes, ch_object = None\<rparr>))"

definition IsStatusChunk :: "Chunk \<Rightarrow> bool" where
  "IsStatusChunk c \<longleftrightarrow> GetMimetype c = kStatusMimetype"

definition IsCloseStatusChunk :: "Chunk \<Rightarrow> bool" where
  "IsCloseStatusChunk c \<longleftrightarrow>
     IsStatusChunk c \<and>
     (case ch_metadata c of None \<Rightarrow> False | Some m \<Rightarrow> map_of (cm_attributes m) kCloseAttribute \<noteq> None)"

definition StatusFromStatusChunk :: "json_printer \<Rightarrow> Chunk \<Rightarrow> Status result" where
  "StatusFromStatusChunk dump c =
     r_then (ChunkValidate c)
       (if \<not> IsStatusChunk c then Err kInvalidArgument ''Chunk does not contain a status''
        else UnpackStatus dump (ch_data c))"

section \<open>Node references\<close>

definition NodeRefApproxBytes :: "NodeRef \<Rightarrow> nat" where
  "NodeRefApproxBytes n =
     length (nr_id n) + 4 + (if nr_length n \<noteq> None then 4 else 0) + 1 +
     (case nr_storage n of Some v \<Rightarrow> IdentityApproxBytes v | None \<Rightarrow> 0)"

text \<open>The sum is taken in \<open>std::uint64_t\<close>; the length is bounded first, so it cannot wrap.\<close>

definition NodeRefValidate :: "NodeRef \<Rightarrow> unit result" where
  "NodeRefValidate n =
     r_then (ValidateName (nr_id n))
       (r_then (case nr_storage n of Some v \<Rightarrow> ValidateIdentity v | None \<Rightarrow> Ok ())
         (case nr_length n of
            None \<Rightarrow> Ok ()
          | Some len \<Rightarrow>
              if len > kUint32Range \<or> len + ucast (nr_offset n) > kUint32Range
              then Err kInvalidArgument ''Offset + length must not exceed 2^32''
              else Ok ()))"

text \<open>The loop that gives the credentials to the first service of the role.\<close>

fun set_service_credentials :: "string \<Rightarrow> StorageCredentials \<Rightarrow> StorageService list \<Rightarrow>
    StorageService list option" where
  "set_service_credentials role access [] = None"
| "set_service_credentials role access (s # ss) =
     (if ss_role s = role then Some (s\<lparr>ss_credentials := Some access\<rparr> # ss)
      else map_option (Cons s) (set_service_credentials role access ss))"

definition WithCredentials :: "StorageCredentials \<Rightarrow> string option \<Rightarrow> NodeRef \<Rightarrow> NodeRef result" where
  "WithCredentials access role n =
     r_then (NodeRefValidate n)
       (r_then (ValidateCredentials access)
         (case nr_storage n of
            None \<Rightarrow> Err kFailedPrecondition ''Credentials require a storage-qualified reference''
          | Some v \<Rightarrow>
              r_bind (case role of
                        None \<Rightarrow> Ok (n\<lparr>nr_storage := Some (v\<lparr>si_credentials := Some access\<rparr>)\<rparr>)
                      | Some r \<Rightarrow>
                          r_then (ValidateName r)
                            (case set_service_credentials r access (si_services v) of
                               None \<Rightarrow> Err kInvalidArgument ''Unknown storage service role''
                             | Some services \<Rightarrow>
                                 Ok (n\<lparr>nr_storage := Some (v\<lparr>si_services := services\<rparr>)\<rparr>)))
                (\<lambda>result. r_then (NodeRefValidate result) (Ok result))))"

definition NodeRefToMsgpackInto :: "msgpack_encoder \<Rightarrow> NodeRef \<Rightarrow> string \<Rightarrow> string result" where
  "NodeRefToMsgpackInto tm n out =
     (let out = PackUint (ucast (nr_offset n)) (PackString (nr_id n) out);
          out = (case nr_length n of Some len \<Rightarrow> PackUint len out | None \<Rightarrow> PackNil out)
      in case nr_storage n of
           Some storage \<Rightarrow> r_bind (StorageIdentityToJsonValue storage) (\<lambda>v. Pack tm v out)
         | None \<Rightarrow> Ok (PackNil out))"

definition NodeRefToMsgpack :: "msgpack_encoder \<Rightarrow> NodeRef \<Rightarrow> string result" where
  "NodeRefToMsgpack tm n = r_then (NodeRefValidate n) (NodeRefToMsgpackInto tm n [])"

definition NodeRefFromMsgpack :: "string \<Rightarrow> NodeRef result" where
  "NodeRefFromMsgpack bytes =
     r_bind (ReadField bytes ''NodeRef.id'') (\<lambda>(id_value, reader).
     r_bind (JsonString id_value ''NodeRef.id'') (\<lambda>id'.
     r_bind (ReadField reader ''NodeRef.offset'') (\<lambda>(offset_value, reader).
     r_bind (JsonUnsigned offset_value ''NodeRef.offset'') (\<lambda>offset.
     r_then (r_guard (offset > 0xffffffff) kOutOfRange ''NodeRef.offset exceeds uint32'')
     (r_bind (ReadField reader ''NodeRef.length'') (\<lambda>(length_value, reader).
     r_bind (if is_null length_value then Ok None
             else r_bind (JsonUnsigned length_value ''NodeRef.length'') (\<lambda>n. Ok (Some n))) (\<lambda>len.
     r_bind (ReadField reader ''NodeRef.storage'') (\<lambda>(storage_value, reader).
     r_bind (if is_null storage_value then Ok None
             else r_bind (StorageIdentityFromJsonValue storage_value) (\<lambda>v. Ok (Some v))) (\<lambda>storage.
     r_then (EnsureFullyConsumed reader)
       (let result = \<lparr>nr_id = id', nr_offset = ucast offset, nr_length = len, nr_storage = storage\<rparr>
        in r_then (NodeRefValidate result) (Ok result)))))))))))"

section \<open>Node fragments\<close>

definition FragmentApproxBytes :: "NodeFragment \<Rightarrow> nat" where
  "FragmentApproxBytes f =
     length (nf_id f) +
     (case nf_data f of FChunk c \<Rightarrow> ChunkApproxBytes c | FNodeRef n \<Rightarrow> NodeRefApproxBytes n) +
     (if nf_seq f \<noteq> None then 4 else 1) + 6"

definition FragmentValidate :: "NodeFragment \<Rightarrow> unit result" where
  "FragmentValidate f =
     r_then (ValidateOptionalName (nf_id f))
       (case nf_data f of FChunk c \<Rightarrow> ChunkValidate c | FNodeRef n \<Rightarrow> NodeRefValidate n)"

definition GetChunk :: "NodeFragment \<Rightarrow> Chunk result" where
  "GetChunk f =
     (case nf_data f of FChunk c \<Rightarrow> Ok c
      | FNodeRef _ \<Rightarrow> Err kFailedPrecondition ''Data is not a Chunk'')"

definition GetNodeRef :: "NodeFragment \<Rightarrow> NodeRef result" where
  "GetNodeRef f =
     (case nf_data f of FNodeRef n \<Rightarrow> Ok n
      | FChunk _ \<Rightarrow> Err kFailedPrecondition ''Data is not a NodeRef'')"

definition FragmentToMsgpackInto :: "time_conv \<Rightarrow> msgpack_encoder \<Rightarrow> NodeFragment \<Rightarrow> string \<Rightarrow> string result" where
  "FragmentToMsgpackInto tc tm f out =
     r_bind (PackRecord (case nf_data f of FChunk c \<Rightarrow> ChunkToMsgpackInto tc c | FNodeRef n \<Rightarrow> NodeRefToMsgpackInto tm n)
              (PackUint (case nf_data f of FChunk _ \<Rightarrow> 0 | FNodeRef _ \<Rightarrow> 1) (PackString (nf_id f) out)))
       (\<lambda>out. let out = (case nf_seq f of Some n \<Rightarrow> PackUint (ucast n) out | None \<Rightarrow> PackNil out)
              in Ok (PackBool (nf_continued f) out))"

definition FragmentToMsgpack :: "time_conv \<Rightarrow> msgpack_encoder \<Rightarrow> NodeFragment \<Rightarrow> string result" where
  "FragmentToMsgpack tc tm f = r_then (FragmentValidate f) (FragmentToMsgpackInto tc tm f [])"

definition FragmentFromMsgpack :: "time_conv \<Rightarrow> string \<Rightarrow> NodeFragment result" where
  "FragmentFromMsgpack tc bytes =
     r_bind (ReadField bytes ''NodeFragment.id'') (\<lambda>(id_value, reader).
     r_bind (JsonString id_value ''NodeFragment.id'') (\<lambda>id'.
     r_bind (ReadField reader ''NodeFragment.data index'') (\<lambda>(union_value, reader).
     r_bind (JsonUnsigned union_value ''NodeFragment.data index'') (\<lambda>union_index.
     r_then (r_guard (union_index > 1) kFailedPrecondition
               ''Invalid union index; expected 0 for Chunk or 1 for NodeRef'')
     (r_bind (ReadBinaryView reader) (\<lambda>(encoded, reader).
     r_bind (if union_index = 0 then r_bind (ChunkFromMsgpack tc encoded) (\<lambda>c. Ok (FChunk c))
             else r_bind (NodeRefFromMsgpack encoded) (\<lambda>n. Ok (FNodeRef n))) (\<lambda>data.
     r_bind (ReadField reader ''NodeFragment.seq'') (\<lambda>(seq_value, reader).
     r_bind (if is_null seq_value then Ok None
             else r_bind (JsonUnsigned seq_value ''NodeFragment.seq'') (\<lambda>parsed.
                    r_then (r_guard (parsed > 0xffffffff) kOutOfRange ''NodeFragment.seq exceeds uint32'')
                      (Ok (Some (ucast parsed))))) (\<lambda>seq.
     r_bind (ReadField reader ''NodeFragment.continued'') (\<lambda>(continued_value, reader).
     case continued_value of
       JBool continued \<Rightarrow>
         r_then (EnsureFullyConsumed reader)
           (let result = \<lparr>nf_id = id', nf_data = data, nf_seq = seq, nf_continued = continued\<rparr>
            in r_then (FragmentValidate result) (Ok result))
     | _ \<Rightarrow> Err kInvalidArgument ''NodeFragment.continued must be bool''))))))))))"

section \<open>Ports and actions\<close>

definition PortApproxBytes :: "Port \<Rightarrow> nat" where
  "PortApproxBytes p = length (pt_name p) + length (pt_id p) + 1"

definition PortValidate :: "Port \<Rightarrow> unit result" where
  "PortValidate p = r_then (ValidateOptionalName (pt_name p)) (ValidateOptionalName (pt_id p))"

definition PortToMsgpackInto :: "Port \<Rightarrow> string \<Rightarrow> string result" where
  "PortToMsgpackInto p out = Ok (PackString (pt_id p) (PackString (pt_name p) out))"

definition PortToMsgpack :: "Port \<Rightarrow> string result" where
  "PortToMsgpack p = r_then (PortValidate p) (PortToMsgpackInto p [])"

definition PortFromMsgpack :: "string \<Rightarrow> Port result" where
  "PortFromMsgpack bytes =
     r_bind (ReadField bytes ''Port.name'') (\<lambda>(name_value, reader).
     r_bind (JsonString name_value ''Port.name'') (\<lambda>name.
     r_bind (ReadField reader ''Port.id'') (\<lambda>(id_value, reader).
     r_bind (JsonString id_value ''Port.id'') (\<lambda>id'.
     r_then (EnsureFullyConsumed reader)
       (let result = \<lparr>pt_name = name, pt_id = id'\<rparr>
        in r_then (PortValidate result) (Ok result))))))"

definition ActionApproxBytes :: "ActionMessage \<Rightarrow> nat" where
  "ActionApproxBytes a =
     length (am_id a) + length (am_name a) + 8 + sum_list (map PortApproxBytes (am_inputs a)) +
     sum_list (map PortApproxBytes (am_outputs a)) + fields_size (am_headers a)"

definition ActionValidate :: "ActionMessage \<Rightarrow> unit result" where
  "ActionValidate a =
     r_then (ValidateOptionalName (am_id a))
    (r_then (ValidateOptionalName (am_name a))
    (r_then (r_forall PortValidate (am_inputs a))
    (r_then (r_forall PortValidate (am_outputs a))
            (r_forall (\<lambda>(key, _). ValidateName key) (am_headers a)))))"

text \<open>A header followed by one binary record per element; the loop stops at the first error.\<close>

fun PackRecords :: "('a \<Rightarrow> string \<Rightarrow> string result) \<Rightarrow> 'a list \<Rightarrow> string \<Rightarrow> string result" where
  "PackRecords encode [] out = Ok out"
| "PackRecords encode (x # xs) out = r_bind (PackRecord (encode x) out) (PackRecords encode xs)"

definition PackList :: "('a \<Rightarrow> string \<Rightarrow> string result) \<Rightarrow> 'a list \<Rightarrow> string \<Rightarrow> string result" where
  "PackList encode xs out = PackRecords encode xs (PackArrayHeader (length xs) out)"

definition ActionToMsgpackInto :: "ActionMessage \<Rightarrow> string \<Rightarrow> string result" where
  "ActionToMsgpackInto a out =
     r_bind (PackList PortToMsgpackInto (am_inputs a) (PackString (am_name a) (PackString (am_id a) out)))
       (\<lambda>out. r_bind (PackList PortToMsgpackInto (am_outputs a) out)
         (\<lambda>out. Ok (PackByteMap (am_headers a) out)))"

definition ActionToMsgpack :: "ActionMessage \<Rightarrow> string result" where
  "ActionToMsgpack a = r_then (ActionValidate a) (ActionToMsgpackInto a [])"

definition DecodePorts :: "string \<Rightarrow> string \<Rightarrow> (Port list \<times> string) result" where
  "DecodePorts field reader =
     r_bind (ReadField reader field) (\<lambda>(v, reader).
       case v of
         JArray vs \<Rightarrow>
           r_bind (r_map (\<lambda>v. r_bind (GetBinary v field) PortFromMsgpack) vs) (\<lambda>ports. Ok (ports, reader))
       | _ \<Rightarrow> Err kInvalidArgument (field @ '' must be a list''))"

definition ActionFromMsgpack :: "string \<Rightarrow> ActionMessage result" where
  "ActionFromMsgpack bytes =
     r_bind (ReadField bytes ''ActionMessage.id'') (\<lambda>(id_value, reader).
     r_bind (JsonString id_value ''ActionMessage.id'') (\<lambda>id'.
     r_bind (ReadField reader ''ActionMessage.name'') (\<lambda>(name_value, reader).
     r_bind (JsonString name_value ''ActionMessage.name'') (\<lambda>name.
     r_bind (DecodePorts ''ActionMessage.inputs'' reader) (\<lambda>(inputs, reader).
     r_bind (DecodePorts ''ActionMessage.outputs'' reader) (\<lambda>(outputs, reader).
     r_bind (ReadField reader ''ActionMessage.headers'') (\<lambda>(headers_value, reader).
     r_bind (DecodeByteMap headers_value ''ActionMessage.headers'') (\<lambda>headers.
     r_then (EnsureFullyConsumed reader)
       (let result = \<lparr>am_id = id', am_name = name, am_inputs = inputs, am_outputs = outputs,
                      am_headers = headers\<rparr>
        in r_then (ActionValidate result) (Ok result))))))))))"

section \<open>Wire messages\<close>

definition MessageApproxBytes :: "WireMessage \<Rightarrow> nat" where
  "MessageApproxBytes m =
     8 + sum_list (map FragmentApproxBytes (wm_node_fragments m)) +
     sum_list (map ActionApproxBytes (wm_actions m)) + fields_size (wm_headers m)"

definition MessageValidate :: "WireMessage \<Rightarrow> unit result" where
  "MessageValidate m =
     r_then (r_forall FragmentValidate (wm_node_fragments m))
    (r_then (r_forall ActionValidate (wm_actions m))
            (r_forall (\<lambda>(key, _). ValidateName key) (wm_headers m)))"

definition MessageToMsgpackInto :: "time_conv \<Rightarrow> msgpack_encoder \<Rightarrow> WireMessage \<Rightarrow> string \<Rightarrow> string result" where
  "MessageToMsgpackInto tc tm m out =
     r_bind (PackList (FragmentToMsgpackInto tc tm) (wm_node_fragments m) (PackUint kVersion out)) (\<lambda>out.
     r_bind (PackList ActionToMsgpackInto (wm_actions m) out) (\<lambda>out.
     Ok (PackByteMap (wm_headers m) out)))"

definition MessageToMsgpack :: "time_conv \<Rightarrow> msgpack_encoder \<Rightarrow> WireMessage \<Rightarrow> string result" where
  "MessageToMsgpack tc tm m = r_then (MessageValidate m) (MessageToMsgpackInto tc tm m [])"

fun ReadRecords :: "(string \<Rightarrow> 'a result) \<Rightarrow> nat \<Rightarrow> string \<Rightarrow> ('a list \<times> string) result" where
  "ReadRecords decode_one 0 reader = Ok ([], reader)"
| "ReadRecords decode_one (Suc n) reader =
     r_bind (ReadBinaryView reader) (\<lambda>(encoded, reader).
     r_bind (decode_one encoded) (\<lambda>x.
     r_bind (ReadRecords decode_one n reader) (\<lambda>(xs, reader). Ok (x # xs, reader))))"

definition DecodeBinaryList :: "string \<Rightarrow> (string \<Rightarrow> 'a result) \<Rightarrow> string \<Rightarrow> ('a list \<times> string) result" where
  "DecodeBinaryList field decode_one reader =
     (case ReadArrayLength reader of
        Inl _ \<Rightarrow> Err kInvalidArgument (field @ '' must be a list'')
      | Inr (count, reader) \<Rightarrow> ReadRecords decode_one count reader)"

definition MessageFromMsgpack :: "time_conv \<Rightarrow> string \<Rightarrow> WireMessage result" where
  "MessageFromMsgpack tc bytes =
     r_bind (ReadField bytes ''WireMessage.version'') (\<lambda>(version_value, reader).
     r_bind (JsonUnsigned version_value ''WireMessage.version'') (\<lambda>version.
     r_then (r_guard (version \<noteq> kVersion) kInvalidArgument
               (''Invalid serialized WireMessage version: '' @ dec (unat version)))
     (r_bind (DecodeBinaryList ''WireMessage.node_fragments'' (FragmentFromMsgpack tc) reader) (\<lambda>(fragments, reader).
     r_bind (DecodeBinaryList ''WireMessage.actions'' ActionFromMsgpack reader) (\<lambda>(actions, reader).
     r_bind (ReadField reader ''WireMessage.headers'') (\<lambda>(headers_value, reader).
     r_bind (DecodeByteMap headers_value ''WireMessage.headers'') (\<lambda>headers.
     r_then (EnsureFullyConsumed reader)
       (let result = \<lparr>wm_node_fragments = fragments, wm_actions = actions, wm_headers = headers\<rparr>
        in r_then (MessageValidate result) (Ok result)))))))))"

definition IsHalfCloseMessage :: "WireMessage \<Rightarrow> bool" where
  "IsHalfCloseMessage m \<longleftrightarrow> wm_actions m = [] \<and> wm_node_fragments m = []"

definition MakeHalfCloseMessage :: "ByteMap \<Rightarrow> WireMessage" where
  "MakeHalfCloseMessage trailers = \<lparr>wm_node_fragments = [], wm_actions = [], wm_headers = trailers\<rparr>"

definition EmptyWireMessageSize :: "time_conv \<Rightarrow> msgpack_encoder \<Rightarrow> nat" where
  "EmptyWireMessageSize tc tm =
     (case MessageToMsgpack tc tm (MakeHalfCloseMessage []) of Inl _ \<Rightarrow> 0 | Inr encoded \<Rightarrow> length encoded)"

end
