(* ===== verification/Msgpack_Roundtrip.thy ===== *)
theory Msgpack_Roundtrip
  imports Msgpack "HOL-Library.Sublist"
begin

text \<open>
  The MessagePack writer and the decoder agree: each field the typed writer appends is read back
  as the value that was written, by the decoder, by the record reader and by the views.  A value is
  decoded from its own bytes only, whatever follows, and the scanner finds the same end.
\<close>

section \<open>Markers\<close>

lemma and_e0: "m < 256 \<Longrightarrow> (m AND 0xe0 = (0xa0::nat)) \<longleftrightarrow> 160 \<le> m \<and> m < 192"
  using and_high [of m 5 3] by (auto simp: push_bit_eq_mult mask_eq_exp_minus_1)

lemma and_f0:
  "m < 256 \<Longrightarrow> (m AND 0xf0 = (0x90::nat)) \<longleftrightarrow> 144 \<le> m \<and> m < 160"
  "m < 256 \<Longrightarrow> (m AND 0xf0 = (0x80::nat)) \<longleftrightarrow> 128 \<le> m \<and> m < 144"
  using and_high [of m 4 4] by (auto simp: push_bit_eq_mult mask_eq_exp_minus_1)

lemma and_low: "(m::nat) AND 0x1f = m mod 32" "(m::nat) AND 0x0f = m mod 16"
  using take_bit_eq_mask [of 5 m] take_bit_eq_mask [of 4 m]
  by (simp_all add: take_bit_eq_mod mask_eq_exp_minus_1)

lemma or_high:
  "n < 32 \<Longrightarrow> 0xa0 OR n = 160 + (n::nat)" "n < 16 \<Longrightarrow> 0x90 OR n = 144 + n" "n < 16 \<Longrightarrow> 0x80 OR n = 128 + n"
  using or_push [of n 5 5] or_push [of n 4 9] or_push [of n 4 8] by (simp_all add: push_bit_eq_mult)

lemma read_be [simp]:
  assumes "8 dvd LENGTH('a::len)"
  shows "ReadBigEndian (be_bytes (v :: 'a word) @ t) = Ok (v, t)"
  using assms by (simp add: ReadBigEndian_def be_value_be_bytes)

lemma read_byte [simp]: "ReadBigEndian (c # t) = Ok (byte_val c :: u8, t)"
  by (simp add: ReadBigEndian_def be_value_def)

lemma read_payload: "unat n = length p \<Longrightarrow> ReadPayload n (p @ t) = Ok (p, t)"
  by (simp add: ReadPayload_def)

lemma byte_val_char [simp]: "(byte_val (char_of (unat w)) :: u8) = w"
proof -
  have "unat w < 2 ^ 8" by (rule order_less_le_trans [OF unsigned_less]) simp
  then show ?thesis by (simp add: byte_val_def)
qed

lemma of_char_marker [simp]: "m < 256 \<Longrightarrow> of_char (char_of m) = (m :: nat)"
  by simp

lemmas marker_simps = and_e0 and_f0 and_low or_high AppendByte_def AppendBigEndian_def Let_def

lemma decode_scalar:
  assumes "d \<le> 256" and "192 \<le> m" "m < 220"
  shows "Decode d (char_of m # s) = DecodeScalar m s"
proof -
  have "m < 256" using assms by simp
  then show ?thesis
    using assms by (subst Decode.simps) (simp add: kMaxMsgpackNesting_def and_e0 and_f0)
qed

lemma decode_positive_fixint:
  assumes "d \<le> 256" and "m \<le> 127"
  shows "Decode d (char_of m # s) = Ok (JUint (word_of_nat m), s)"
  using assms by (subst Decode.simps) (simp add: kMaxMsgpackNesting_def)

lemma decode_negative_fixint:
  assumes "d \<le> 256" and "224 \<le> m" "m < 256"
  shows "Decode d (char_of m # s) = Ok (JInt (scast (word_of_nat m :: u8)), s)"
  using assms by (subst Decode.simps) (simp add: kMaxMsgpackNesting_def)

lemma unat_less64: "unat (w :: u64) < 2 ^ 64"
  by (rule order_less_le_trans [OF unsigned_less]) simp

lemma ucast_ucast_small:
  assumes "unat (v :: u64) < 2 ^ LENGTH('a::len)"
  shows "ucast (ucast v :: 'a word) = v"
proof (rule unsigned_word_eqI)
  show "unat (ucast (ucast v :: 'a word) :: u64) = unat v"
    using assms unat_less64 [of v] by (simp add: unsigned_ucast_eq unsigned_take_bit_eq take_bit_nat_eq_self)
qed

lemma decode_uint:
  assumes "d \<le> 256"
  shows "Decode d (PackUint v [] @ t) = Ok (JUint v, t)"
proof -
  consider "unat v < 128" | "128 \<le> unat v" "unat v \<le> 0xff" | "0xff < unat v" "unat v \<le> 0xffff"
    | "0xffff < unat v" "unat v \<le> 0xffffffff" | "0xffffffff < unat v"
    by linarith
  then show ?thesis
  proof cases
    case 1
    then show ?thesis using assms
      by (simp add: PackUint_def word_less_nat_alt word_le_nat_alt AppendByte_def decode_positive_fixint)
  next
    case 2
    then show ?thesis using assms
      by (simp add: PackUint_def word_less_nat_alt word_le_nat_alt AppendByte_def decode_scalar DecodeScalar_def ucast_ucast_small)
  next
    case 3
    then show ?thesis using assms
      by (simp add: PackUint_def word_less_nat_alt word_le_nat_alt AppendByte_def AppendBigEndian_def decode_scalar DecodeScalar_def ucast_ucast_small)
  next
    case 4
    then show ?thesis using assms
      by (simp add: PackUint_def word_less_nat_alt word_le_nat_alt AppendByte_def AppendBigEndian_def decode_scalar DecodeScalar_def ucast_ucast_small)
  next
    case 5
    then show ?thesis using assms
      by (simp add: PackUint_def word_less_nat_alt word_le_nat_alt AppendByte_def AppendBigEndian_def decode_scalar DecodeScalar_def)
  qed
qed

lemma sint_ucast_small:
  assumes "- (2 ^ (LENGTH('a::len) - 1)) \<le> sint (v :: u64)" and "sint v < 2 ^ (LENGTH('a) - 1)"
    and "LENGTH('a) \<le> 64"
  shows "sint (ucast v :: 'a word) = sint v"
proof -
  have "LENGTH('a) - Suc 0 \<le> 63" using assms(3) by simp
  then have "sint (ucast v :: 'a word) = signed_take_bit (LENGTH('a) - 1) (sint v)"
    by (simp add: signed_ucast_eq sint_uint [of v] min_def)
  then show ?thesis using assms by (simp add: signed_take_bit_int_eq_self)
qed

lemma scast_ucast_small:
  assumes "- (2 ^ (LENGTH('a::len) - 1)) \<le> sint (v :: u64)" and "sint v < 2 ^ (LENGTH('a) - 1)"
    and "LENGTH('a) \<le> 64"
  shows "scast (ucast v :: 'a word) = v"
proof (rule signed_word_eqI)
  have "sint (scast (ucast v :: 'a word) :: u64) = signed_take_bit 63 (sint v)"
    using sint_ucast_small [OF assms] by (simp add: signed_scast_eq)
  then show "sint (scast (ucast v :: 'a word) :: u64) = sint v" by (simp add: sint_uint)
qed

lemma unat_negative8:
  assumes "- 32 \<le> sint (w :: u8)" and "sint w < 0"
  shows "224 \<le> unat w"
proof -
  have "uint w = sint w mod 256" by (simp add: uint_sint take_bit_eq_mod)
  also have "\<dots> = (sint w + 256) mod 256" by simp
  also have "\<dots> = sint w + 256" using assms by (intro mod_pos_pos_trivial) simp_all
  finally have "224 \<le> uint w" using assms by simp
  moreover have "uint w = int (unat w)" by simp
  ultimately show ?thesis by linarith
qed

lemma unat8: "unat (w :: u8) < 256"
  by (rule order_less_le_trans [OF unsigned_less]) simp

lemma decode_negative:
  assumes "sint v < 0" and "d \<le> 256"
  shows "Decode d (PackInt v [] @ t) = Ok (JInt v, t)"
proof -
  note defs = PackInt_def AppendByte_def AppendBigEndian_def decode_scalar DecodeScalar_def
  consider "- 32 \<le> sint v" | "sint v < - 32" "- (2 ^ 7) \<le> sint v"
    | "sint v < - (2 ^ 7)" "- (2 ^ 15) \<le> sint v"
    | "sint v < - (2 ^ 15)" "- (2 ^ 31) \<le> sint v" | "sint v < - (2 ^ 31)"
    by linarith
  then show ?thesis
  proof cases
    case 1
    have "scast (ucast v :: u8) = v" using 1 assms(1) by (intro scast_ucast_small) simp_all
    moreover have "sint (ucast v :: u8) = sint v" using 1 assms(1) by (intro sint_ucast_small) simp_all
    then have "224 \<le> unat (ucast v :: u8)" using 1 assms(1) by (intro unat_negative8) simp_all
    ultimately show ?thesis using assms 1 unat8
      by (simp add: PackInt_def AppendByte_def decode_negative_fixint)
  next
    case 2
    have "scast (ucast v :: u8) = v" using 2 by (intro scast_ucast_small) simp_all
    then show ?thesis using assms 2 by (simp add: defs)
  next
    case 3
    have "scast (ucast v :: u16) = v" using 3 by (intro scast_ucast_small) simp_all
    then show ?thesis using assms 3 by (simp add: defs)
  next
    case 4
    have "scast (ucast v :: u32) = v" using 4 by (intro scast_ucast_small) simp_all
    then show ?thesis using assms 4 by (simp add: defs)
  next
    case 5
    then show ?thesis using assms by (simp add: defs)
  qed
qed

lemma decode_int:
  assumes "d \<le> 256"
  shows "\<exists>j. Decode d (PackInt v [] @ t) = Ok (j, t) \<and> is_number_integer j \<and> get_bits j = v"
proof (cases "sint v < 0")
  case True
  then show ?thesis using assms by (simp add: decode_negative)
next
  case False
  then show ?thesis using assms by (simp add: PackInt_def decode_uint)
qed

lemma unat_of_nat_small:
  "n < 2 ^ LENGTH('a::len) \<Longrightarrow> unat (word_of_nat n :: 'a word) = n"
  by (simp add: unsigned_of_nat take_bit_nat_eq_self)

lemma unat_ucast64:
  assumes "LENGTH('a::len) \<le> 64"
  shows "unat (ucast (w :: 'a word) :: u64) = unat w"
proof -
  have "unat w < 2 ^ LENGTH('a)" by (rule unsigned_less)
  also have "\<dots> \<le> 2 ^ 64" using assms by (intro power_increasing) simp_all
  finally show ?thesis by (simp add: unsigned_ucast_eq take_bit_nat_eq_self)
qed

lemma fix_counts [simp]:
  "n < 32 \<Longrightarrow> (160 + n) mod 32 = (n::nat)" "n < 16 \<Longrightarrow> (144 + n) mod 16 = n" "n < 16 \<Longrightarrow> (128 + n) mod 16 = n"
  using mod_mult_self1 [of n 5 32] mod_mult_self1 [of n 9 16] mod_mult_self1 [of n 8 16] by (simp_all add: add.commute)

lemma byte_val_of_nat [simp]: "n < 256 \<Longrightarrow> (byte_val (char_of n) :: u8) = word_of_nat n"
  by (simp add: byte_val_def)

lemma decode_string_key:
  assumes "length v < 2 ^ 32"
  shows "\<exists>c r. PackString v [] = c # r \<and> DecodeString (of_char c) (r @ t) = Ok (v, t) \<and>
    (\<forall>d \<le> 256. Decode d (c # r @ t) = Ok (JString v, t))"
proof -
  consider "length v < 32" | "32 \<le> length v" "length v \<le> 0xff" | "0xff < length v" "length v \<le> 0xffff"
    | "0xffff < length v"
    by linarith
  then show ?thesis
  proof cases
    case 1
    have "DecodeString (160 + length v) (v @ t) = Ok (v, t)"
      using 1 by (simp add: DecodeString_def ReadStringLength_def and_e0 and_low read_payload unat_of_nat_small)
    moreover have "Decode d (char_of (160 + length v) # v @ t) = Ok (JString v, t)" if "d \<le> 256" for d
      using 1 that calculation by (subst Decode.simps) (simp add: kMaxMsgpackNesting_def and_e0)
    ultimately show ?thesis using 1 by (simp add: PackString_def AppendByte_def or_high)
  next
    case 2
    have "DecodeString 0xd9 (char_of (length v) # v @ t) = Ok (v, t)"
      using 2 by (simp add: DecodeString_def ReadStringLength_def read_payload unat_ucast64 unat_of_nat_small)
    then show ?thesis using 2
      by (simp add: PackString_def AppendByte_def decode_scalar DecodeScalar_def)
  next
    case 3
    have "DecodeString 0xda (be_bytes (word_of_nat (length v) :: u16) @ v @ t) = Ok (v, t)"
      using 3 by (simp add: DecodeString_def ReadStringLength_def read_payload unat_ucast64 unat_of_nat_small)
    then show ?thesis using 3
      by (simp add: PackString_def AppendByte_def AppendBigEndian_def decode_scalar DecodeScalar_def)
  next
    case 4
    have "DecodeString 0xdb (be_bytes (word_of_nat (length v) :: u32) @ v @ t) = Ok (v, t)"
      using 4 assms by (simp add: DecodeString_def ReadStringLength_def read_payload unat_ucast64 unat_of_nat_small)
    then show ?thesis using 4
      by (simp add: PackString_def AppendByte_def AppendBigEndian_def decode_scalar DecodeScalar_def)
  qed
qed

lemma read_unsigned_be:
  assumes "8 dvd LENGTH('a::len)" and "LENGTH('a) \<le> 64" and "w = LENGTH('a) div 8"
  shows "ReadUnsigned w (be_bytes (v :: 'a word) @ t) = Ok (ucast v, t)"
proof -
  have "unat (be_value (be_bytes v) :: u64) = unat (ucast v :: u64)"
    using assms(1,2) by (simp add: be_value_zero_extends unat_ucast64)
  then have "(be_value (be_bytes v) :: u64) = ucast v" by (rule unsigned_word_eqI)
  then show ?thesis using assms by (simp add: ReadUnsigned_def)
qed

lemma read_unsigned_byte: "n < 256 \<Longrightarrow> ReadUnsigned 1 (char_of n # t) = Ok (word_of_nat n, t)"
  by (simp add: ReadUnsigned_def be_value_def byte_val_def)

lemma decode_binary:
  assumes "length v < 2 ^ 32"
  shows "d \<le> 256 \<Longrightarrow> Decode d (PackBinary v [] @ t) = Ok (JBinary v None, t)"
    and "ReadBinaryView (PackBinary v [] @ t) = Ok (v, t)"
proof -
  consider "length v \<le> 0xff" | "0xff < length v" "length v \<le> 0xffff" | "0xffff < length v"
    by linarith
  then have "(d \<le> 256 \<longrightarrow> Decode d (PackBinary v [] @ t) = Ok (JBinary v None, t)) \<and>
      ReadBinaryView (PackBinary v [] @ t) = Ok (v, t)"
  proof cases
    case 1
    then show ?thesis
      by (simp add: PackBinary_def AppendByte_def decode_scalar DecodeScalar_def DecodeBinary_def ReadBinaryHeader_def
          read_payload unat_ucast64 unat_of_nat_small ReadBinaryView_def read_unsigned_byte [simplified] Advance_def)
  next
    case 2
    then show ?thesis
      by (simp add: PackBinary_def AppendByte_def AppendBigEndian_def decode_scalar DecodeScalar_def DecodeBinary_def ReadBinaryHeader_def
          read_payload unat_ucast64 unat_of_nat_small ReadBinaryView_def read_unsigned_be Advance_def)
  next
    case 3
    then show ?thesis using assms
      by (simp add: PackBinary_def AppendByte_def AppendBigEndian_def decode_scalar DecodeScalar_def DecodeBinary_def ReadBinaryHeader_def
          read_payload unat_ucast64 unat_of_nat_small ReadBinaryView_def read_unsigned_be Advance_def)
  qed
  then show "d \<le> 256 \<Longrightarrow> Decode d (PackBinary v [] @ t) = Ok (JBinary v None, t)"
    and "ReadBinaryView (PackBinary v [] @ t) = Ok (v, t)" by simp_all
qed

lemma decode_nil: "d \<le> 256 \<Longrightarrow> Decode d (PackNil [] @ t) = Ok (JNull, t)"
  by (simp add: PackNil_def AppendByte_def decode_scalar DecodeScalar_def)

lemma decode_bool: "d \<le> 256 \<Longrightarrow> Decode d (PackBool b [] @ t) = Ok (JBool b, t)"
  by (simp add: PackBool_def AppendByte_def decode_scalar DecodeScalar_def)

lemma array_header:
  assumes "n < 2 ^ 32"
  shows "d \<le> 256 \<Longrightarrow> Decode d (PackArrayHeader n [] @ t) =
      r_bind (DecodeArray n d t) (\<lambda>(vs, s). Ok (JArray vs, s))"
    and "ReadArrayLength (PackArrayHeader n [] @ t) = Ok (n, t)"
proof -
  consider "n < 16" | "16 \<le> n" "n \<le> 0xffff" | "0xffff < n"
    by linarith
  then have "(d \<le> 256 \<longrightarrow> Decode d (PackArrayHeader n [] @ t) =
        r_bind (DecodeArray n d t) (\<lambda>(vs, s). Ok (JArray vs, s))) \<and>
      ReadArrayLength (PackArrayHeader n [] @ t) = Ok (n, t)"
  proof cases
    case 1
    then show ?thesis
      by (auto simp: PackArrayHeader_def AppendByte_def or_high and_low and_e0 and_f0 ReadArrayLength_def
          Decode.simps kMaxMsgpackNesting_def)
  next
    case 2
    then show ?thesis
      by (auto simp: PackArrayHeader_def AppendByte_def AppendBigEndian_def ReadArrayLength_def
          Decode.simps kMaxMsgpackNesting_def read_unsigned_be unat_of_nat_small unat_ucast64)
  next
    case 3
    then show ?thesis using assms
      by (auto simp: PackArrayHeader_def AppendByte_def AppendBigEndian_def ReadArrayLength_def
          Decode.simps kMaxMsgpackNesting_def read_unsigned_be unat_of_nat_small unat_ucast64)
  qed
  then show "d \<le> 256 \<Longrightarrow> Decode d (PackArrayHeader n [] @ t) =
        r_bind (DecodeArray n d t) (\<lambda>(vs, s). Ok (JArray vs, s))"
    and "ReadArrayLength (PackArrayHeader n [] @ t) = Ok (n, t)" by simp_all
qed

lemma map_header:
  assumes "n < 2 ^ 32" and "d \<le> 256"
  shows "Decode d (PackMapHeader n [] @ t) =
      r_bind (DecodeObject n d [] t) (\<lambda>(vs, s). Ok (JObject vs, s))"
proof -
  consider "n < 16" | "16 \<le> n" "n \<le> 0xffff" | "0xffff < n"
    by linarith
  then show ?thesis
  proof cases
    case 1
    then show ?thesis using assms
      by (auto simp: PackMapHeader_def AppendByte_def or_high and_low and_e0 and_f0
          Decode.simps kMaxMsgpackNesting_def)
  next
    case 2
    then show ?thesis using assms
      by (auto simp: PackMapHeader_def AppendByte_def AppendBigEndian_def
          Decode.simps kMaxMsgpackNesting_def unat_of_nat_small)
  next
    case 3
    then show ?thesis using assms
      by (auto simp: PackMapHeader_def AppendByte_def AppendBigEndian_def
          Decode.simps kMaxMsgpackNesting_def unat_of_nat_small)
  qed
qed

section \<open>A value is decoded from its own bytes\<close>

definition prefix_parser :: "(string \<Rightarrow> ('a \<times> string) result) \<Rightarrow> bool" where
  "prefix_parser f \<longleftrightarrow>
     (\<forall>s v r. f s = Ok (v, r) \<longrightarrow> (\<exists>p. s = p @ r \<and> (\<forall>t. f (p @ t) = Ok (v, t))))"

named_theorems prefix_intros

lemma prefix_return [prefix_intros]: "prefix_parser (\<lambda>s. Ok (v, s))"
  by (simp add: prefix_parser_def)

lemma prefix_error [prefix_intros]: "prefix_parser (\<lambda>s. Inl e)"
  by (simp add: prefix_parser_def)

lemma prefix_if [prefix_intros]:
  "prefix_parser f \<Longrightarrow> prefix_parser g \<Longrightarrow> prefix_parser (\<lambda>s. if b then f s else g s)"
  by (cases b) simp_all

lemma prefix_bind [prefix_intros]:
  assumes f: "prefix_parser f" and g: "\<And>x. prefix_parser (g x)"
  shows "prefix_parser (\<lambda>s. r_bind (f s) (\<lambda>(x, s). g x s))"
  unfolding prefix_parser_def
proof (intro allI impI)
  fix s v r assume "r_bind (f s) (\<lambda>(x, s). g x s) = Ok (v, r)"
  then obtain x s1 where 1: "f s = Ok (x, s1)" and 2: "g x s1 = Ok (v, r)"
    by (auto simp: ok_iff)
  obtain p where p: "s = p @ s1" "\<And>t. f (p @ t) = Ok (x, t)"
    using f 1 unfolding prefix_parser_def by blast
  obtain q where q: "s1 = q @ r" "\<And>t. g x (q @ t) = Ok (v, t)"
    using g 2 unfolding prefix_parser_def by blast
  have "s = (p @ q) @ r \<and> (\<forall>t. r_bind (f ((p @ q) @ t)) (\<lambda>(x, s). g x s) = Ok (v, t))"
    using p q by simp
  then show "\<exists>p. s = p @ r \<and> (\<forall>t. r_bind (f (p @ t)) (\<lambda>(x, s). g x s) = Ok (v, t))"
    by (rule exI)
qed

lemma prefix_head [prefix_intros]:
  assumes "\<And>c. prefix_parser (f c)"
  shows "prefix_parser (\<lambda>s. case s of [] \<Rightarrow> Inl e | c # s \<Rightarrow> f c s)"
  unfolding prefix_parser_def
proof (intro allI impI)
  fix s v r assume "(case s of [] \<Rightarrow> Inl e | c # s \<Rightarrow> f c s) = Ok (v, r)"
  then obtain c s1 where s: "s = c # s1" and 1: "f c s1 = Ok (v, r)" by (cases s) simp_all
  obtain p where "s1 = p @ r" "\<And>t. f c (p @ t) = Ok (v, t)"
    using assms 1 unfolding prefix_parser_def by blast
  then have "s = (c # p) @ r \<and> (\<forall>t. (case (c # p) @ t of [] \<Rightarrow> Inl e | c # s \<Rightarrow> f c s) = Ok (v, t))"
    using s by simp
  then show "\<exists>p. s = p @ r \<and> (\<forall>t. (case p @ t of [] \<Rightarrow> Inl e | c # s \<Rightarrow> f c s) = Ok (v, t))"
    by (rule exI)
qed

lemma prefix_take:
  assumes "\<And>s. f s = (if n > length s then Inl e else Ok (g (take n s), drop n s))"
  shows "prefix_parser f"
  unfolding prefix_parser_def
proof (intro allI impI)
  fix s v r assume "f s = Ok (v, r)"
  then have "s = take n s @ r \<and> (\<forall>t. f (take n s @ t) = Ok (v, t))"
    by (auto simp: assms min_def split: if_splits)
  then show "\<exists>p. s = p @ r \<and> (\<forall>t. f (p @ t) = Ok (v, t))" by (rule exI)
qed

lemma prefix_ReadBigEndian [prefix_intros]: "prefix_parser ReadBigEndian"
  by (rule prefix_take) (simp add: ReadBigEndian_def Let_def)

lemma prefix_ReadPayload [prefix_intros]: "prefix_parser (ReadPayload n)"
  by (rule prefix_take [where g = "\<lambda>x. x"]) (simp add: ReadPayload_def)

lemma prefix_DecodeString [prefix_intros]: "prefix_parser (DecodeString m)"
  unfolding DecodeString_def ReadStringLength_def if_distrib [where f = "\<lambda>x. r_bind x _"]
  by (intro prefix_intros)

lemma prefix_DecodeBinary [prefix_intros]: "prefix_parser (DecodeBinary m)"
proof -
  have "prefix_parser (ReadBinaryHeader m)"
    unfolding ReadBinaryHeader_def Let_def by (intro prefix_intros)
  moreover have "prefix_parser (\<lambda>s. if b then
         r_bind (ReadBigEndian s :: (u8 \<times> string) result) (\<lambda>(subtype, s).
           r_bind (ReadPayload len s) (\<lambda>(p, s). Ok (JBinary p (Some subtype), s)))
       else r_bind (ReadPayload len s) (\<lambda>(p, s). Ok (JBinary p None, s)))" for b len
    by (intro prefix_intros)
  ultimately show ?thesis
    unfolding DecodeBinary_def using prefix_bind [of "ReadBinaryHeader m" "\<lambda>(len, b) s. if b then
         r_bind (ReadBigEndian s :: (u8 \<times> string) result) (\<lambda>(subtype, s).
           r_bind (ReadPayload len s) (\<lambda>(p, s). Ok (JBinary p (Some subtype), s)))
       else r_bind (ReadPayload len s) (\<lambda>(p, s). Ok (JBinary p None, s))"]
    by (simp add: case_prod_unfold)
qed

lemma prefix_DecodeScalar [prefix_intros]: "prefix_parser (DecodeScalar m)"
  unfolding DecodeScalar_def by (intro prefix_intros)

lemma prefix_DecodeArray [prefix_intros]:
  assumes "prefix_parser (Decode (Suc d))"
  shows "prefix_parser (DecodeArray n d)"
proof (induction n)
  case 0
  then show ?case by (simp add: DecodeArray.simps prefix_parser_def)
next
  case (Suc n)
  show ?case
    by (subst DecodeArray.simps) (auto intro!: prefix_intros assms Suc)
qed

lemma prefix_DecodeObject [prefix_intros]:
  assumes "prefix_parser (Decode (Suc d))"
  shows "prefix_parser (DecodeObject n d acc)"
proof (induction n arbitrary: acc)
  case 0
  then show ?case by (simp add: DecodeObject.simps prefix_parser_def)
next
  case (Suc n)
  show ?case
    by (subst DecodeObject.simps) (auto intro!: prefix_intros assms Suc)
qed

theorem prefix_Decode: "prefix_parser (Decode d)"
proof (induction "257 - d" arbitrary: d)
  case 0
  then show ?case by (simp add: prefix_parser_def Decode.simps kMaxMsgpackNesting_def)
next
  case (Suc k)
  then have nested: "prefix_parser (Decode (Suc d))" by simp
  show ?case
    unfolding Decode.simps [abs_def] Let_def by (intro prefix_intros nested)
qed


section \<open>The scanner finds the end the decoder finds\<close>

lemma read_be_ok: "ReadBigEndian s = Ok (v :: 'a::len word, r) \<longleftrightarrow>
    LENGTH('a) div 8 \<le> length s \<and> v = be_value (take (LENGTH('a) div 8) s) \<and> r = drop (LENGTH('a) div 8) s"
  by (auto simp: ReadBigEndian_def Let_def)

lemma read_payload_ok: "ReadPayload n s = Ok (p, r) \<longleftrightarrow>
    unat n \<le> length s \<and> p = take (unat n) s \<and> r = drop (unat n) s"
  by (auto simp: ReadPayload_def)

lemma unat_be_widen:
  assumes "8 * length bs \<le> LENGTH('a::len)" and "LENGTH('a) \<le> 64"
  shows "unat (ucast (be_value bs :: 'a word) :: u64) = unat (be_value bs :: u64)"
  using assms by (simp add: unat_ucast64 unat_be_value)

lemma scan_trivial:
  assumes "of_char c \<le> (0x7f::nat) \<or> of_char c \<ge> (0xe0::nat) \<or> of_char c \<in> {0xc0, 0xc2, 0xc3::nat}" and "d \<le> 256"
  shows "ScanValue d (c # s) = Ok s"
proof -
  let ?m = "of_char c :: nat"
  have m: "?m < 256" by simp
  have "\<not> is_sized ?m" "\<not> is_container ?m"
    using assms(1) by (auto simp: is_sized_def is_container_def and_f0 [OF m])
  then have "ScanValue d (c # s) = SkipValue d (c # s)" by (subst ScanValue.simps) simp
  also have "\<dots> = Ok s" using assms by (subst SkipValue.simps) (auto simp: kMaxNesting_def)
  finally show ?thesis .
qed

lemma scan_flat:
  assumes "of_char c = m" and "192 \<le> m" "m < 220" "\<not> is_sized m" "m \<notin> {0xc0, 0xc2, 0xc3}" and "d \<le> 256"
  shows "ScanValue d (c # s) = SkipFlat m s"
proof -
  have m: "m < 256" using assms by simp
  have "\<not> is_container m" using assms(2,3) by (auto simp: is_container_def and_f0 [OF m])
  then have "ScanValue d (c # s) = SkipValue d (c # s)" using assms by (subst ScanValue.simps) simp
  also have "\<dots> = SkipFlat m s"
    using assms by (subst SkipValue.simps) (simp add: kMaxNesting_def and_e0 [OF m] and_f0 [OF m])
  finally show ?thesis .
qed

lemma scan_sized:
  assumes "of_char c = m" and "is_sized m"
  shows "ScanValue d (c # s) =
    r_bind (ReadUnsigned (if m = 0xc4 \<or> m = 0xd9 then 1 else if m = 0xc5 \<or> m = 0xda then 2 else 4) s)
      (\<lambda>(len, s). Advance (unat len) s)"
  using assms by (subst ScanValue.simps) simp

lemma scan_fixstr:
  assumes "of_char c = m" and "160 \<le> m" "m < 192" and "d \<le> 256"
  shows "ScanValue d (c # s) = Advance (m mod 32) s"
proof -
  have m: "m < 256" using assms by simp
  have "\<not> is_container m" "\<not> is_sized m" using assms(2,3) by (auto simp: is_container_def is_sized_def and_f0 [OF m])
  then have "ScanValue d (c # s) = SkipValue d (c # s)" using assms by (subst ScanValue.simps) simp
  also have "\<dots> = Advance (m mod 32) s"
    using assms by (subst SkipValue.simps) (simp add: kMaxNesting_def and_e0 [OF m] and_low)
  finally show ?thesis .
qed

lemma scan_string:
  assumes "DecodeString (of_char c) s = Ok (v, r)" and "d \<le> 256"
  shows "ScanValue d (c # s) = Ok r"
proof -
  let ?m = "of_char c :: nat"
  have m: "?m < 256" by simp
  consider (fixstr) "160 \<le> ?m" "?m < 192" | (sized) "?m \<in> {0xd9, 0xda, 0xdb}"
    using assms(1) m by (auto simp: DecodeString_def ReadStringLength_def and_e0 split: if_splits)
  then show ?thesis
  proof cases
    case fixstr
    have "?m mod 32 < 32" by simp
    then have "?m mod 32 < 2 ^ 64" by simp
    then show ?thesis
      using assms(1) m fixstr scan_fixstr [OF refl fixstr assms(2)]
      by (simp add: and_e0 and_low DecodeString_def ReadStringLength_def read_payload_ok unat_of_nat_small Advance_def)
  next
    case sized
    then have sz: "is_sized ?m" by (auto simp: is_sized_def)
    show ?thesis
      using sized assms(1) scan_sized [OF refl sz]
      by (elim insertE emptyE) (auto simp: DecodeString_def ReadStringLength_def read_payload_ok read_be_ok
          ok_iff unat_be_widen ReadUnsigned_def Advance_def)
  qed
qed

lemma be_value_small:
  assumes "length bs \<le> 4"
  shows "unat (be_value bs :: u64) < 2 ^ 32"
proof -
  have "unat (be_value bs :: u64) < 256 ^ length bs"
    using assms be_nat_less [of bs] by (simp add: unat_be_value)
  also have "\<dots> \<le> 256 ^ 4" using assms by (intro power_increasing) simp_all
  finally show ?thesis by simp
qed

lemma skip_ext:
  assumes "m \<in> {0xc7, 0xc8, 0xc9}" and "w = (if m = 0xc7 then 1 else if m = 0xc8 then 2 else 4)"
    and "w \<le> length s" and "unat (be_value (take w s) :: u64) + w < length s"
  shows "SkipFlat m s = Ok (drop (Suc (unat (be_value (take w s) :: u64) + w)) s)"
proof -
  have "unat (be_value (take w s) :: u64) < 2 ^ 32" using assms(2) by (intro be_value_small) (simp split: if_splits)
  then have "SkipFlat m s = r_bind (ReadUnsigned w s) (\<lambda>(len, s). Advance (unat len + 1) s)"
    using assms(1-3) by (elim insertE emptyE) (simp_all add: SkipFlat_def fixed_width_def ReadUnsigned_def)
  then show ?thesis
    using assms(3,4) by (simp add: ReadUnsigned_def Advance_def)
qed

lemma scan_binary:
  assumes "DecodeBinary (of_char c) s = Ok (v, r)" and "d \<le> 256"
  shows "ScanValue d (c # s) = Ok r"
proof -
  let ?m = "of_char c :: nat"
  note defs = DecodeBinary_def ReadBinaryHeader_def Let_def read_payload_ok read_be_ok ok_iff unat_be_widen
    ReadUnsigned_def Advance_def
  consider (sized) "?m \<in> {0xc4, 0xc5, 0xc6}" | (ext) "?m \<in> {0xc7, 0xc8, 0xc9}"
    | (fixext) "?m \<in> {0xd4, 0xd5, 0xd6, 0xd7, 0xd8}"
    using assms(1) by (auto simp: DecodeBinary_def ReadBinaryHeader_def Let_def split: if_splits)
  then show ?thesis
  proof cases
    case sized
    then have sz: "is_sized ?m" by (auto simp: is_sized_def)
    show ?thesis
      using sized assms(1) scan_sized [OF refl sz] by (elim insertE emptyE) (auto simp: defs)
  next
    case ext
    then have fl: "192 \<le> ?m" "?m < 220" "\<not> is_sized ?m" "?m \<notin> {0xc0, 0xc2, 0xc3}" by (auto simp: is_sized_def)
    show ?thesis
      using ext assms(1) scan_flat [OF refl fl assms(2)] skip_ext [OF ext refl]
      by (elim insertE emptyE) (auto simp: defs add.commute)
  next
    case fixext
    then have fl: "192 \<le> ?m" "?m < 220" "\<not> is_sized ?m" "?m \<notin> {0xc0, 0xc2, 0xc3}" by (auto simp: is_sized_def)
    show ?thesis
      using fixext assms(1) scan_flat [OF refl fl assms(2)]
      by (elim insertE emptyE) (auto simp: defs SkipFlat_def fixed_width_def simp flip: numeral_2_eq_2)
  qed
qed

lemma scan_scalar:
  assumes "DecodeScalar (of_char c) s = Ok (v, r)" and "d \<le> 256"
  shows "ScanValue d (c # s) = Ok r"
proof -
  let ?m = "of_char c :: nat"
  consider (bin) "DecodeBinary ?m s = Ok (v, r)" | (str) t where "DecodeString ?m s = Ok (t, r)"
    | (nil) "?m \<in> {0xc0, 0xc2, 0xc3}" "r = s"
    | (num) "?m \<in> {0xca, 0xcb, 0xcc, 0xcd, 0xce, 0xcf, 0xd0, 0xd1, 0xd2, 0xd3}"
    using assms(1) by (auto simp: DecodeScalar_def ok_iff split: if_splits)
  then show ?thesis
  proof cases
    case bin
    then show ?thesis using assms(2) by (rule scan_binary)
  next
    case str
    then show ?thesis using assms(2) by (rule scan_string)
  next
    case nil
    then show ?thesis using assms(2) scan_trivial by blast
  next
    case num
    then have fl: "192 \<le> ?m" "?m < 220" "\<not> is_sized ?m" "?m \<notin> {0xc0, 0xc2, 0xc3}" by (auto simp: is_sized_def)
    show ?thesis
      using num assms(1) scan_flat [OF refl fl assms(2)]
      by (elim insertE emptyE)
        (auto simp: DecodeScalar_def read_be_ok ok_iff SkipFlat_def fixed_width_def Advance_def)
  qed
qed


lemma scan_container:
  assumes "is_container (of_char c)" and "d \<le> 256"
  shows "ScanValue d (c # s) = r_bind (container_count (of_char c) s) (\<lambda>(n, s). ScanValues n d s)"
proof -
  have m: "(of_char c :: nat) < 256" by simp
  have "\<not> is_sized (of_char c)"
    using assms(1) by (auto simp: is_container_def is_sized_def and_f0 [OF m])
  then show ?thesis using assms by (subst ScanValue.simps) (simp add: kMaxNesting_def)
qed

lemma read_unsigned_ok:
  assumes "ReadBigEndian s = Ok (n :: 'a::len word, r)" and "8 dvd LENGTH('a)" and "LENGTH('a) \<le> 64"
  shows "ReadUnsigned (LENGTH('a) div 8) s = Ok (ucast n, r)"
proof -
  let ?w = "LENGTH('a) div 8"
  have r: "?w \<le> length s" "n = be_value (take ?w s)" "r = drop ?w s"
    using assms(1) by (simp_all add: read_be_ok)
  then have "unat (ucast n :: u64) = unat (be_value (take ?w s) :: u64)"
    using assms(2,3) by (simp add: unat_be_widen)
  then have "ucast n = (be_value (take ?w s) :: u64)" by (rule unsigned_word_eqI)
  then show ?thesis using r by (simp add: ReadUnsigned_def)
qed

lemma container_count_be:
  assumes "ReadBigEndian s = Ok (n :: 'a::len word, r)" and "LENGTH('a) = 16 \<or> LENGTH('a) = 32"
    and "m \<in> (if LENGTH('a) = 16 then {0xdc, 0xde} else {0xdd, 0xdf})"
  shows "is_container m" and "container_count m s = Ok (if m \<ge> 0xde then 2 * unat n else unat n, r)"
proof -
  show "is_container m" using assms(3) by (auto simp: is_container_def split: if_splits)
  have "unat n < 2 ^ LENGTH('a)" by (rule unsigned_less)
  also have "\<dots> \<le> 2 ^ 32" using assms(2) by auto
  finally have "\<not> 2 ^ 63 \<le> unat n" by simp
  moreover have "ReadUnsigned (LENGTH('a) div 8) s = Ok (ucast n, r)"
    using assms(1,2) by (intro read_unsigned_ok) auto
  moreover have "\<not> m < 160" "m < 256" using assms(3) by (auto split: if_splits)
  ultimately show "container_count m s = Ok (if m \<ge> 0xde then 2 * unat n else unat n, r)"
    using assms(2,3)
    by (auto simp: container_count_def item_count_def unat_ucast64 and_f0 split: if_splits)
qed

lemma decode_cases [consumes 1, case_names small str arr obj scalar]:
  assumes "Decode d (c # s) = Ok (v, r)"
  obtains "d \<le> 256" "of_char c \<le> (0x7f::nat) \<or> of_char c \<ge> (0xe0::nat)" "r = s"
  | t where "d \<le> 256" "DecodeString (of_char c) s = Ok (t, r)"
  | n s' vs where "d \<le> 256" "is_container (of_char c)" "container_count (of_char c) s = Ok (n, s')"
      "DecodeArray n d s' = Ok (vs, r)"
  | n s' vs where "d \<le> 256" "is_container (of_char c)" "container_count (of_char c) s = Ok (2 * n, s')"
      "DecodeObject n d [] s' = Ok (vs, r)"
  | "d \<le> 256" "DecodeScalar (of_char c) s = Ok (v, r)"
proof -
  let ?m = "of_char c :: nat"
  have m: "?m < 256" by simp
  have d: "d \<le> 256" using assms by (subst (asm) Decode.simps) (simp add: kMaxMsgpackNesting_def split: if_splits)
  note step = assms [unfolded Decode.simps [of d]]
  consider (small) "?m \<le> 127 \<or> ?m \<ge> 224" | (str) "160 \<le> ?m" "?m < 192" | (fixarr) "144 \<le> ?m" "?m < 160"
    | (fixmap) "128 \<le> ?m" "?m < 144" | (arr) "?m = 0xdc \<or> ?m = 0xdd" | (map) "?m = 0xde \<or> ?m = 0xdf"
    | (flat) "192 \<le> ?m" "?m < 220"
    by linarith
  then show thesis
  proof cases
    case small
    then show thesis using step d that(1) by (auto simp: kMaxMsgpackNesting_def)
  next
    case str
    then show thesis using step d that(2) by (auto simp: kMaxMsgpackNesting_def and_e0 [OF m] ok_iff)
  next
    case fixarr
    then have "is_container ?m" "container_count ?m s = Ok (?m AND 15, s)"
      by (simp_all add: is_container_def container_count_def item_count_def and_f0 [OF m])
    then show thesis using fixarr step d that(3)
      by (auto simp: kMaxMsgpackNesting_def and_e0 [OF m] and_f0 [OF m] ok_iff)
  next
    case fixmap
    have "?m mod 16 < 16" by simp
    then have "\<not> 9223372036854775807 < ?m mod 16" by simp
    then have "is_container ?m" "container_count ?m s = Ok (2 * (?m AND 15), s)"
      using fixmap by (simp_all add: is_container_def container_count_def item_count_def and_f0 [OF m] and_low)
    then show thesis using fixmap step d that(4)
      by (auto simp: kMaxMsgpackNesting_def and_e0 [OF m] and_f0 [OF m] ok_iff)
  next
    case arr
    then show thesis using step d that(3) container_count_be [where s = s and m = ?m and ?'a = 16]
        container_count_be [where s = s and m = ?m and ?'a = 32]
      by (auto simp: kMaxMsgpackNesting_def ok_iff)
  next
    case map
    then show thesis using step d that(4) container_count_be [where s = s and m = ?m and ?'a = 16]
        container_count_be [where s = s and m = ?m and ?'a = 32]
      by (auto simp: kMaxMsgpackNesting_def ok_iff)
  next
    case flat
    then show thesis using step d that(5)
      by (auto simp: kMaxMsgpackNesting_def and_e0 [OF m] and_f0 [OF m])
  qed
qed

lemma scan_values_0 [simp]: "ScanValues 0 d s = Ok s"
  by (simp add: ScanValues.simps)

lemma scan_values_Suc [simp]: "ScanValues (Suc n) d s = r_bind (ScanValue (Suc d) s) (ScanValues n d)"
  by (simp add: ScanValues.simps)

lemma scan_array:
  assumes "\<And>s v r. Decode (Suc d) s = Ok (v, r) \<Longrightarrow> ScanValue (Suc d) s = Ok r"
  shows "DecodeArray n d s = Ok (vs, r) \<Longrightarrow> ScanValues n d s = Ok r"
proof (induction n arbitrary: s vs)
  case 0
  then show ?case by (simp add: DecodeArray.simps)
next
  case (Suc n)
  from Suc.prems obtain v s1 vs' where "Decode (Suc d) s = Ok (v, s1)" "DecodeArray n d s1 = Ok (vs', r)"
    by (subst (asm) DecodeArray.simps) (auto simp: ok_iff)
  then show ?case using assms Suc.IH by simp
qed

lemma scan_object:
  assumes "\<And>s v r. Decode (Suc d) s = Ok (v, r) \<Longrightarrow> ScanValue (Suc d) s = Ok r"
  shows "DecodeObject n d acc s = Ok (vs, r) \<Longrightarrow> ScanValues (2 * n) d s = Ok r"
proof (induction n arbitrary: s acc)
  case 0
  then show ?case by (simp add: DecodeObject.simps)
next
  case (Suc n)
  from Suc.prems obtain c s0 key s1 v s2 where s: "s = c # s0"
      and key: "DecodeString (of_char c) s0 = Ok (key, s1)" and v: "Decode (Suc d) s1 = Ok (v, s2)"
      and rest: "DecodeObject n d (obj_put key v acc) s2 = Ok (vs, r)"
    by (subst (asm) DecodeObject.simps) (auto simp: ok_iff split: list.splits)
  have "Suc d \<le> 256" using v by (subst (asm) Decode.simps) (simp add: kMaxMsgpackNesting_def split: if_splits)
  then have "ScanValue (Suc d) s = Ok s1" using scan_string [OF key] s by simp
  then show ?case using assms [OF v] Suc.IH [OF rest] by simp
qed

theorem scan_agrees_decode: "Decode d s = Ok (v, r) \<Longrightarrow> ScanValue d s = Ok r"
proof (induction "257 - d" arbitrary: d s v r)
  case 0
  then show ?case by (subst (asm) Decode.simps) (simp add: kMaxMsgpackNesting_def)
next
  case (Suc k)
  have nested: "Decode (Suc d) s = Ok (v, r) \<Longrightarrow> ScanValue (Suc d) s = Ok r" for s v r
    using Suc.hyps by simp
  obtain c s' where s: "s = c # s'"
    using Suc.prems by (subst (asm) Decode.simps) (auto split: list.splits if_splits)
  have "Decode d (c # s') = Ok (v, r)" using Suc.prems s by simp
  then have "ScanValue d (c # s') = Ok r"
  proof (cases rule: decode_cases)
    case small
    then show ?thesis using scan_trivial by blast
  next
    case str
    then show ?thesis using scan_string by blast
  next
    case (arr n s' vs)
    then show ?thesis using scan_array [OF nested] by (simp add: scan_container)
  next
    case (obj n s' vs)
    then show ?thesis using scan_object [OF nested] by (simp add: scan_container)
  next
    case scalar
    then show ?thesis using scan_scalar by blast
  qed
  then show ?case using s by simp
qed


section \<open>The record reader\<close>

definition skips :: "(string \<Rightarrow> string result) \<Rightarrow> bool" where
  "skips f \<longleftrightarrow> (\<forall>s r. f s = Ok r \<longrightarrow> suffix r s)"

lemma skipsD: "skips f \<Longrightarrow> f s = Ok r \<Longrightarrow> suffix r s"
  by (simp add: skips_def)

named_theorems skips_intros

lemma skips_basic [skips_intros]:
  "skips Ok" "skips (\<lambda>s. Inl e)" "skips f \<Longrightarrow> skips g \<Longrightarrow> skips (\<lambda>s. if b then f s else g s)"
  "(\<And>x. skips (h x)) \<Longrightarrow> skips (\<lambda>s. r_bind m (\<lambda>x. h x s))"
  by (auto simp: skips_def ok_iff)

lemma skips_Advance [skips_intros]: "skips (Advance n)"
  by (auto simp: skips_def Advance_def suffix_drop split: if_splits)

lemma skips_then [skips_intros]: "skips f \<Longrightarrow> skips g \<Longrightarrow> skips (\<lambda>s. r_bind (f s) g)"
  unfolding skips_def
proof (intro allI impI)
  fix s r assume f: "\<forall>s r. f s = Ok r \<longrightarrow> suffix r s" and g: "\<forall>s r. g s = Ok r \<longrightarrow> suffix r s"
    and "r_bind (f s) g = Ok r"
  then obtain x where "f s = Ok x" "g x = Ok r" by (auto simp: ok_iff)
  then have "suffix r x" "suffix x s" using f g by simp_all
  then show "suffix r s" by (rule suffix_order.trans)
qed

lemma skips_ReadUnsigned [skips_intros]:
  assumes "\<And>x. skips (g x)"
  shows "skips (\<lambda>s. r_bind (ReadUnsigned n s) (\<lambda>(x, s). g x s))"
  unfolding skips_def
proof (intro allI impI)
  fix s r assume "r_bind (ReadUnsigned n s) (\<lambda>(x, s). g x s) = Ok r"
  then obtain x where "g x (drop n s) = Ok r" by (auto simp: ReadUnsigned_def split: if_splits)
  then have "suffix r (drop n s)" by (rule skipsD [OF assms])
  then show "suffix r s" using suffix_drop by (rule suffix_order.trans)
qed

lemma skips_head [skips_intros]:
  assumes "\<And>c. skips (f c)"
  shows "skips (\<lambda>s. case s of [] \<Rightarrow> Inl e | c # s \<Rightarrow> f c s)"
  using assms by (auto simp: skips_def suffix_ConsI split: list.splits)

lemma skips_SkipFlat [skips_intros]: "skips (SkipFlat m)"
  unfolding SkipFlat_def by (intro skips_intros)

lemma skips_SkipValues [skips_intros]: "skips (SkipValue (Suc d)) \<Longrightarrow> skips (SkipValues n d)"
proof (induction n)
  case (Suc n)
  then show ?case by (subst SkipValues.simps) (auto intro!: skips_intros)
qed (simp add: SkipValues.simps skips_def)

lemma skips_SkipValue: "skips (SkipValue d)"
proof (induction "257 - d" arbitrary: d)
  case 0
  then show ?case by (simp add: skips_def SkipValue.simps kMaxNesting_def)
next
  case (Suc k)
  then have nested: "skips (SkipValue (Suc d))" by simp
  show ?case
    unfolding SkipValue.simps [abs_def] Let_def by (intro skips_intros nested)
qed

lemma skips_ScanValues [skips_intros]: "skips (ScanValue (Suc d)) \<Longrightarrow> skips (ScanValues n d)"
proof (induction n)
  case (Suc n)
  then show ?case by (subst ScanValues.simps) (auto intro!: skips_intros)
qed (simp add: skips_def)

lemma suffix_container: "container_count m s = Ok (n, r) \<Longrightarrow> suffix r s"
  by (auto simp: container_count_def ReadUnsigned_def ok_iff suffix_drop split: if_splits)

lemma skips_ScanValue: "skips (ScanValue d)"
proof (induction "257 - d" arbitrary: d rule: less_induct)
  case less
  show ?case unfolding skips_def
  proof (intro allI impI)
    fix s r assume ok: "ScanValue d s = Ok r"
    then obtain c s' where s: "s = c # s'" by (subst (asm) ScanValue.simps) (auto split: list.splits)
    consider (sized) "is_sized (of_char c)" | (container) "\<not> is_sized (of_char c)" "is_container (of_char c)"
      | (flat) "\<not> is_sized (of_char c)" "\<not> is_container (of_char c)" by blast
    then show "suffix r s"
    proof cases
      case sized
      have "skips (\<lambda>s. r_bind (ReadUnsigned w s) (\<lambda>(len, s). Advance (unat len) s))" for w
        by (intro skips_intros)
      then have "suffix r s'"
        by (rule skipsD) (rule ok [unfolded s scan_sized [OF refl sized]])
      then show ?thesis using s by (simp add: suffix_ConsI)
    next
      case container
      then have d: "d \<le> 256" using ok s by (subst (asm) ScanValue.simps) (simp add: kMaxNesting_def split: if_splits)
      then have "skips (ScanValues n d)" for n using less.hyps by (intro skips_ScanValues) simp
      moreover obtain n s1 where n: "container_count (of_char c) s' = Ok (n, s1)" "ScanValues n d s1 = Ok r"
        using ok s scan_container [OF container(2) d] by (auto simp: ok_iff)
      ultimately have "suffix r s1" by (metis skipsD)
      then have "suffix r s'" using suffix_container [OF n(1)] by (rule suffix_order.trans)
      then show ?thesis using s by (simp add: suffix_ConsI)
    next
      case flat
      then have "SkipValue d s = Ok r" using ok s by (subst (asm) ScanValue.simps) simp
      then show ?thesis by (rule skipsD [OF skips_SkipValue])
    qed
  qed
qed

theorem Read_iff_Decode: "Read s = Ok (v, r) \<longleftrightarrow> Decode 0 s = Ok (v, r)"
proof
  assume "Read s = Ok (v, r)"
  then have scan: "ScanValue 0 s = Ok r" and un: "UnpackMsgpack (take (length s - length r) s) ''a value'' = Ok v"
    by (auto simp: Read_def ok_iff)
  obtain p where p: "s = p @ r" using skipsD [OF skips_ScanValue scan] by (auto simp: suffix_def)
  then have "Decode 0 p = Ok (v, [])"
    using un by (auto simp: UnpackMsgpack_def split: sum.splits prod.splits if_splits)
  then show "Decode 0 s = Ok (v, r)"
    using prefix_Decode [of 0] p unfolding prefix_parser_def by fastforce
next
  assume dec: "Decode 0 s = Ok (v, r)"
  then obtain p where p: "s = p @ r" "Decode 0 (p @ []) = Ok (v, [])"
    using prefix_Decode [of 0] unfolding prefix_parser_def by blast
  then show "Read s = Ok (v, r)"
    using scan_agrees_decode [OF dec] by (simp add: Read_def UnpackMsgpack_def)
qed

section \<open>Nested values written with the typed writers\<close>

fun pack_json :: "json \<Rightarrow> string" where
  "pack_json JNull = PackNil []"
| "pack_json (JBool b) = PackBool b []"
| "pack_json (JUint n) = PackUint n []"
| "pack_json (JInt n) = PackInt n []"
| "pack_json (JFloat n) = AppendBigEndian (AppendByte [] 0xcb) n"
| "pack_json (JString text) = PackString text []"
| "pack_json (JBinary bytes _) = PackBinary bytes []"
| "pack_json (JArray vs) = PackArrayHeader (length vs) [] @ concat (map pack_json vs)"
| "pack_json (JObject kvs) =
     PackMapHeader (length kvs) [] @ concat (map (\<lambda>(k, v). PackString k [] @ pack_json v) kvs)"

text \<open>Values the writers can express at nesting depth \<open>d\<close>: lengths below 2^32, objects in key
  order, negative numbers as \<open>JInt\<close>.\<close>

fun packable :: "nat \<Rightarrow> json \<Rightarrow> bool" where
  "packable d (JInt n) = (d \<le> 256 \<and> sint n < 0)"
| "packable d (JString text) = (d \<le> 256 \<and> length text < 2 ^ 32)"
| "packable d (JBinary bytes sub) = (d \<le> 256 \<and> length bytes < 2 ^ 32 \<and> sub = None)"
| "packable d (JArray vs) = (d \<le> 256 \<and> length vs < 2 ^ 32 \<and> list_all (packable (Suc d)) vs)"
| "packable d (JObject kvs) =
     (d \<le> 256 \<and> length kvs < 2 ^ 32 \<and> obj_sorted kvs \<and>
      list_all (\<lambda>(k, v). length k < 2 ^ 32 \<and> packable (Suc d) v) kvs)"
| "packable d _ = (d \<le> 256)"

lemma decode_string: "length v < 2 ^ 32 \<Longrightarrow> d \<le> 256 \<Longrightarrow> Decode d (PackString v [] @ t) = Ok (JString v, t)"
  using decode_string_key [of v t] by auto

lemma decode_values:
  assumes "\<And>v t. v \<in> set vs \<Longrightarrow> Decode (Suc d) (pack_json v @ t) = Ok (v, t)"
  shows "DecodeArray (length vs) d (concat (map pack_json vs) @ t) = Ok (vs, t)"
  using assms by (induction vs) (simp_all add: DecodeArray.simps)

lemma decode_members:
  assumes "\<And>k v t. (k, v) \<in> set kvs \<Longrightarrow> length k < 2 ^ 32 \<and> Decode (Suc d) (pack_json v @ t) = Ok (v, t)"
    and "obj_sorted (acc @ kvs)"
  shows "DecodeObject (length kvs) d acc (concat (map (\<lambda>(k, v). PackString k [] @ pack_json v) kvs) @ t) = Ok (acc @ kvs, t)"
  using assms
proof (induction kvs arbitrary: acc)
  case Nil
  then show ?case by (simp add: DecodeObject.simps)
next
  case (Cons kv kvs)
  obtain k v where kv: "kv = (k, v)" by (cases kv)
  let ?tail = "concat (map (\<lambda>(k, v). PackString k [] @ pack_json v) kvs) @ t"
  have "length k < 2 ^ 32" using Cons.prems(1) kv by auto
  then obtain c r where key: "PackString k [] = c # r" "DecodeString (of_char c) (r @ pack_json v @ ?tail) = Ok (k, pack_json v @ ?tail)"
    using decode_string_key [of k "pack_json v @ ?tail"] by auto
  have "kv \<in> set (kv # kvs)" by simp
  then have v: "Decode (Suc d) (pack_json v @ ?tail) = Ok (v, ?tail)" using Cons.prems(1) unfolding kv by blast
  have "obj_put k v acc = acc @ [kv]"
    using Cons.prems(2) unfolding kv by (intro obj_put_last) (auto simp: sorted_wrt_append)
  then have "DecodeObject (length (kv # kvs)) d acc (concat (map (\<lambda>(k, v). PackString k [] @ pack_json v) (kv # kvs)) @ t) =
      DecodeObject (length kvs) d (acc @ [kv]) ?tail"
    using key v kv by (subst DecodeObject.simps) simp
  also have "\<dots> = Ok ((acc @ [kv]) @ kvs, t)"
    using Cons.prems by (intro Cons.IH) auto
  finally show ?case by simp
qed

lemma decode_pack_json: "packable d v \<Longrightarrow> Decode d (pack_json v @ t) = Ok (v, t)"
proof (induction v arbitrary: d t)
  case (JFloat n)
  then show ?case by (simp add: AppendByte_def AppendBigEndian_def decode_scalar DecodeScalar_def)
next
  case (JArray vs)
  then have "DecodeArray (length vs) d (concat (map pack_json vs) @ t) = Ok (vs, t)"
    by (intro decode_values) (auto simp: list_all_iff)
  then show ?case using JArray.prems by (simp add: array_header)
next
  case (JObject kvs)
  then have "DecodeObject (length kvs) d [] (concat (map (\<lambda>(k, v). PackString k [] @ pack_json v) kvs) @ t) = Ok ([] @ kvs, t)"
    by (intro decode_members) (auto simp: list_all_iff)
  then show ?case using JObject.prems by (simp add: map_header)
qed (simp_all add: decode_nil decode_bool decode_uint decode_string decode_binary(1) decode_negative)

section \<open>Properties of the codec\<close>

text \<open>C8. Reading a field with the record reader (scan to its end, cut it out, decode the cut) gives
  exactly what the one-pass decoder gives on the unread bytes: the same value and the same rest, and
  it fails whenever the decoder does.\<close>

theorem reader_is_decoder: "Read s = Ok (v, r) \<longleftrightarrow> Decode 0 s = Ok (v, r)"
  by (rule Read_iff_Decode)

text \<open>A field is read from its own bytes only: the reader consumes a non-empty prefix of the
  input, and that prefix is read as the same value whatever follows it.\<close>

theorem field_is_self_delimiting:
  assumes "Read s = Ok (v, r)"
  shows "\<exists>p. p \<noteq> [] \<and> s = p @ r \<and> (\<forall>t. Read (p @ t) = Ok (v, t))"
proof -
  have "Decode 0 s = Ok (v, r)" using assms by (simp add: Read_iff_Decode)
  then obtain p where p: "s = p @ r" "\<And>t. Decode 0 (p @ t) = Ok (v, t)"
    using prefix_Decode [of 0] unfolding prefix_parser_def by blast
  have "p \<noteq> []" using p(2) [of "[]"] by (auto simp: Decode.simps kMaxMsgpackNesting_def)
  then show ?thesis using p by (auto simp: Read_iff_Decode)
qed

theorem field_is_self_delimiting_witness:
  "\<exists>p. p \<noteq> [] \<and> PackString ''ab'' [] @ ''tail'' = p @ ''tail'' \<and> (\<forall>t. Read (p @ t) = Ok (JString ''ab'', t))"
proof -
  have "Read (PackString ''ab'' [] @ ''tail'') = Ok (JString ''ab'', ''tail'')"
    by (simp add: Read_iff_Decode decode_string)
  then show ?thesis by (rule field_is_self_delimiting)
qed

text \<open>C9. Whatever nested value is written field by field with the typed writers (within the
  format's length limits and the nesting limit), the reader returns that value and leaves exactly the
  bytes that follow it.\<close>

theorem typed_writers_roundtrip: "packable 0 v \<Longrightarrow> Read (pack_json v @ t) = Ok (v, t)"
  by (simp add: Read_iff_Decode decode_pack_json)

theorem typed_writers_roundtrip_witness:
  "Read (pack_json (JObject [(''a'', JArray [JUint 70000, JInt (- 5)]), (''b'', JBinary ''xy'' None)]) @ ''z'') =
     Ok (JObject [(''a'', JArray [JUint 70000, JInt (- 5)]), (''b'', JBinary ''xy'' None)], ''z'')"
  by (rule typed_writers_roundtrip) (simp add: less_char_def)

section \<open>Lengths of what the writers write\<close>

lemma pack_length:
  "length v \<le> length (PackString v [])" "length v \<le> length (PackBinary v [])"
  "0 < length (PackString v [])" "0 < length (PackBinary v [])"
  by (simp_all add: PackString_def PackBinary_def Let_def AppendByte_def AppendBigEndian_def)

lemma pack_not_Nil [simp]: "PackString v [] \<noteq> []" "PackBinary v [] \<noteq> []"
  using pack_length(3,4) by blast+

lemma length_le_concat_map:
  assumes "\<And>x. 0 < length (f x)"
  shows "length xs \<le> length (concat (map f xs))"
proof (induction xs)
  case (Cons x xs)
  then show ?case using assms [of x] unfolding list.map concat.simps length_append list.size by linarith
qed simp

lemma length_le_concat_member: "x \<in> set xs \<Longrightarrow> length (f x) \<le> length (concat (map f xs))"
  by (induction xs) auto

lemma pack_header_not_Nil [simp]:
  "PackUint n [] \<noteq> []" "PackInt n [] \<noteq> []" "PackNil [] \<noteq> []" "PackBool t [] \<noteq> []"
  "PackArrayHeader k [] \<noteq> []" "PackMapHeader k [] \<noteq> []"
  by (simp_all add: PackUint_def PackInt_def PackNil_def PackBool_def PackArrayHeader_def PackMapHeader_def
      AppendByte_def AppendBigEndian_def)

lemma pack_json_not_Nil: "pack_json v \<noteq> []"
  by (cases v) (simp_all add: AppendByte_def AppendBigEndian_def)

end
