(* ===== verification/Wire_Roundtrip.thy ===== *)
theory Wire_Roundtrip
  imports Wire_Types Msgpack_Roundtrip "HOL-Library.Multiset"
begin

text \<open>
  Round trips of the wire records: what \<open>ToMsgpack\<close> writes, \<open>FromMsgpack\<close> reads back as the same
  record, with the entries of its hash maps in key order (\<open>canon_map\<close>), for every record from
  chunk metadata up to the wire message.  The bytes depend on the contents of the maps only.
\<close>

section \<open>Writers append\<close>

named_theorems pack_append

lemma AppendByte_append [pack_append]: "AppendByte out b = out @ AppendByte [] b"
  by (simp add: AppendByte_def)

lemma PackUint_append [pack_append]: "NO_MATCH [] out \<Longrightarrow> PackUint v out = out @ PackUint v []"
  by (simp add: PackUint_def AppendByte_def AppendBigEndian_def)

lemma PackInt_append [pack_append]: "NO_MATCH [] out \<Longrightarrow> PackInt v out = out @ PackInt v []"
  using PackUint_append [of out v] by (simp add: PackInt_def AppendByte_def AppendBigEndian_def)

lemma PackString_append [pack_append]: "NO_MATCH [] out \<Longrightarrow> PackString v out = out @ PackString v []"
  by (simp add: PackString_def AppendByte_def AppendBigEndian_def Let_def)

lemma PackBinary_append [pack_append]: "NO_MATCH [] out \<Longrightarrow> PackBinary v out = out @ PackBinary v []"
  by (simp add: PackBinary_def AppendByte_def AppendBigEndian_def Let_def)

lemma PackNil_append [pack_append]: "NO_MATCH [] out \<Longrightarrow> PackNil out = out @ PackNil []"
  by (simp add: PackNil_def AppendByte_def)

lemma PackBool_append [pack_append]: "NO_MATCH [] out \<Longrightarrow> PackBool v out = out @ PackBool v []"
  by (simp add: PackBool_def AppendByte_def)

lemma PackArrayHeader_append [pack_append]: "NO_MATCH [] out \<Longrightarrow> PackArrayHeader n out = out @ PackArrayHeader n []"
  by (simp add: PackArrayHeader_def AppendByte_def AppendBigEndian_def)

lemma PackMapHeader_append [pack_append]: "NO_MATCH [] out \<Longrightarrow> PackMapHeader n out = out @ PackMapHeader n []"
  by (simp add: PackMapHeader_def AppendByte_def AppendBigEndian_def)

definition entry_bytes :: "string \<times> string \<Rightarrow> string" where
  "entry_bytes e = PackString (fst e) [] @ PackBinary (snd e) []"

lemma fold_PackEntry: "fold PackEntry es out = out @ concat (map entry_bytes es)"
  by (induction es arbitrary: out)
    (simp_all add: PackEntry_def entry_bytes_def pack_append)

lemma PackByteMap_append [pack_append]: "NO_MATCH [] out \<Longrightarrow> PackByteMap m out = out @ PackByteMap m []"
  by (simp add: PackByteMap_def Let_def fold_PackEntry pack_append)

section \<open>Reading fields\<close>

lemma ReadField_Decode: "Decode 0 s = Ok (v, t) \<Longrightarrow> ReadField s field = Ok (v, t)"
  by (simp add: ReadField_def Read_iff_Decode [THEN iffD2])

lemmas read_fields =
  ReadField_Decode [OF decode_string] ReadField_Decode [OF decode_uint] ReadField_Decode [OF decode_nil]
  ReadField_Decode [OF decode_bool] ReadField_Decode [OF decode_binary(1)]

lemma decode_entries:
  assumes "\<forall>e\<in>set es. length (fst e) < 2 ^ 32 \<and> length (snd e) < 2 ^ 32" and "d < 256"
    and "obj_sorted (acc @ map (\<lambda>e. (fst e, JBinary (snd e) None)) es)"
  shows "DecodeObject (length es) d acc (concat (map entry_bytes es) @ t) =
    Ok (acc @ map (\<lambda>e. (fst e, JBinary (snd e) None)) es, t)"
  using assms
proof (induction es arbitrary: acc)
  case Nil
  then show ?case by (simp add: DecodeObject.simps)
next
  case (Cons e es)
  let ?rest = "PackBinary (snd e) [] @ concat (map entry_bytes es) @ t"
  obtain c r where key: "PackString (fst e) [] = c # r" "DecodeString (of_char c) (r @ ?rest) = Ok (fst e, ?rest)"
    using decode_string_key [of "fst e" ?rest] Cons.prems(1) by auto
  have v: "Decode (Suc d) ?rest = Ok (JBinary (snd e) None, concat (map entry_bytes es) @ t)"
    using Cons.prems(1,2) by (intro decode_binary) simp_all
  have put: "obj_put (fst e) (JBinary (snd e) None) acc = acc @ [(fst e, JBinary (snd e) None)]"
    using Cons.prems(3) by (intro obj_put_last) (auto simp: sorted_wrt_append)
  have "DecodeObject (length (e # es)) d acc (concat (map entry_bytes (e # es)) @ t) =
      DecodeObject (length es) d (acc @ [(fst e, JBinary (snd e) None)]) (concat (map entry_bytes es) @ t)"
    using key v put by (subst DecodeObject.simps) (simp add: entry_bytes_def)
  then show ?case using Cons by simp
qed

text \<open>The map a decoder returns: the entries in key order.\<close>

definition canon_map :: "ByteMap \<Rightarrow> ByteMap" where
  "canon_map m = sort_key fst m"

lemma mset_canon_map [simp]: "mset (canon_map m) = mset m"
  by (simp add: canon_map_def)

lemma set_canon_map [simp]: "set (canon_map m) = set m"
  by (simp add: canon_map_def)

lemma distinct_canon_map [simp]: "distinct (map fst (canon_map m)) \<longleftrightarrow> distinct (map fst m)"
  by (intro mset_eq_imp_distinct_iff) simp

lemma map_of_canon_map: "distinct (map fst m) \<Longrightarrow> map_of (canon_map m) = map_of m"
  by (subst map_of_inject_set) simp_all

lemma canon_map_sorted:
  assumes "distinct (map fst m)"
  shows "obj_sorted (canon_map m)"
proof -
  have "sorted (map fst (canon_map m))" by (simp add: canon_map_def)
  then show ?thesis using assms by (simp add: strict_sorted_iff)
qed

lemma obj_sorted_unique:
  assumes "obj_sorted xs" "obj_sorted ys" "map_of xs = map_of ys"
  shows "xs = ys"
proof -
  have d: "distinct (map fst xs)" "distinct (map fst ys)" using assms(1,2) strict_sorted_iff by blast+
  then have "set xs = set ys" using assms(3) map_of_inject_set by blast
  then have "map fst xs = map fst ys" using assms(1,2) by (intro strict_sorted_equal) simp_all
  moreover have "map snd zs = map (the \<circ> map_of zs) (map fst zs)" if "distinct (map fst zs)" for zs :: "(string \<times> 'a) list"
    using that by (auto simp: map_of_eq_Some_iff)
  ultimately show ?thesis using d assms(3) by (metis zip_map_fst_snd)
qed

lemma canon_map_cong:
  assumes "distinct (map fst m)" "distinct (map fst m')" "map_of m = map_of m'"
  shows "canon_map m = canon_map m'"
  using assms by (intro obj_sorted_unique canon_map_sorted) (simp_all add: map_of_canon_map)

lemma map_of_fold_obj_put:
  "distinct (map fst kvs) \<Longrightarrow> map_of (fold (\<lambda>(k, v). obj_put k v) kvs acc) = map_of acc ++ map_of kvs"
proof (induction kvs arbitrary: acc)
  case (Cons kv kvs)
  obtain k v where kv: "kv = (k, v)" by (cases kv)
  then have "map_of kvs k = None" using Cons.prems by (simp add: map_of_eq_None_iff)
  then show ?case using Cons kv by (auto simp: map_add_def fun_eq_iff split: option.splits)
qed simp

lemma fold_obj_put_canon:
  assumes "distinct (map fst m)"
  shows "fold (\<lambda>(k, v). obj_put k v) (map (\<lambda>(k, v). (k, f v)) m) [] = map (\<lambda>(k, v). (k, f v)) (canon_map m)"
proof (rule obj_sorted_unique)
  have keys: "map fst (map (\<lambda>(k, v). (k, f v)) xs) = map fst xs" for xs :: ByteMap
    by (induction xs) auto
  have "obj_sorted acc \<Longrightarrow> obj_sorted (fold (\<lambda>(k, v). obj_put k v) kvs acc)" for kvs and acc :: "(string \<times> 'a) list"
    by (induction kvs arbitrary: acc) (auto simp: obj_sorted_put)
  then show "obj_sorted (fold (\<lambda>(k, v). obj_put k v) (map (\<lambda>(k, v). (k, f v)) m) [])" by simp
  show "obj_sorted (map (\<lambda>(k, v). (k, f v)) (canon_map m))"
    using canon_map_sorted [OF assms] by (simp add: keys del: map_map)
  show "map_of (fold (\<lambda>(k, v). obj_put k v) (map (\<lambda>(k, v). (k, f v)) m) []) = map_of (map (\<lambda>(k, v). (k, f v)) (canon_map m))"
    using assms map_of_canon_map [OF assms] by (simp add: map_of_fold_obj_put keys map_of_map del: map_map)
qed

lemma map_bytes_length:
  assumes "length (PackByteMap m []) < 2 ^ 32" 
  shows "length m < 2 ^ 32" and "e \<in> set m \<Longrightarrow> length (fst e) < 2 ^ 32 \<and> length (snd e) < 2 ^ 32"
proof -
  let ?es = "canon_map m"
  have bytes: "length (PackByteMap m []) \<ge> length (concat (map entry_bytes ?es))"
    by (simp add: PackByteMap_def Let_def fold_PackEntry canon_map_def)
  have "length ?es \<le> length (concat (map entry_bytes ?es))"
    by (rule length_le_concat_map) (simp add: entry_bytes_def pack_length)
  then show "length m < 2 ^ 32" using bytes assms by (simp add: canon_map_def)
  assume "e \<in> set m"
  then have "length (entry_bytes e) \<le> length (concat (map entry_bytes ?es))"
    by (intro length_le_concat_member) simp
  then show "length (fst e) < 2 ^ 32 \<and> length (snd e) < 2 ^ 32"
    using bytes assms pack_length(1) [of "fst e"] pack_length(2) [of "snd e"] by (simp add: entry_bytes_def)
qed

lemma decode_byte_map:
  assumes "length (PackByteMap m []) < 2 ^ 32" and "distinct (map fst m)"
  shows "ReadField (PackByteMap m [] @ t) field =
    Ok (JObject (map (\<lambda>e. (fst e, JBinary (snd e) None)) (canon_map m)), t)"
proof (rule ReadField_Decode)
  have n: "length m < 2 ^ 32" by (rule map_bytes_length [OF assms(1)])
  have sorted: "obj_sorted ([] @ map (\<lambda>e. (fst e, JBinary (snd e) None)) (canon_map m))"
    using canon_map_sorted [OF assms(2)] by (simp add: o_def)
  have "DecodeObject (length m) 0 [] (concat (map entry_bytes (canon_map m)) @ t) =
      Ok (map (\<lambda>e. (fst e, JBinary (snd e) None)) (canon_map m), t)"
    using decode_entries [OF _ _ sorted, of 0 t] map_bytes_length(2) [OF assms(1)]
    by (simp add: canon_map_def)
  moreover have "PackByteMap m [] @ t = PackMapHeader (length m) [] @ concat (map entry_bytes (canon_map m)) @ t"
    by (simp add: PackByteMap_def Let_def fold_PackEntry canon_map_def)
  ultimately show "Decode 0 (PackByteMap m [] @ t) =
      Ok (JObject (map (\<lambda>e. (fst e, JBinary (snd e) None)) (canon_map m)), t)"
    using map_header [OF n, of 0] by simp
qed

lemma DecodeByteMap_entries:
  assumes "\<forall>e\<in>set es. ValidateName (fst e) = Ok ()"
  shows "DecodeByteMap (JObject (map (\<lambda>e. (fst e, JBinary (snd e) None)) es)) field = Ok es"
  using assms by (induction es) (simp_all add: DecodeByteMap_def GetBinary_def)

section \<open>Chunk metadata and chunks\<close>

text \<open>What is read again of a written time: \<open>ToUnixMicros\<close> takes the microsecond that has begun, and the nearest 64-bit
  count for a time beyond that range; \<open>FromUnixMicros\<close> is exact.\<close>

definition micros :: "time_conv \<Rightarrow> Time \<Rightarrow> Time" where
  "micros tc t = FromUnixMicros tc (ToUnixMicros tc t)"

definition clamp_int64 :: "int \<Rightarrow> int" where
  "clamp_int64 n = max (- (2 ^ 63)) (min (2 ^ 63 - 1) n)"

definition unix_micros :: "Time \<Rightarrow> int" where
  "unix_micros t =
     (case t of InfinitePast \<Rightarrow> - (2 ^ 63) | Instant q \<Rightarrow> clamp_int64 (q div 4000) | InfiniteFuture \<Rightarrow> 2 ^ 63 - 1)"

definition floor_micros :: "Time \<Rightarrow> Time" where
  "floor_micros t = Instant (4000 * unix_micros t)"

definition times_ok :: "time_conv \<Rightarrow> bool" where
  "times_ok tc \<longleftrightarrow> (\<forall>t. sint (ToUnixMicros tc t) = unix_micros t) \<and> (\<forall>n. FromUnixMicros tc n = Instant (4000 * sint n))"

lemma micros_floor: "times_ok tc \<Longrightarrow> micros tc = floor_micros"
  by (simp add: fun_eq_iff micros_def floor_micros_def times_ok_def)

text \<open>Times of whole microseconds in the range of 64 bits are carried exactly, others are moved back by less than one.\<close>

lemma floor_micros_whole: "- (2 ^ 63) \<le> n \<Longrightarrow> n < 2 ^ 63 \<Longrightarrow> floor_micros (Instant (4000 * n)) = Instant (4000 * n)"
  by (simp add: floor_micros_def unix_micros_def clamp_int64_def)

lemma floor_micros_within:
  assumes "- (2 ^ 63) \<le> q div 4000" and "q div 4000 < 2 ^ 63"
  shows "\<exists>q'. floor_micros (Instant q) = Instant q' \<and> q' \<le> q \<and> q < q' + 4000"
proof -
  have "4000 * (q div 4000) \<le> q" "q < 4000 * (q div 4000) + 4000" by presburger+
  then show ?thesis using assms by (simp add: floor_micros_def unix_micros_def clamp_int64_def)
qed

lemma unix_micros_bounds: "- (2 ^ 63) \<le> unix_micros t" "unix_micros t < 2 ^ 63"
  by (auto simp: unix_micros_def clamp_int64_def split: Time.split)

lemma floor_micros_idem [simp]: "floor_micros (floor_micros t) = floor_micros t"
  using unix_micros_bounds [of t] by (simp add: floor_micros_def [of t] floor_micros_whole)

lemma floor_micros_read: "times_ok tc \<Longrightarrow> floor_micros (FromUnixMicros tc n) = FromUnixMicros tc n"
  using sint_ge [of n] sint_lt [of n] by (simp add: times_ok_def floor_micros_whole)

lemma written_micros:
  assumes "times_ok tc"
  shows "ToUnixMicros tc (floor_micros t) = ToUnixMicros tc t"
proof -
  have "unix_micros (floor_micros t) = unix_micros t"
    using unix_micros_bounds [of t] by (simp add: floor_micros_def unix_micros_def [of "Instant _"] clamp_int64_def)
  then have "sint (ToUnixMicros tc (floor_micros t)) = sint (ToUnixMicros tc t)"
    using assms unfolding times_ok_def by metis
  then show ?thesis by (rule signed_word_eqI)
qed

text \<open>The canonical form of a record has its hash maps in key order and \<open>tf\<close> applied to its timestamps: \<open>floor_micros\<close>
  for the MessagePack form, the identity for the JSON form.\<close>

definition canon_metadata :: "(Time \<Rightarrow> Time) \<Rightarrow> ChunkMetadata \<Rightarrow> ChunkMetadata" where
  "canon_metadata tf m = m\<lparr>cm_timestamp := map_option tf (cm_timestamp m), cm_attributes := canon_map (cm_attributes m)\<rparr>"

definition metadata_bytes :: "time_conv \<Rightarrow> ChunkMetadata \<Rightarrow> string" where
  "metadata_bytes tc m =
     PackString (cm_mimetype m) [] @ (case cm_timestamp m of Some t \<Rightarrow> PackInt (ToUnixMicros tc t) [] | None \<Rightarrow> PackNil []) @
     PackByteMap (cm_attributes m) []"

lemma MetadataToMsgpackInto_bytes: "MetadataToMsgpackInto tc m out = Ok (out @ metadata_bytes tc m)"
  by (simp add: MetadataToMsgpackInto_def metadata_bytes_def Let_def pack_append split: option.split)

lemma validate_keys:
  "r_forall (\<lambda>(key, _). ValidateName key) m = Ok u \<longleftrightarrow> (\<forall>e\<in>set m. ValidateName (fst e) = Ok ())"
  by (simp add: ok_iff case_prod_unfold)

lemma EnsureFullyConsumed_Nil [simp]: "EnsureFullyConsumed [] = Ok ()"
  by (simp add: EnsureFullyConsumed_def)

lemma read_byte_map_end:
  assumes "length (PackByteMap m []) < 2 ^ 32" and "distinct (map fst m)"
  shows "ReadField (PackByteMap m []) field =
    Ok (JObject (map (\<lambda>e. (fst e, JBinary (snd e) None)) (canon_map m)), [])"
  using decode_byte_map [OF assms, of "[]"] by simp

lemma canon_metadata_eq:
  "\<lparr>cm_mimetype = cm_mimetype m, cm_timestamp = map_option tf (cm_timestamp m), cm_attributes = canon_map (cm_attributes m)\<rparr>
   = canon_metadata tf m"
  by (cases m) (simp add: canon_metadata_def)

lemma canon_metadata_valid: "MetadataValidate (canon_metadata tf m) = Ok u \<longleftrightarrow> MetadataValidate m = Ok ()"
  by (simp add: MetadataValidate_def canon_metadata_def validate_keys)

lemma metadata_roundtrip:
  assumes len: "length (metadata_bytes tc m) < 2 ^ 32" and valid: "MetadataValidate m = Ok ()"
    and keys: "distinct (map fst (cm_attributes m))"
  shows "MetadataFromMsgpack tc (metadata_bytes tc m) = Ok (canon_metadata (micros tc) m)"
proof -
  let ?map = "PackByteMap (cm_attributes m) []"
  have attrs: "\<forall>e\<in>set (canon_map (cm_attributes m)). ValidateName (fst e) = Ok ()"
    using valid by (simp add: MetadataValidate_def validate_keys)
  have sizes: "length (cm_mimetype m) < 2 ^ 32" "length ?map < 2 ^ 32"
    using len pack_length(1) [of "cm_mimetype m"] by (simp_all add: metadata_bytes_def)
  have time: "\<exists>v. ReadField ((case cm_timestamp m of Some t \<Rightarrow> PackInt (ToUnixMicros tc t) [] | None \<Rightarrow> PackNil []) @ ?map) f = Ok (v, ?map) \<and>
      (if is_null v then Ok None else if \<not> is_number_integer v
       then Err kInvalidArgument ''ChunkMetadata.timestamp must be integer microseconds or null''
       else Ok (Some (FromUnixMicros tc (get_bits v)))) = Ok (map_option (micros tc) (cm_timestamp m))" for f
  proof (cases "cm_timestamp m")
    case None
    then show ?thesis by (simp add: read_fields is_null_def)
  next
    case (Some t)
    obtain j where "Decode 0 (PackInt (ToUnixMicros tc t) [] @ ?map) = Ok (j, ?map)" "is_number_integer j" "get_bits j = ToUnixMicros tc t"
      using decode_int [of 0 "ToUnixMicros tc t" ?map] by auto
    then show ?thesis using Some by (auto simp: is_null_def micros_def dest: ReadField_Decode)
  qed
  from time [of "''ChunkMetadata.timestamp''"] obtain v where
    "ReadField ((case cm_timestamp m of Some t \<Rightarrow> PackInt (ToUnixMicros tc t) [] | None \<Rightarrow> PackNil []) @ ?map)
       ''ChunkMetadata.timestamp'' = Ok (v, ?map)"
    and "(if is_null v then Ok None else if \<not> is_number_integer v
       then Err kInvalidArgument ''ChunkMetadata.timestamp must be integer microseconds or null''
       else Ok (Some (FromUnixMicros tc (get_bits v)))) = Ok (map_option (micros tc) (cm_timestamp m))" by blast
  moreover have "MetadataValidate (canon_metadata (micros tc) m) = Ok ()" using valid by (simp add: canon_metadata_valid)
  ultimately show ?thesis
    using sizes attrs keys
    by (simp add: MetadataFromMsgpack_def metadata_bytes_def read_fields JsonString_def read_byte_map_end
        DecodeByteMap_entries canon_metadata_eq Let_def)
qed

definition canon_chunk :: "(Time \<Rightarrow> Time) \<Rightarrow> Chunk \<Rightarrow> Chunk" where
  "canon_chunk tf c = c\<lparr>ch_metadata := map_option (canon_metadata tf) (ch_metadata c)\<rparr>"

text \<open>What travels: hash maps have distinct keys and the value of the chunk has been encoded.\<close>

definition chunk_wf :: "Chunk \<Rightarrow> bool" where
  "chunk_wf c \<longleftrightarrow>
     ch_object c = None \<and>
     (case ch_metadata c of None \<Rightarrow> True | Some m \<Rightarrow> distinct (map fst (cm_attributes m)))"

definition chunk_bytes :: "time_conv \<Rightarrow> Chunk \<Rightarrow> string" where
  "chunk_bytes tc c =
     (case ch_metadata c of Some m \<Rightarrow> PackBinary (metadata_bytes tc m) [] | None \<Rightarrow> PackNil []) @
     PackString (ch_ref c) [] @ PackBinary (ch_data c) []"

lemma ChunkToMsgpackInto_bytes: "ChunkToMsgpackInto tc c out = Ok (out @ chunk_bytes tc c)"
  by (simp add: ChunkToMsgpackInto_def chunk_bytes_def PackRecord_def MetadataToMsgpackInto_bytes pack_append
      split: option.split)

lemma canon_chunk_eq:
  "ch_object c = None \<Longrightarrow> \<lparr>ch_metadata = map_option (canon_metadata tf) (ch_metadata c), ch_ref = ch_ref c,
     ch_data = ch_data c, ch_object = None\<rparr> = canon_chunk tf c"
  by (cases c) (simp add: canon_chunk_def)

lemma canon_chunk_valid: "ChunkValidate (canon_chunk tf c) = Ok u \<longleftrightarrow> ChunkValidate c = Ok ()"
  by (cases "ch_metadata c") (simp_all add: ChunkValidate_def canon_chunk_def canon_metadata_valid)

lemma chunk_roundtrip:
  assumes len: "length (chunk_bytes tc c) < 2 ^ 32" and valid: "ChunkValidate c = Ok ()" and wf: "chunk_wf c"
  shows "ChunkFromMsgpack tc (chunk_bytes tc c) = Ok (canon_chunk (micros tc) c)"
proof -
  have sizes: "length (ch_ref c) < 2 ^ 32" "length (ch_data c) < 2 ^ 32"
    using len pack_length(1) [of "ch_ref c"] pack_length(2) [of "ch_data c"] by (simp_all add: chunk_bytes_def)
  have view: "ReadBinaryView (PackBinary (ch_data c) []) = Ok (ch_data c, [])"
    using decode_binary(2) [OF sizes(2), of "[]"] by simp
  have meta: "\<exists>v. ReadField ((case ch_metadata c of Some m \<Rightarrow> PackBinary (metadata_bytes tc m) [] | None \<Rightarrow> PackNil []) @ t) f
        = Ok (v, t) \<and>
      (if is_null v then Ok None
       else r_bind (GetBinary v ''Chunk.metadata'') (\<lambda>encoded.
              r_bind (MetadataFromMsgpack tc encoded) (\<lambda>m. Ok (Some m)))) = Ok (map_option (canon_metadata (micros tc)) (ch_metadata c))"
    for t f
  proof (cases "ch_metadata c")
    case None
    then show ?thesis by (simp add: read_fields is_null_def)
  next
    case (Some m)
    then have "length (metadata_bytes tc m) < 2 ^ 32"
      using len pack_length(2) [of "metadata_bytes tc m"] by (simp add: chunk_bytes_def)
    moreover have "MetadataValidate m = Ok ()"
      using valid Some by (simp add: ChunkValidate_def split: if_splits)
    ultimately show ?thesis
      using wf Some metadata_roundtrip [of tc m] by (simp add: read_fields is_null_def GetBinary_def chunk_wf_def)
  qed
  let ?t = "PackString (ch_ref c) [] @ PackBinary (ch_data c) []"
  from meta [of ?t "''Chunk.metadata''"] obtain v where
    "ReadField ((case ch_metadata c of Some m \<Rightarrow> PackBinary (metadata_bytes tc m) [] | None \<Rightarrow> PackNil []) @ ?t)
       ''Chunk.metadata'' = Ok (v, ?t)"
    and "(if is_null v then Ok None
       else r_bind (GetBinary v ''Chunk.metadata'') (\<lambda>encoded.
              r_bind (MetadataFromMsgpack tc encoded) (\<lambda>m. Ok (Some m)))) = Ok (map_option (canon_metadata (micros tc)) (ch_metadata c))"
    by blast
  moreover have "ChunkValidate (canon_chunk (micros tc) c) = Ok ()" and "ch_object c = None"
    using valid wf by (simp_all add: chunk_wf_def canon_chunk_valid)
  ultimately show ?thesis
    using sizes view
    by (simp add: ChunkFromMsgpack_def chunk_bytes_def read_fields JsonString_def canon_chunk_eq Let_def)
qed

section \<open>Storage identities\<close>

definition canon_credentials :: "StorageCredentials \<Rightarrow> StorageCredentials" where
  "canon_credentials c = c\<lparr>sc_fields := canon_map (sc_fields c)\<rparr>"

definition canon_service :: "StorageService \<Rightarrow> StorageService" where
  "canon_service s = s\<lparr>ss_credentials := map_option canon_credentials (ss_credentials s)\<rparr>"

definition canon_identity :: "StorageIdentity \<Rightarrow> StorageIdentity" where
  "canon_identity v = v\<lparr>si_credentials := map_option canon_credentials (si_credentials v),
     si_services := map canon_service (si_services v)\<rparr>"

definition credentials_wf :: "StorageCredentials option \<Rightarrow> bool" where
  "credentials_wf c \<longleftrightarrow> (case c of None \<Rightarrow> True | Some c \<Rightarrow> distinct (map fst (sc_fields c)))"

definition identity_wf :: "StorageIdentity \<Rightarrow> bool" where
  "identity_wf v \<longleftrightarrow> credentials_wf (si_credentials v) \<and> (\<forall>s\<in>set (si_services v). credentials_wf (ss_credentials s))"

lemma json_literals:
  "''credentials'' < ''endpoint''" "''endpoint'' < ''role''" "''fields'' < ''scheme''" "''credentials'' < ''id''"
  "''id'' < ''services''" "''credentials'' < ''services''" "''credentials'' < ''role''"
  by (simp_all add: less_char_def)

lemma fields_json:
  assumes "distinct (map fst m)"
  shows "make_object (map (\<lambda>(name, field). (name, JString field)) m) =
    JObject (map (\<lambda>(name, field). (name, JString field)) (canon_map m))"
  unfolding make_object_def using fold_obj_put_canon [OF assms, of JString] by simp

lemma FieldsFromJson_fields:
  "FieldsFromJson (JObject (map (\<lambda>(name, field). (name, JString field)) m)) = Ok m"
  by (induction m) (auto simp: FieldsFromJson_def)

lemma credentials_json:
  assumes "distinct (map fst (sc_fields c))"
  shows "CredentialsFromJson (Some (CredentialsToJson c)) = Ok (Some (canon_credentials c))"
  using assms
  by (cases c) (simp add: CredentialsFromJson_def CredentialsToJson_def fields_json make_object_def [of "[_, _]"]
      is_null_def GetString_def GetOptional_def FieldsFromJson_fields canon_credentials_def json_literals less_char_def)

lemma credentials_opt_json:
  assumes "credentials_wf c"
  shows "CredentialsFromJson (map_option CredentialsToJson c) = Ok (map_option canon_credentials c)"
  using assms by (cases c) (simp_all add: credentials_json credentials_wf_def, simp add: CredentialsFromJson_def)

lemma canon_service_eq:
  "\<lparr>ss_role = ss_role s, ss_endpoint = ss_endpoint s, ss_credentials = map_option canon_credentials (ss_credentials s)\<rparr>
   = canon_service s"
  by (cases s) (simp add: canon_service_def)

lemma service_json:
  assumes "credentials_wf (ss_credentials s)"
  shows "ServiceFromJson (ServiceToJson s) = Ok (canon_service s)"
proof -
  have "\<exists>kvs. ServiceToJson s = JObject kvs \<and> map_of kvs ''role'' = Some (JString (ss_role s)) \<and>
      map_of kvs ''endpoint'' = Some (JString (ss_endpoint s)) \<and>
      map_of kvs ''credentials'' = map_option CredentialsToJson (ss_credentials s)"
    by (cases "ss_credentials s") (simp_all add: ServiceToJson_def make_object_def)
  then show ?thesis
    using credentials_opt_json [OF assms]
    by (auto simp: ServiceFromJson_def GetString_def GetOptional_def canon_service_eq)
qed

lemma canon_credentials_valid:
  "ValidateCredentialsOpt (map_option canon_credentials c) = Ok () \<longleftrightarrow> ValidateCredentialsOpt c = Ok ()"
  by (cases c) (simp_all add: ValidateCredentialsOpt_def ValidateCredentials_def canon_credentials_def ok_iff case_prod_unfold)

lemma canon_identity_valid:
  "ValidateIdentity (canon_identity v) = Ok () \<longleftrightarrow> ValidateIdentity v = Ok ()"
  by (simp add: ValidateIdentity_def canon_identity_def canon_service_def ValidateService_def ok_iff canon_credentials_valid)

lemma canon_identity_eq:
  "\<lparr>si_id = si_id v, si_credentials = map_option canon_credentials (si_credentials v),
    si_services = map canon_service (si_services v)\<rparr> = canon_identity v"
  "si_services v = [] \<Longrightarrow>
   \<lparr>si_id = si_id v, si_credentials = map_option canon_credentials (si_credentials v), si_services = []\<rparr> = canon_identity v"
  by (cases v, simp add: canon_identity_def)+

lemma identity_json:
  assumes wf: "identity_wf v" and j: "StorageIdentityToJsonValue v = Ok j"
  shows "StorageIdentityFromJsonValue j = Ok (canon_identity v)" and "j \<noteq> JNull"
proof -
  have valid: "ValidateIdentity (canon_identity v) = Ok ()"
    using j by (auto simp: StorageIdentityToJsonValue_def ok_iff canon_identity_valid)
  have fields: "\<exists>kvs. j = JObject kvs \<and> map_of kvs ''id'' = Some (JString (si_id v)) \<and>
      map_of kvs ''credentials'' = map_option CredentialsToJson (si_credentials v) \<and>
      map_of kvs ''services'' = (if si_services v = [] then None
         else Some (JArray (map ServiceToJson (si_services v))))"
    using j by (cases "si_credentials v")
      (auto simp: StorageIdentityToJsonValue_def ok_iff make_object_def)
  have services: "r_map ServiceFromJson (map ServiceToJson (si_services v)) = Ok (map canon_service (si_services v))"
  proof -
    have "r_map ServiceFromJson (map ServiceToJson ss) = Ok (map canon_service ss)"
      if "\<forall>s\<in>set ss. credentials_wf (ss_credentials s)" for ss
      using that by (induction ss) (simp_all add: service_json)
    then show ?thesis using wf by (simp add: identity_wf_def)
  qed
  have creds: "CredentialsFromJson (map_option CredentialsToJson (si_credentials v)) =
      Ok (map_option canon_credentials (si_credentials v))"
    using wf by (intro credentials_opt_json) (simp add: identity_wf_def)
  show "j \<noteq> JNull" using fields by auto
  show "StorageIdentityFromJsonValue j = Ok (canon_identity v)"
    using fields services creds valid
    by (auto simp: StorageIdentityFromJsonValue_def GetString_def GetOptional_def canon_identity_eq Let_def)
qed

section \<open>Node references\<close>

text \<open>
  The values \<open>StorageIdentityToJsonValue\<close> builds: strings, arrays and objects in key order, with at
  most five levels of containers (identity, services, service, credentials, fields).  On these,
  \<open>to_msgpack\<close> writes bytes that decode to the value again.
\<close>

fun text_json :: "nat \<Rightarrow> json \<Rightarrow> bool" where
  "text_json n (JString _) = True"
| "text_json (Suc n) (JArray vs) = list_all (text_json n) vs"
| "text_json (Suc n) (JObject kvs) = (obj_sorted kvs \<and> list_all (\<lambda>(k, v). text_json n v) kvs)"
| "text_json _ _ = False"

definition packs_text :: "msgpack_encoder \<Rightarrow> bool" where
  "packs_text tm \<longleftrightarrow>
     (\<forall>v bytes. text_json 5 v \<and> tm v = Inr bytes \<and> length bytes < 2 ^ 32 \<longrightarrow>
        (\<forall>t. Decode 0 (bytes @ t) = Ok (v, t)))"

lemma make_object_text:
  assumes "\<forall>(k, v)\<in>set kvs. text_json n v"
  shows "text_json (Suc n) (make_object kvs)"
proof -
  let ?ok = "list_all (\<lambda>(k, v). text_json n v)"
  have put: "?ok acc \<Longrightarrow> text_json n v \<Longrightarrow> ?ok (obj_put k v acc)"
    for k v acc by (induction k v acc rule: obj_put.induct) auto
  have "obj_sorted (fold (\<lambda>(k, v). obj_put k v) kvs acc) \<and> ?ok (fold (\<lambda>(k, v). obj_put k v) kvs acc)"
    if "obj_sorted acc" "?ok acc" for acc
    using that assms
  proof (induction kvs arbitrary: acc)
    case (Cons kv kvs)
    then show ?case by (cases kv) (simp add: put obj_sorted_put)
  qed simp
  then show ?thesis by (simp add: make_object_def)
qed

lemma credentials_text: "text_json (Suc (Suc n)) (CredentialsToJson c)"
  by (auto simp: CredentialsToJson_def intro!: make_object_text)

lemma service_text: "text_json (Suc (Suc (Suc n))) (ServiceToJson s)"
  unfolding ServiceToJson_def by (rule make_object_text) (auto simp: credentials_text split: option.splits)

lemma identity_text:
  assumes "StorageIdentityToJsonValue v = Ok j"
  shows "text_json 5 j"
proof -
  have "text_json (Suc (Suc (Suc (Suc (Suc 0))))) j"
    using assms by (auto simp: StorageIdentityToJsonValue_def ok_iff credentials_text service_text list_all_iff
      intro!: make_object_text split: option.splits if_splits)
  then show ?thesis by (simp add: eval_nat_numeral)
qed

definition canon_ref :: "NodeRef \<Rightarrow> NodeRef" where
  "canon_ref n = n\<lparr>nr_storage := map_option canon_identity (nr_storage n)\<rparr>"

definition ref_wf :: "NodeRef \<Rightarrow> bool" where
  "ref_wf n \<longleftrightarrow> (case nr_storage n of None \<Rightarrow> True | Some v \<Rightarrow> identity_wf v)"

definition ref_head_bytes :: "NodeRef \<Rightarrow> string" where
  "ref_head_bytes n =
     PackString (nr_id n) [] @ PackUint (ucast (nr_offset n)) [] @
     (case nr_length n of Some len \<Rightarrow> PackUint len [] | None \<Rightarrow> PackNil [])"

lemma PackMsgpack_ok [ok_iff]: "PackMsgpack tm v what = Ok b \<longleftrightarrow> tm v = Inr b"
  by (simp add: PackMsgpack_def split: sum.splits)

lemma NodeRefToMsgpackInto_ok:
  "NodeRefToMsgpackInto tm n out = Ok bytes \<longleftrightarrow>
     (case nr_storage n of
        None \<Rightarrow> bytes = out @ ref_head_bytes n @ PackNil []
      | Some v \<Rightarrow> \<exists>j enc. StorageIdentityToJsonValue v = Ok j \<and> tm j = Inr enc \<and> bytes = out @ ref_head_bytes n @ enc)"
  by (auto simp: NodeRefToMsgpackInto_def ref_head_bytes_def Let_def pack_append Pack_def ok_iff
      split: option.splits)

lemma canon_ref_valid: "NodeRefValidate (canon_ref n) = Ok () \<longleftrightarrow> NodeRefValidate n = Ok ()"
  by (cases n; cases "nr_storage n"; cases "nr_length n") (simp_all add: NodeRefValidate_def canon_ref_def ok_iff canon_identity_valid)

lemma canon_ref_eq:
  "\<lparr>nr_id = nr_id n, nr_offset = nr_offset n, nr_length = nr_length n,
    nr_storage = map_option canon_identity (nr_storage n)\<rparr> = canon_ref n"
  by (cases n) (simp add: canon_ref_def)

lemma ucast_back [simp]: "ucast (ucast (w :: u32) :: u64) = w"
proof (rule unsigned_word_eqI)
  show "unat (ucast (ucast w :: u64) :: u32) = unat w"
    using unat_less32 [of w] by (simp add: unsigned_ucast_eq take_bit_word_eq_self take_bit_nat_eq_self)
qed

lemma ucast32_bound: "\<not> (0xffffffff < (ucast (w :: u32) :: u64))"
proof -
  have "unat w < 2 ^ 32" by (rule unat_less32)
  then show ?thesis by (simp add: word_less_nat_alt unat_ucast64)
qed

lemma ref_roundtrip:
  assumes bytes: "NodeRefToMsgpackInto tm n [] = Ok bytes" and len: "length bytes < 2 ^ 32"
    and valid: "NodeRefValidate n = Ok ()" and wf: "ref_wf n" and tm: "packs_text tm"
  shows "NodeRefFromMsgpack bytes = Ok (canon_ref n)"
proof -
  obtain enc where enc: "bytes = ref_head_bytes n @ enc"
    and storage: "\<exists>v. Decode 0 enc = Ok (v, []) \<and> 
      (if is_null v then Ok None
             else r_bind (StorageIdentityFromJsonValue v) (\<lambda>v. Ok (Some v))) = Ok (map_option canon_identity (nr_storage n))"
  proof (cases "nr_storage n")
    case None
    have "Decode 0 (PackNil []) = Ok (JNull, [])" using decode_nil [of 0 "[]"] by simp
    then show ?thesis using that [of "PackNil []"] None bytes by (simp add: NodeRefToMsgpackInto_ok is_null_def)
  next
    case (Some v)
    then obtain j enc where j: "StorageIdentityToJsonValue v = Ok j" "tm j = Inr enc" "bytes = ref_head_bytes n @ enc"
      using bytes by (auto simp: NodeRefToMsgpackInto_ok)
    have "length enc < 2 ^ 32" using len j(3) by simp
    then have "Decode 0 (enc @ []) = Ok (j, [])"
      using tm identity_text [OF j(1)] j(2) unfolding packs_text_def by blast
    then show ?thesis
      using that [OF j(3)] Some wf identity_json [OF _ j(1)] by (simp add: ref_wf_def is_null_def)
  qed
  have id_len: "length (nr_id n) < 2 ^ 32"
    using len enc pack_length(1) [of "nr_id n"] by (simp add: ref_head_bytes_def)
  obtain v where v: "ReadField enc ''NodeRef.storage'' = Ok (v, [])"
    "(if is_null v then Ok None
      else r_bind (StorageIdentityFromJsonValue v) (\<lambda>v. Ok (Some v))) = Ok (map_option canon_identity (nr_storage n))"
    using storage ReadField_Decode by blast
  have size: "\<exists>u. ReadField ((case nr_length n of Some len \<Rightarrow> PackUint len [] | None \<Rightarrow> PackNil []) @ enc) ''NodeRef.length''
       = Ok (u, enc) \<and> (if is_null u then Ok None
         else r_bind (JsonUnsigned u ''NodeRef.length'') (\<lambda>n. Ok (Some n))) = Ok (nr_length n)"
    by (cases "nr_length n") (simp_all add: read_fields is_null_def JsonUnsigned_def)
  then obtain u where u: "ReadField ((case nr_length n of Some len \<Rightarrow> PackUint len [] | None \<Rightarrow> PackNil []) @ enc) ''NodeRef.length''
       = Ok (u, enc)" "(if is_null u then Ok None
         else r_bind (JsonUnsigned u ''NodeRef.length'') (\<lambda>n. Ok (Some n))) = Ok (nr_length n)" by blast
  have "NodeRefValidate (canon_ref n) = Ok ()" using valid by (simp add: canon_ref_valid)
  then show ?thesis
    using u v id_len unfolding enc ref_head_bytes_def
    by (simp add: NodeRefFromMsgpack_def read_fields JsonString_def JsonUnsigned_def [of "JUint _"]
        ucast32_bound canon_ref_eq Let_def)
qed

section \<open>Node fragments\<close>

definition canon_data :: "(Time \<Rightarrow> Time) \<Rightarrow> fragment_data \<Rightarrow> fragment_data" where
  "canon_data tf d = (case d of FChunk c \<Rightarrow> FChunk (canon_chunk tf c) | FNodeRef n \<Rightarrow> FNodeRef (canon_ref n))"

definition canon_fragment :: "(Time \<Rightarrow> Time) \<Rightarrow> NodeFragment \<Rightarrow> NodeFragment" where
  "canon_fragment tf f = f\<lparr>nf_data := canon_data tf (nf_data f)\<rparr>"

definition fragment_wf :: "NodeFragment \<Rightarrow> bool" where
  "fragment_wf f \<longleftrightarrow> (case nf_data f of FChunk c \<Rightarrow> chunk_wf c | FNodeRef n \<Rightarrow> ref_wf n)"

definition data_bytes :: "time_conv \<Rightarrow> msgpack_encoder \<Rightarrow> fragment_data \<Rightarrow> string result" where
  "data_bytes tc tm d = (case d of FChunk c \<Rightarrow> ChunkToMsgpackInto tc c [] | FNodeRef n \<Rightarrow> NodeRefToMsgpackInto tm n [])"

lemma FragmentToMsgpackInto_ok:
  "FragmentToMsgpackInto tc tm f out = Ok bytes \<longleftrightarrow>
     (\<exists>d. data_bytes tc tm (nf_data f) = Ok d \<and>
       bytes = out @ PackString (nf_id f) [] @ PackUint (case nf_data f of FChunk _ \<Rightarrow> 0 | FNodeRef _ \<Rightarrow> 1) [] @
         PackBinary d [] @ (case nf_seq f of Some n \<Rightarrow> PackUint (ucast n) [] | None \<Rightarrow> PackNil []) @
         PackBool (nf_continued f) [])"
  by (auto simp: FragmentToMsgpackInto_def data_bytes_def PackRecord_def pack_append Let_def ok_iff
      split: option.splits fragment_data.splits)

lemma canon_fragment_valid: "FragmentValidate (canon_fragment tf f) = Ok () \<longleftrightarrow> FragmentValidate f = Ok ()"
  by (cases f; cases "nf_data f")
    (simp_all add: FragmentValidate_def canon_fragment_def canon_data_def ok_iff canon_chunk_valid canon_ref_valid)

lemma canon_fragment_eq:
  "\<lparr>nf_id = nf_id f, nf_data = canon_data tf (nf_data f), nf_seq = nf_seq f, nf_continued = nf_continued f\<rparr>
   = canon_fragment tf f"
  by (cases f) (simp add: canon_fragment_def)

lemma fragment_data_roundtrip:
  assumes "data_bytes tc tm d = Ok b" and "length b < 2 ^ 32" and "packs_text tm"
    and "(case d of FChunk c \<Rightarrow> chunk_wf c \<and> ChunkValidate c = Ok () | FNodeRef n \<Rightarrow> ref_wf n \<and> NodeRefValidate n = Ok ())"
  shows "(if (case d of FChunk _ \<Rightarrow> 0 | FNodeRef _ \<Rightarrow> 1) = (0 :: u64)
          then r_bind (ChunkFromMsgpack tc b) (\<lambda>c. Ok (FChunk c))
          else r_bind (NodeRefFromMsgpack b) (\<lambda>n. Ok (FNodeRef n))) = Ok (canon_data (micros tc) d)"
  using assms
  by (auto simp: data_bytes_def ChunkToMsgpackInto_bytes chunk_roundtrip ref_roundtrip canon_data_def
      split: fragment_data.splits)

lemma fragment_roundtrip:
  assumes bytes: "FragmentToMsgpackInto tc tm f [] = Ok bytes" and len: "length bytes < 2 ^ 32"
    and valid: "FragmentValidate f = Ok ()" and wf: "fragment_wf f" and tm: "packs_text tm"
  shows "FragmentFromMsgpack tc bytes = Ok (canon_fragment (micros tc) f)"
proof -
  let ?idx = "(case nf_data f of FChunk _ \<Rightarrow> 0 | FNodeRef _ \<Rightarrow> 1) :: u64"
  let ?seq = "case nf_seq f of Some n \<Rightarrow> PackUint (ucast n) [] | None \<Rightarrow> PackNil []"
  obtain d where d: "data_bytes tc tm (nf_data f) = Ok d" and b: "bytes = PackString (nf_id f) [] @ PackUint ?idx [] @
         PackBinary d [] @ ?seq @ PackBool (nf_continued f) []"
    using bytes by (auto simp: FragmentToMsgpackInto_ok)
  have sizes: "length (nf_id f) < 2 ^ 32" "length d < 2 ^ 32"
    using len b pack_length(1) [of "nf_id f"] pack_length(2) [of d] by simp_all
  have data: "(if ?idx = 0 then r_bind (ChunkFromMsgpack tc d) (\<lambda>c. Ok (FChunk c))
        else r_bind (NodeRefFromMsgpack d) (\<lambda>n. Ok (FNodeRef n))) = Ok (canon_data (micros tc) (nf_data f))"
    using valid wf by (intro fragment_data_roundtrip [OF d sizes(2) tm])
      (auto simp: FragmentValidate_def fragment_wf_def ok_iff split: fragment_data.splits)
  have idx: "\<not> 1 < ?idx" by (simp split: fragment_data.split)
  obtain u where seq: "ReadField (?seq @ PackBool (nf_continued f) []) ''NodeFragment.seq'' = Ok (u, PackBool (nf_continued f) [])"
    "(if is_null u then Ok None
      else r_bind (JsonUnsigned u ''NodeFragment.seq'') (\<lambda>parsed.
             r_then (r_guard (parsed > 0xffffffff) kOutOfRange ''NodeFragment.seq exceeds uint32'')
               (Ok (Some (ucast parsed))))) = Ok (nf_seq f)"
    by (cases "nf_seq f") (simp_all add: read_fields is_null_def JsonUnsigned_def ucast32_bound)
  have cont: "ReadField (PackBool (nf_continued f) []) ''NodeFragment.continued'' = Ok (JBool (nf_continued f), [])"
    using ReadField_Decode [OF decode_bool, where t = "[]"] by simp
  have "FragmentValidate (canon_fragment (micros tc) f) = Ok ()" using valid by (simp add: canon_fragment_valid)
  then show ?thesis
    using data idx seq cont sizes unfolding b
    by (simp add: FragmentFromMsgpack_def read_fields JsonString_def JsonUnsigned_def [of "JUint _"]
        decode_binary(2) canon_fragment_eq Let_def)
qed

section \<open>Lists of records\<close>

lemma PackRecords_ok:
  "PackRecords encode xs out = Ok bytes \<longleftrightarrow>
     (\<exists>bs. list_all2 (\<lambda>x b. encode x [] = Ok b) xs bs \<and> bytes = out @ concat (map (\<lambda>b. PackBinary b []) bs))"
proof (induction xs arbitrary: out)
  case (Cons x xs)
  have "PackRecords encode (x # xs) out = Ok bytes \<longleftrightarrow>
      (\<exists>b bs. encode x [] = Ok b \<and> list_all2 (\<lambda>x b. encode x [] = Ok b) xs bs \<and>
        bytes = out @ concat (map (\<lambda>b. PackBinary b []) (b # bs)))"
    by (auto simp: PackRecord_def ok_iff Cons.IH pack_append)
  then show ?case unfolding list_all2_Cons1 by metis
qed auto

lemma PackList_ok:
  "PackList encode xs out = Ok bytes \<longleftrightarrow>
     (\<exists>bs. list_all2 (\<lambda>x b. encode x [] = Ok b) xs bs \<and>
       bytes = out @ PackArrayHeader (length xs) [] @ concat (map (\<lambda>b. PackBinary b []) bs))"
  by (simp add: PackList_def PackRecords_ok pack_append)

lemma ReadRecords_roundtrip:
  assumes "list_all2 (\<lambda>x b. length b < 2 ^ 32 \<and> decode_one b = Ok (g x)) xs bs"
  shows "ReadRecords decode_one (length xs) (concat (map (\<lambda>b. PackBinary b []) bs) @ t) = Ok (map g xs, t)"
  using assms by (induction rule: list_all2_induct) (simp_all add: decode_binary(2))

lemma binary_list_sizes:
  assumes "length (concat (map (\<lambda>b. PackBinary b []) bs)) < 2 ^ 32"
  shows "length bs < 2 ^ 32" and "b \<in> set bs \<Longrightarrow> length b < 2 ^ 32"
  using assms length_le_concat_map [of "\<lambda>b. PackBinary b []" bs] length_le_concat_member [of b bs "\<lambda>b. PackBinary b []"]
    pack_length(2) [of b]
  by simp_all

lemma DecodeBinaryList_roundtrip:
  assumes bs: "list_all2 (\<lambda>x b. encode x [] = Ok b) xs bs"
    and len: "length (concat (map (\<lambda>b. PackBinary b []) bs)) < 2 ^ 32"
    and rt: "\<And>x b. x \<in> set xs \<Longrightarrow> encode x [] = Ok b \<Longrightarrow> length b < 2 ^ 32 \<Longrightarrow> decode_one b = Ok (g x)"
  shows "DecodeBinaryList field decode_one
      (PackArrayHeader (length xs) [] @ concat (map (\<lambda>b. PackBinary b []) bs) @ t) = Ok (map g xs, t)"
proof -
  have "length xs < 2 ^ 32"
    using binary_list_sizes(1) [OF len] list_all2_lengthD [OF bs] by simp
  moreover have "list_all2 (\<lambda>x b. length b < 2 ^ 32 \<and> decode_one b = Ok (g x)) xs bs"
    using bs rt binary_list_sizes(2) [OF len] by (fastforce simp: list_all2_conv_all_nth)
  ultimately show ?thesis
    by (simp add: DecodeBinaryList_def array_header(2) ReadRecords_roundtrip)
qed

section \<open>Ports and actions\<close>

lemma PortToMsgpackInto_bytes: "PortToMsgpackInto p out = Ok (out @ PackString (pt_name p) [] @ PackString (pt_id p) [])"
  by (simp add: PortToMsgpackInto_def pack_append)

lemma read_string_end: "length v < 2 ^ 32 \<Longrightarrow> ReadField (PackString v []) field = Ok (JString v, [])"
  using ReadField_Decode [OF decode_string, of v "[]" field] by simp

lemma port_eq: "\<lparr>pt_name = pt_name p, pt_id = pt_id p\<rparr> = p"
  by (cases p) simp

lemma port_roundtrip:
  assumes "PortToMsgpackInto p [] = Ok b" and "length b < 2 ^ 32" and "PortValidate p = Ok ()"
  shows "PortFromMsgpack b = Ok p"
proof -
  have "length (pt_name p) < 2 ^ 32" "length (pt_id p) < 2 ^ 32"
    using assms(1,2) pack_length(1) [of "pt_name p"] pack_length(1) [of "pt_id p"]
    by (auto simp: PortToMsgpackInto_bytes)
  then show ?thesis
    using assms by (auto simp: PortToMsgpackInto_bytes PortFromMsgpack_def read_fields read_string_end JsonString_def
        port_eq Let_def)
qed

lemma decode_binaries:
  assumes "\<forall>b\<in>set bs. length b < 2 ^ 32" and "d < 256"
  shows "DecodeArray (length bs) d (concat (map (\<lambda>b. PackBinary b []) bs) @ t) = Ok (map (\<lambda>b. JBinary b None) bs, t)"
  using assms by (induction bs) (simp_all add: DecodeArray.simps decode_binary(1))

lemma DecodePorts_roundtrip:
  assumes bs: "list_all2 (\<lambda>p b. PortToMsgpackInto p [] = Ok b) ps bs"
    and len: "length (concat (map (\<lambda>b. PackBinary b []) bs)) < 2 ^ 32"
    and valid: "\<forall>p\<in>set ps. PortValidate p = Ok ()"
  shows "DecodePorts field (PackArrayHeader (length ps) [] @ concat (map (\<lambda>b. PackBinary b []) bs) @ t) = Ok (ps, t)"
proof -
  have n: "length ps = length bs" "length bs < 2 ^ 32"
    using binary_list_sizes(1) [OF len] list_all2_lengthD [OF bs] by simp_all
  have "Decode 0 (PackArrayHeader (length ps) [] @ concat (map (\<lambda>b. PackBinary b []) bs) @ t) =
      Ok (JArray (map (\<lambda>b. JBinary b None) bs), t)"
    using n decode_binaries [of bs 0 t] binary_list_sizes(2) [OF len] by (simp add: array_header(1))
  moreover have "r_map (\<lambda>v. r_bind (GetBinary v field) PortFromMsgpack) (map (\<lambda>b. JBinary b None) bs) = Ok ps"
    using bs valid binary_list_sizes(2) [OF len]
    by (induction rule: list_all2_induct) (simp_all add: GetBinary_def port_roundtrip)
  ultimately show ?thesis
    by (simp add: DecodePorts_def ReadField_Decode)
qed

definition canon_action :: "ActionMessage \<Rightarrow> ActionMessage" where
  "canon_action a = a\<lparr>am_headers := canon_map (am_headers a)\<rparr>"

lemma canon_action_valid: "ActionValidate (canon_action a) = Ok () \<longleftrightarrow> ActionValidate a = Ok ()"
  by (simp add: ActionValidate_def canon_action_def ok_iff case_prod_unfold)

lemma canon_action_eq:
  "\<lparr>am_id = am_id a, am_name = am_name a, am_inputs = am_inputs a, am_outputs = am_outputs a,
    am_headers = canon_map (am_headers a)\<rparr> = canon_action a"
  by (cases a) (simp add: canon_action_def)

lemma action_roundtrip:
  assumes bytes: "ActionToMsgpackInto a [] = Ok bytes" and len: "length bytes < 2 ^ 32"
    and valid: "ActionValidate a = Ok ()" and keys: "distinct (map fst (am_headers a))"
  shows "ActionFromMsgpack bytes = Ok (canon_action a)"
proof -
  obtain ins outs where
    ins: "list_all2 (\<lambda>p b. PortToMsgpackInto p [] = Ok b) (am_inputs a) ins" and
    outs: "list_all2 (\<lambda>p b. PortToMsgpackInto p [] = Ok b) (am_outputs a) outs" and
    b: "bytes = PackString (am_id a) [] @ PackString (am_name a) [] @
      PackArrayHeader (length (am_inputs a)) [] @ concat (map (\<lambda>b. PackBinary b []) ins) @
      PackArrayHeader (length (am_outputs a)) [] @ concat (map (\<lambda>b. PackBinary b []) outs) @ PackByteMap (am_headers a) []"
    using bytes by (auto simp: ActionToMsgpackInto_def ok_iff PackList_ok pack_append)
  have sizes: "length (am_id a) < 2 ^ 32" "length (am_name a) < 2 ^ 32"
    "length (concat (map (\<lambda>b. PackBinary b []) ins)) < 2 ^ 32" "length (concat (map (\<lambda>b. PackBinary b []) outs)) < 2 ^ 32"
    "length (PackByteMap (am_headers a) []) < 2 ^ 32"
    using len b pack_length(1) [of "am_id a"] pack_length(1) [of "am_name a"] by simp_all
  have ports: "\<forall>p\<in>set (am_inputs a). PortValidate p = Ok ()" "\<forall>p\<in>set (am_outputs a). PortValidate p = Ok ()"
    and hdrs: "\<forall>e\<in>set (canon_map (am_headers a)). ValidateName (fst e) = Ok ()"
    using valid by (simp_all add: ActionValidate_def ok_iff case_prod_unfold)
  have "ActionValidate (canon_action a) = Ok ()" using valid by (simp add: canon_action_valid)
  then show ?thesis
    using sizes keys unfolding b
    by (simp add: ActionFromMsgpack_def read_fields JsonString_def DecodePorts_roundtrip [OF ins _ ports(1)]
        DecodePorts_roundtrip [OF outs _ ports(2)] read_byte_map_end DecodeByteMap_entries [OF hdrs] canon_action_eq Let_def)
qed

section \<open>Wire messages\<close>

definition canon_message :: "(Time \<Rightarrow> Time) \<Rightarrow> WireMessage \<Rightarrow> WireMessage" where
  "canon_message tf m =
     \<lparr>wm_node_fragments = map (canon_fragment tf) (wm_node_fragments m),
      wm_actions = map canon_action (wm_actions m), wm_headers = canon_map (wm_headers m)\<rparr>"

definition message_wf :: "WireMessage \<Rightarrow> bool" where
  "message_wf m \<longleftrightarrow>
     (\<forall>f\<in>set (wm_node_fragments m). fragment_wf f) \<and>
     (\<forall>a\<in>set (wm_actions m). distinct (map fst (am_headers a))) \<and> distinct (map fst (wm_headers m))"

lemma canon_message_valid: "MessageValidate (canon_message tf m) = Ok () \<longleftrightarrow> MessageValidate m = Ok ()"
  by (simp add: MessageValidate_def canon_message_def ok_iff case_prod_unfold canon_fragment_valid canon_action_valid)

lemma message_roundtrip:
  assumes bytes: "MessageToMsgpack tc tm m = Ok bytes" and len: "length bytes < 2 ^ 32"
    and wf: "message_wf m" and tm: "packs_text tm"
  shows "MessageFromMsgpack tc bytes = Ok (canon_message (micros tc) m)"
proof -
  have valid: "MessageValidate m = Ok ()" and into: "MessageToMsgpackInto tc tm m [] = Ok bytes"
    using bytes by (auto simp: MessageToMsgpack_def ok_iff)
  obtain fs as where
    fs: "list_all2 (\<lambda>x b. FragmentToMsgpackInto tc tm x [] = Ok b) (wm_node_fragments m) fs" and
    as: "list_all2 (\<lambda>x b. ActionToMsgpackInto x [] = Ok b) (wm_actions m) as" and
    b: "bytes = PackUint kVersion [] @
      PackArrayHeader (length (wm_node_fragments m)) [] @ concat (map (\<lambda>b. PackBinary b []) fs) @
      PackArrayHeader (length (wm_actions m)) [] @ concat (map (\<lambda>b. PackBinary b []) as) @ PackByteMap (wm_headers m) []"
    using into by (auto simp: MessageToMsgpackInto_def ok_iff PackList_ok pack_append)
  have sizes: "length (concat (map (\<lambda>b. PackBinary b []) fs)) < 2 ^ 32" "length (concat (map (\<lambda>b. PackBinary b []) as)) < 2 ^ 32"
    "length (PackByteMap (wm_headers m) []) < 2 ^ 32"
    using len b by simp_all
  have hdrs: "\<forall>e\<in>set (canon_map (wm_headers m)). ValidateName (fst e) = Ok ()"
    using valid by (simp add: MessageValidate_def ok_iff case_prod_unfold)
  have frags: "DecodeBinaryList ''WireMessage.node_fragments'' (FragmentFromMsgpack tc)
      (PackArrayHeader (length (wm_node_fragments m)) [] @ concat (map (\<lambda>b. PackBinary b []) fs) @ t) =
      Ok (map (canon_fragment (micros tc)) (wm_node_fragments m), t)" for t
    using valid wf tm by (intro DecodeBinaryList_roundtrip [where encode = "FragmentToMsgpackInto tc tm", OF fs sizes(1)] fragment_roundtrip)
      (auto simp: MessageValidate_def ok_iff message_wf_def)
  have acts: "DecodeBinaryList ''WireMessage.actions'' ActionFromMsgpack
      (PackArrayHeader (length (wm_actions m)) [] @ concat (map (\<lambda>b. PackBinary b []) as) @ t) =
      Ok (map canon_action (wm_actions m), t)" for t
    using valid wf by (intro DecodeBinaryList_roundtrip [where encode = ActionToMsgpackInto, OF as sizes(2)] action_roundtrip)
      (auto simp: MessageValidate_def ok_iff message_wf_def)
  have "MessageValidate (canon_message (micros tc) m) = Ok ()" using valid by (simp add: canon_message_valid)
  then show ?thesis
    using sizes wf unfolding b
    by (simp add: MessageFromMsgpack_def read_fields JsonUnsigned_def frags acts read_byte_map_end message_wf_def
        DecodeByteMap_entries [OF hdrs] canon_message_def Let_def)
qed

end
