(* ===== verification/Codec_Interface.thy ===== *)
theory Codec_Interface
  imports A11_Prelude
begin

text \<open>
  What A11 relies on of a pair of an encoder and a decoder.  \<open>canon\<close> is the part of a value the encoding carries (a
  hash map without its iteration order, a time in whole microseconds, an empty URL path as the root), \<open>wf\<close> the values the
  encoder is used on and \<open>fits\<close> the outputs within the format's limits.  A strict decoder returns values in a normal form
  \<open>norm\<close> only; a gateway decodes one format and writes another, which carries the normal form whole.  The MessagePack and JSON forms of wire messages, authorization envelopes and URLs are
  interpretations.
\<close>

locale codec =
  fixes enc :: "'a \<Rightarrow> 'b result" and dec :: "'b \<Rightarrow> 'a result" and canon :: "'a \<Rightarrow> 'a"
    and wf :: "'a \<Rightarrow> bool" and fits :: "'b \<Rightarrow> bool"
  assumes dec_enc: "enc x = Ok y \<Longrightarrow> wf x \<Longrightarrow> fits y \<Longrightarrow> dec y = Ok (canon x)"
begin

text \<open>The output identifies the value.\<close>

lemma enc_identifies:
  assumes "enc x = Ok y" "enc x' = Ok y" "wf x" "wf x'" "fits y"
  shows "canon x = canon x'"
  using dec_enc [OF assms(1,3,5)] dec_enc [OF assms(2,4,5)] by simp

end

locale strict_codec = codec enc dec canon wf fits
  for enc :: "'a \<Rightarrow> 'b result" and dec and canon :: "'a \<Rightarrow> 'a" and wf and fits +
  fixes norm :: "'a \<Rightarrow> 'a"
  assumes dec_strict: "dec y = Ok x \<Longrightarrow> wf x \<and> norm x = x"
begin

text \<open>A relay passes on what it decoded, where the encoding carries all of it.\<close>

lemma relay:
  assumes "dec y = Ok x" "enc x = Ok y'" "fits y'" "canon x = x"
  shows "dec y' = Ok x"
  using dec_enc [OF assms(2) _ assms(3)] dec_strict [OF assms(1)] assms(4) by simp

end

locale gateway = inward: strict_codec enc dec canon wf fits norm + outward: codec enc' dec' norm wf fits'
  for enc :: "'a \<Rightarrow> 'b result" and dec and canon and wf and fits and norm and enc' :: "'a \<Rightarrow> 'c result" and dec' and fits'
begin

lemma forwards:
  assumes "dec y = Ok x" "enc' x = Ok z" "fits' z"
  shows "dec' z = Ok x"
  using outward.dec_enc [OF assms(2) _ assms(3)] inward.dec_strict [OF assms(1)] by simp

text \<open>From the sender's value to the value behind the gateway.\<close>

lemma end_to_end:
  assumes "enc x = Ok y" "wf x" "fits y" "dec y = Ok x'" "enc' x' = Ok z" "fits' z"
  shows "dec' z = Ok (canon x)"
  using forwards [OF assms(4-6)] inward.dec_enc [OF assms(1-3)] assms(4) by simp

end

end
