(* ===== verification/Wire_Properties.thy ===== *)
theory Wire_Properties
  imports Wire_Roundtrip Codec_Interface
begin

text \<open>
  The properties of the wire format: round trip of whole messages, independence of the bytes from the
  order of hash maps, and what a decoded message is guaranteed to be.
\<close>

section \<open>An encoder for the text values\<close>

lemma text_packable:
  assumes "text_json n v" and "n + d \<le> 256" and "length (pack_json v) < 2 ^ 32"
  shows "packable d v"
  using assms
proof (induction n v arbitrary: d rule: text_json.induct)
  case (1 n v)
  then show ?case using pack_length(1) [of v] by simp
next
  case (2 n vs)
  have "length vs \<le> length (concat (map pack_json vs))"
    by (rule length_le_concat_map) (simp add: pack_json_not_Nil)
  moreover have "packable (Suc d) v" if "v \<in> set vs" for v
    using 2 that length_le_concat_member [OF that, of pack_json] by (auto simp: list_all_iff)
  ultimately show ?case using 2 by (auto simp: list_all_iff)
next
  case (3 n kvs)
  let ?f = "\<lambda>(k, v). PackString k [] @ pack_json v"
  have "length kvs \<le> length (concat (map ?f kvs))"
    by (rule length_le_concat_map) (simp add: pack_json_not_Nil case_prod_unfold)
  moreover have "length k < 2 ^ 32 \<and> packable (Suc d) v" if kv: "(k, v) \<in> set kvs" for k v
  proof -
    have "length (PackString k [] @ pack_json v) < 2 ^ 32"
      using length_le_concat_member [OF kv, of ?f] 3(4) by simp
    then show ?thesis using 3 kv pack_length(1) [of k] by (auto simp: list_all_iff)
  qed
  ultimately show ?case using 3 by (auto simp: list_all_iff)
qed simp_all

lemma packs_text_pack_json: "packs_text (\<lambda>v. Inr (pack_json v))"
  unfolding packs_text_def using text_packable [of 5 _ 0] decode_pack_json by simp

section \<open>Decoded messages\<close>

text \<open>Every object in a decoded value has its keys in order.\<close>

fun json_sorted :: "json \<Rightarrow> bool" where
  "json_sorted (JArray vs) = list_all json_sorted vs"
| "json_sorted (JObject kvs) = (obj_sorted kvs \<and> list_all (\<lambda>(k, v). json_sorted v) kvs)"
| "json_sorted _ = True"

lemma json_sorted_put:
  "list_all (\<lambda>(k, v). json_sorted v) acc \<Longrightarrow> json_sorted v \<Longrightarrow> list_all (\<lambda>(k, v). json_sorted v) (obj_put k v acc)"
  by (induction k v acc rule: obj_put.induct) auto

lemma DecodeScalar_sorted: "DecodeScalar m s = Ok (v, r) \<Longrightarrow> json_sorted v"
  by (auto simp: DecodeScalar_def DecodeBinary_def ok_iff split: if_splits prod.splits)

lemma DecodeArray_sorted:
  assumes "\<And>s v r. Decode (Suc d) s = Ok (v, r) \<Longrightarrow> json_sorted v"
  shows "DecodeArray n d s = Ok (vs, r) \<Longrightarrow> list_all json_sorted vs"
proof (induction n arbitrary: s vs)
  case 0
  then show ?case by (simp add: DecodeArray.simps [of 0])
next
  case (Suc n)
  then show ?case using assms by (auto simp: DecodeArray.simps [of "Suc n"] ok_iff)
qed

lemma DecodeObject_sorted:
  assumes "\<And>s v r. Decode (Suc d) s = Ok (v, r) \<Longrightarrow> json_sorted v"
  shows "DecodeObject n d acc s = Ok (kvs, r) \<Longrightarrow> json_sorted (JObject acc) \<Longrightarrow> json_sorted (JObject kvs)"
proof (induction n arbitrary: s acc)
  case 0
  then show ?case by (simp add: DecodeObject.simps [of 0])
next
  case (Suc n)
  then obtain c s1 k s2 v s3 where "Decode (Suc d) s2 = Ok (v, s3)" and rest: "DecodeObject n d (obj_put k v acc) s3 = Ok (kvs, r)"
    by (auto simp: DecodeObject.simps [of "Suc n"] ok_iff split: list.splits)
  then have "json_sorted v" by (auto dest: assms)
  then have "json_sorted (JObject (obj_put k v acc))"
    using Suc.prems(2) by (simp add: json_sorted_put obj_sorted_put)
  then show ?case using rest Suc.IH by blast
qed

lemma decode_sorted: "Decode d s = Ok (v, r) \<Longrightarrow> json_sorted v"
proof (induction "259 - d" arbitrary: d s v r rule: less_induct)
  case less
  show ?case
  proof (cases "d > 256")
    case True
    then show ?thesis using less.prems by (simp add: Decode.simps [of d] kMaxMsgpackNesting_def)
  next
    case False
    then have inner: "Decode (Suc d) s = Ok (v, r) \<Longrightarrow> json_sorted v" for s v r
      using less.hyps [of "Suc d"] by simp
    have arr: "DecodeArray n d s = Ok (vs, r) \<Longrightarrow> list_all json_sorted vs" for n s vs r
      by (rule DecodeArray_sorted) (rule inner)
    have obj: "DecodeObject n d [] s = Ok (kvs, r) \<Longrightarrow> json_sorted (JObject kvs)" for n s kvs r
      by (rule DecodeObject_sorted) (auto intro: inner)
    show ?thesis using less.prems
      by (auto simp: Decode.simps [of d] Let_def ok_iff dest: DecodeScalar_sorted arr obj split: if_splits list.splits)
  qed
qed

lemma ReadField_ok [ok_iff]: "ReadField s field = Ok (v, r) \<longleftrightarrow> Decode 0 s = Ok (v, r)"
  by (auto simp: ReadField_def Read_iff_Decode [symmetric] split: sum.splits)

lemma obj_sorted_canon: "obj_sorted m \<Longrightarrow> canon_map m = m \<and> distinct (map fst m)"
  by (simp add: canon_map_def sort_key_id_if_sorted strict_sorted_iff)

lemma r_map_keys:
  assumes "r_map f kvs = Ok m" and "\<And>kv e. f kv = Ok e \<Longrightarrow> fst e = fst kv"
  shows "map fst m = map fst kvs"
  using assms by (induction kvs arbitrary: m) (auto simp: ok_iff)

lemma DecodeByteMap_canon:
  assumes "DecodeByteMap v field = Ok m" and "json_sorted v"
  shows "canon_map m = m \<and> distinct (map fst m)"
proof -
  obtain kvs where v: "v = JObject kvs" using assms(1) by (cases v) (simp_all add: DecodeByteMap_def)
  have "map fst m = map fst kvs"
    using assms(1) unfolding v DecodeByteMap_def
    by (simp, elim r_map_keys) (auto simp: ok_iff split: sum.splits)
  then show ?thesis using assms(2) v by (intro obj_sorted_canon) simp
qed

text \<open>The functions that keep the times a decoder reads.\<close>

definition keeps_read :: "time_conv \<Rightarrow> (Time \<Rightarrow> Time) \<Rightarrow> bool" where
  "keeps_read tc tf \<longleftrightarrow> (\<forall>n. tf (FromUnixMicros tc n) = FromUnixMicros tc n)"

lemma keeps_read_id: "keeps_read tc id"
  by (simp add: keeps_read_def)

lemma keeps_read_floor: "times_ok tc \<Longrightarrow> keeps_read tc floor_micros"
  by (simp add: keeps_read_def floor_micros_read)

lemma MetadataFromMsgpack_canon:
  assumes "keeps_read tc tf"
  shows "MetadataFromMsgpack tc b = Ok m \<Longrightarrow> canon_metadata tf m = m \<and> distinct (map fst (cm_attributes m))"
  using assms unfolding keeps_read_def
  by (auto simp: MetadataFromMsgpack_def Let_def ok_iff canon_metadata_def split: if_splits dest!: decode_sorted DecodeByteMap_canon)

lemma ChunkFromMsgpack_canon:
  assumes "keeps_read tc tf"
  shows "ChunkFromMsgpack tc b = Ok c \<Longrightarrow> canon_chunk tf c = c \<and> chunk_wf c"
  by (auto simp: ChunkFromMsgpack_def Let_def ok_iff canon_chunk_def chunk_wf_def
      split: if_splits dest!: MetadataFromMsgpack_canon [OF assms])

lemma FieldsFromJson_canon:
  assumes "FieldsFromJson v = Ok m" and "json_sorted v"
  shows "canon_map m = m \<and> distinct (map fst m)"
proof -
  obtain kvs where v: "v = JObject kvs" using assms(1) by (cases v) (simp_all add: FieldsFromJson_def)
  have "map fst m = map fst kvs"
    using assms(1) unfolding v FieldsFromJson_def
    by (simp, elim r_map_keys) (auto split: json.splits)
  then show ?thesis using assms(2) v by (intro obj_sorted_canon) simp
qed

lemma json_sorted_member: "list_all (\<lambda>(k, v). json_sorted v) kvs \<Longrightarrow> map_of kvs k = Some v \<Longrightarrow> json_sorted v"
  by (auto simp: list_all_iff dest: map_of_SomeD)

lemma member_fields_canon:
  "list_all (\<lambda>(k, v). json_sorted v) kvs \<Longrightarrow> map_of kvs k = Some v \<Longrightarrow> FieldsFromJson v = Ok m \<Longrightarrow>
   canon_map m = m \<and> distinct (map fst m)"
  by (auto dest: json_sorted_member FieldsFromJson_canon)

lemma CredentialsFromJson_canon:
  assumes "CredentialsFromJson v = Ok c" and "pred_option json_sorted v"
  shows "map_option canon_credentials c = c \<and> credentials_wf c"
  using assms
  by (auto simp: CredentialsFromJson_def ok_iff canon_credentials_def credentials_wf_def canon_map_def [of "[]"]
      split: option.splits if_splits json.splits dest: member_fields_canon)

lemma ServiceFromJson_canon:
  assumes "ServiceFromJson v = Ok s" and "json_sorted v"
  shows "canon_service s = s \<and> credentials_wf (ss_credentials s)"
proof -
  obtain kvs where v: "v = JObject kvs" and c: "CredentialsFromJson (map_of kvs ''credentials'') = Ok (ss_credentials s)"
    using assms(1) by (auto simp: ServiceFromJson_def ok_iff split: json.splits)
  have "pred_option json_sorted (map_of kvs ''credentials'')"
    using assms(2) json_sorted_member [of kvs] unfolding v by (cases "map_of kvs ''credentials''") simp_all
  then show ?thesis using CredentialsFromJson_canon [OF c] by (cases s) (simp add: canon_service_def)
qed

lemma r_map_all:
  assumes "r_map f xs = Ok ys" and "\<And>x y. x \<in> set xs \<Longrightarrow> f x = Ok y \<Longrightarrow> P y"
  shows "\<forall>y\<in>set ys. P y"
  using assms
proof (induction xs arbitrary: ys)
  case (Cons x xs)
  then obtain y ys' where y: "f x = Ok y" "r_map f xs = Ok ys'" "ys = y # ys'" by (auto simp: ok_iff)
  have "P y" using Cons.prems(2) [of x y] y(1) by simp
  moreover have "\<forall>y\<in>set ys'. P y" by (rule Cons.IH [OF y(2)]) (rule Cons.prems(2), simp_all)
  ultimately show ?case using y(3) by simp
qed simp

lemma StorageIdentityFromJsonValue_canon:
  assumes "StorageIdentityFromJsonValue j = Ok v" and "json_sorted j"
  shows "canon_identity v = v \<and> identity_wf v"
proof -
  obtain kvs where j: "j = JObject kvs" and c: "CredentialsFromJson (map_of kvs ''credentials'') = Ok (si_credentials v)"
    and s: "si_services v = [] \<or> (\<exists>entries. map_of kvs ''services'' = Some (JArray entries) \<and>
      r_map ServiceFromJson entries = Ok (si_services v))"
    using assms(1) by (auto simp: StorageIdentityFromJsonValue_def ok_iff Let_def split: json.splits option.splits)
  have members: "json_sorted x" if "map_of kvs k = Some x" for k x
    using assms(2) json_sorted_member that unfolding j by auto
  have creds: "map_option canon_credentials (si_credentials v) = si_credentials v \<and> credentials_wf (si_credentials v)"
    by (rule CredentialsFromJson_canon [OF c]) (cases "map_of kvs ''credentials''", simp_all add: members)
  have "\<forall>s\<in>set (si_services v). canon_service s = s \<and> credentials_wf (ss_credentials s)"
    using s
  proof
    assume "\<exists>entries. map_of kvs ''services'' = Some (JArray entries) \<and> r_map ServiceFromJson entries = Ok (si_services v)"
    then obtain entries where entries: "map_of kvs ''services'' = Some (JArray entries)"
      "r_map ServiceFromJson entries = Ok (si_services v)" by blast
    have "\<forall>e\<in>set entries. json_sorted e" using members [OF entries(1)] by (simp add: list_all_iff)
    then show ?thesis by (intro r_map_all [OF entries(2)]) (auto dest: ServiceFromJson_canon)
  qed simp
  then show ?thesis
    using creds by (cases v) (simp add: canon_identity_def identity_wf_def map_idI)
qed

lemma NodeRefFromMsgpack_canon: "NodeRefFromMsgpack b = Ok n \<Longrightarrow> canon_ref n = n \<and> ref_wf n"
  by (auto simp: NodeRefFromMsgpack_def Let_def ok_iff canon_ref_def ref_wf_def
      split: if_splits dest!: decode_sorted StorageIdentityFromJsonValue_canon)

lemma case_bool_ok [ok_iff]:
  "(case v of JBool b \<Rightarrow> g b | _ \<Rightarrow> Err code message) = Ok x \<longleftrightarrow> (\<exists>b. v = JBool b \<and> g b = Ok x)"
  by (cases v) simp_all

lemma FragmentFromMsgpack_data:
  assumes "FragmentFromMsgpack tc b = Ok f"
  shows "\<exists>e. (\<exists>c. nf_data f = FChunk c \<and> ChunkFromMsgpack tc e = Ok c) \<or> (\<exists>n. nf_data f = FNodeRef n \<and> NodeRefFromMsgpack e = Ok n)"
proof -
  obtain k e where "(if k = (0 :: u64) then r_bind (ChunkFromMsgpack tc e) (\<lambda>c. Ok (FChunk c))
      else r_bind (NodeRefFromMsgpack e) (\<lambda>n. Ok (FNodeRef n))) = Ok (nf_data f)"
    using assms unfolding FragmentFromMsgpack_def Let_def ok_iff case_prod_unfold by force
  then show ?thesis by (auto simp: ok_iff eq_commute [of _ "nf_data f"] split: if_splits)
qed

lemma FragmentFromMsgpack_canon:
  assumes "keeps_read tc tf"
  shows "FragmentFromMsgpack tc b = Ok f \<Longrightarrow> canon_fragment tf f = f \<and> fragment_wf f"
  using FragmentFromMsgpack_data [of tc b f]
  by (cases f) (auto simp: canon_fragment_def fragment_wf_def canon_data_def
      dest!: ChunkFromMsgpack_canon [OF assms] NodeRefFromMsgpack_canon)

lemma ActionFromMsgpack_canon:
  "ActionFromMsgpack b = Ok a \<Longrightarrow> canon_action a = a \<and> distinct (map fst (am_headers a))"
  by (auto simp: ActionFromMsgpack_def Let_def ok_iff canon_action_def dest!: decode_sorted DecodeByteMap_canon)

lemma ReadRecords_all:
  assumes "\<And>b x. f b = Ok x \<Longrightarrow> P x"
  shows "ReadRecords f n s = Ok (xs, r) \<Longrightarrow> \<forall>x\<in>set xs. P x"
proof (induction n arbitrary: s xs)
  case (Suc n)
  then obtain b s1 x ys where "f b = Ok x" "ReadRecords f n s1 = Ok (ys, r)" "xs = x # ys"
    by (auto simp: ok_iff)
  then show ?case using Suc.IH assms [of b x] by simp
qed simp

lemma DecodeBinaryList_all:
  assumes "DecodeBinaryList field f s = Ok (xs, r)" and "\<And>b x. f b = Ok x \<Longrightarrow> P x"
  shows "\<forall>x\<in>set xs. P x"
proof -
  obtain n s1 where "ReadRecords f n s1 = Ok (xs, r)"
    using assms(1) by (auto simp: DecodeBinaryList_def split: sum.splits)
  with assms(2) show ?thesis by (rule ReadRecords_all)
qed

lemma MessageFromMsgpack_canon:
  assumes "MessageFromMsgpack tc b = Ok m" and read: "keeps_read tc tf"
  shows "canon_message tf m = m" and "message_wf m" and "MessageValidate m = Ok ()"
proof -
  obtain f1 s1 r1 f2 s2 r2 f3 v where
    fs: "DecodeBinaryList f1 (FragmentFromMsgpack tc) s1 = Ok (wm_node_fragments m, r1)" and
    as: "DecodeBinaryList f2 ActionFromMsgpack s2 = Ok (wm_actions m, r2)" and
    hs: "DecodeByteMap v f3 = Ok (wm_headers m)" "json_sorted v" and
    valid: "MessageValidate m = Ok ()"
    using assms(1) by (auto simp: MessageFromMsgpack_def Let_def ok_iff dest: decode_sorted)
  have "\<forall>f\<in>set (wm_node_fragments m). canon_fragment tf f = f \<and> fragment_wf f"
    by (rule DecodeBinaryList_all [OF fs]) (rule FragmentFromMsgpack_canon [OF read])
  moreover have "\<forall>a\<in>set (wm_actions m). canon_action a = a \<and> distinct (map fst (am_headers a))"
    by (rule DecodeBinaryList_all [OF as]) (rule ActionFromMsgpack_canon)
  ultimately show "canon_message tf m = m" "message_wf m"
    using DecodeByteMap_canon [OF hs] by (cases m, simp add: canon_message_def message_wf_def map_idI)+
  show "MessageValidate m = Ok ()" by (rule valid)
qed

section \<open>The bytes do not depend on the order of hash maps\<close>

lemma canon_map_idem [simp]: "canon_map (canon_map m) = canon_map m"
  by (simp add: canon_map_def sort_key_id_if_sorted)

lemma PackByteMap_canon: "PackByteMap (canon_map m) out = PackByteMap m out"
  using canon_map_idem [of m] by (simp add: PackByteMap_def canon_map_def)

text \<open>The functions whose results are written as the times themselves.\<close>

definition keeps_written :: "time_conv \<Rightarrow> (Time \<Rightarrow> Time) \<Rightarrow> bool" where
  "keeps_written tc tf \<longleftrightarrow> (\<forall>t. ToUnixMicros tc (tf t) = ToUnixMicros tc t)"

lemma keeps_written_id: "keeps_written tc id"
  by (simp add: keeps_written_def)

lemma keeps_written_floor: "times_ok tc \<Longrightarrow> keeps_written tc floor_micros"
  by (simp add: keeps_written_def written_micros)

lemma MetadataToMsgpackInto_canon:
  assumes "keeps_written tc tf"
  shows "MetadataToMsgpackInto tc (canon_metadata tf m) out = MetadataToMsgpackInto tc m out"
  using assms by (cases m; cases "cm_timestamp m")
    (simp_all add: MetadataToMsgpackInto_def canon_metadata_def PackByteMap_canon keeps_written_def Let_def)

lemma ChunkToMsgpackInto_canon:
  assumes "keeps_written tc tf"
  shows "ChunkToMsgpackInto tc (canon_chunk tf c) out = ChunkToMsgpackInto tc c out"
  by (cases c; cases "ch_metadata c")
    (simp_all add: ChunkToMsgpackInto_def canon_chunk_def PackRecord_def MetadataToMsgpackInto_canon [OF assms])

lemma CredentialsToJson_canon:
  assumes "distinct (map fst (sc_fields c))"
  shows "CredentialsToJson (canon_credentials c) = CredentialsToJson c"
proof -
  have "distinct (map fst (canon_map (sc_fields c)))" using assms by simp
  then show ?thesis using fields_json [OF assms] fields_json [of "canon_map (sc_fields c)"]
    by (simp add: CredentialsToJson_def canon_credentials_def)
qed

lemma ServiceToJson_canon: "credentials_wf (ss_credentials s) \<Longrightarrow> ServiceToJson (canon_service s) = ServiceToJson s"
  by (cases "ss_credentials s") (simp_all add: ServiceToJson_def canon_service_def credentials_wf_def CredentialsToJson_canon)

lemma StorageIdentityToJsonValue_canon:
  assumes "identity_wf v"
  shows "StorageIdentityToJsonValue (canon_identity v) = Ok j \<longleftrightarrow> StorageIdentityToJsonValue v = Ok j"
proof -
  have services: "map ServiceToJson (map canon_service (si_services v)) = map ServiceToJson (si_services v)"
    using assms by (simp add: identity_wf_def ServiceToJson_canon)
  show ?thesis
    using assms services
    by (cases "si_credentials v"; simp add: StorageIdentityToJsonValue_def ok_iff canon_identity_valid)
      (simp_all add: canon_identity_def identity_wf_def credentials_wf_def CredentialsToJson_canon o_def cong: map_cong)
qed

lemma NodeRefToMsgpackInto_canon:
  assumes "ref_wf n"
  shows "NodeRefToMsgpackInto tm (canon_ref n) out = Ok b \<longleftrightarrow> NodeRefToMsgpackInto tm n out = Ok b"
  using assms by (cases "nr_storage n")
    (simp_all add: NodeRefToMsgpackInto_def canon_ref_def ref_wf_def ok_iff StorageIdentityToJsonValue_canon Let_def)

lemma FragmentToMsgpackInto_canon:
  assumes "fragment_wf f" and "keeps_written tc tf"
  shows "FragmentToMsgpackInto tc tm (canon_fragment tf f) out = Ok b \<longleftrightarrow> FragmentToMsgpackInto tc tm f out = Ok b"
  using assms by (cases "nf_data f")
    (simp_all add: FragmentToMsgpackInto_def canon_fragment_def canon_data_def fragment_wf_def PackRecord_def ok_iff
      ChunkToMsgpackInto_canon NodeRefToMsgpackInto_canon Let_def)

lemma ActionToMsgpackInto_canon: "ActionToMsgpackInto (canon_action a) out = ActionToMsgpackInto a out"
  by (simp add: ActionToMsgpackInto_def canon_action_def PackByteMap_canon)

lemma PackRecords_canon:
  assumes "\<And>x out b. x \<in> set xs \<Longrightarrow> encode (canon x) out = Ok b \<longleftrightarrow> encode x out = Ok b"
  shows "PackRecords encode (map canon xs) out = Ok b \<longleftrightarrow> PackRecords encode xs out = Ok b"
  using assms by (induction xs arbitrary: out) (simp_all add: PackRecord_def ok_iff)

lemma PackList_canon:
  assumes "\<And>x out b. x \<in> set xs \<Longrightarrow> encode (canon x) out = Ok b \<longleftrightarrow> encode x out = Ok b"
  shows "PackList encode (map canon xs) out = Ok b \<longleftrightarrow> PackList encode xs out = Ok b"
  unfolding PackList_def by (simp add: PackRecords_canon assms)

lemma MessageToMsgpack_canon:
  assumes "message_wf m" and "keeps_written tc tf"
  shows "MessageToMsgpack tc tm (canon_message tf m) = Ok b \<longleftrightarrow> MessageToMsgpack tc tm m = Ok b"
proof -
  have "PackList (FragmentToMsgpackInto tc tm) (map (canon_fragment tf) (wm_node_fragments m)) out = Ok r \<longleftrightarrow>
      PackList (FragmentToMsgpackInto tc tm) (wm_node_fragments m) out = Ok r" for out r
    using assms by (intro PackList_canon FragmentToMsgpackInto_canon) (simp add: message_wf_def)
  moreover have "PackList ActionToMsgpackInto (map canon_action (wm_actions m)) out = Ok r \<longleftrightarrow>
      PackList ActionToMsgpackInto (wm_actions m) out = Ok r" for out r
    by (intro PackList_canon) (simp add: ActionToMsgpackInto_canon)
  ultimately show ?thesis
    by (simp add: MessageToMsgpack_def MessageToMsgpackInto_def ok_iff canon_message_valid)
      (simp add: canon_message_def PackByteMap_canon)
qed

section \<open>Properties of the wire format\<close>

definition sample_identity :: StorageIdentity where
  "sample_identity = \<lparr>si_id = ''disk'', si_credentials = Some \<lparr>sc_scheme = ''basic'', sc_fields = [(''user'', ''u''), (''pass'', ''p'')]\<rparr>,
     si_services = [\<lparr>ss_role = ''reader'', ss_endpoint = ''host:1'', ss_credentials = None\<rparr>]\<rparr>"

definition sample_chunk_fragment :: NodeFragment where
  "sample_chunk_fragment = \<lparr>nf_id = ''n1'', nf_data = FChunk \<lparr>
     ch_metadata = Some \<lparr>cm_mimetype = ''text/plain'', cm_timestamp = Some (Instant (- 3997)), cm_attributes = [(''b'', ''2''), (''a'', ''1'')]\<rparr>,
     ch_ref = [], ch_data = ''hello'', ch_object = None\<rparr>, nf_seq = Some 3, nf_continued = True\<rparr>"

definition sample_ref_fragment :: NodeFragment where
  "sample_ref_fragment = \<lparr>nf_id = ''n2'', nf_data = FNodeRef \<lparr>nr_id = ''src'', nr_offset = 2, nr_length = Some 70000,
     nr_storage = Some sample_identity\<rparr>, nf_seq = None, nf_continued = False\<rparr>"

definition sample_action :: ActionMessage where
  "sample_action = \<lparr>am_id = ''a1'', am_name = ''echo'', am_inputs = [\<lparr>pt_name = ''in'', pt_id = ''n1''\<rparr>],
     am_outputs = [], am_headers = []\<rparr>"

definition sample_message :: WireMessage where
  "sample_message = \<lparr>wm_node_fragments = [sample_chunk_fragment, sample_ref_fragment], wm_actions = [sample_action],
     wm_headers = [(''z'', ''9''), (''k'', ''v'')]\<rparr>"

lemmas sample_defs = sample_message_def sample_chunk_fragment_def sample_ref_fragment_def sample_action_def

lemma sample_message_wf: "message_wf sample_message"
  by (simp add: sample_defs sample_identity_def message_wf_def fragment_wf_def chunk_wf_def ref_wf_def identity_wf_def
      credentials_wf_def)

lemma sample_identity_valid: "ValidateIdentity sample_identity = Ok ()"
  by (simp add: sample_identity_def ValidateIdentity_def ValidateCredentialsOpt_def ValidateCredentials_def
      ValidateService_def ok_iff name_simps)

lemma sample_message_valid: "MessageValidate sample_message = Ok ()"
  by (simp add: sample_defs MessageValidate_def FragmentValidate_def ChunkValidate_def MetadataValidate_def
      NodeRefValidate_def sample_identity_valid ActionValidate_def PortValidate_def kUint32Range_def ok_iff name_simps)

lemma pack_sizes:
  "length (PackString v []) = (if length v < 32 then 1 else if length v \<le> 0xff then 2 else if length v \<le> 0xffff then 3 else 5) + length v"
  "length (PackBinary v []) = (if length v \<le> 0xff then 2 else if length v \<le> 0xffff then 3 else 5) + length v"
  "length (PackArrayHeader n []) = (if n < 16 then 1 else if n \<le> 0xffff then 3 else 5)"
  "length (PackMapHeader n []) = (if n < 16 then 1 else if n \<le> 0xffff then 3 else 5)"
  "length (PackNil []) = 1" "length (PackBool b []) = 1" "length (PackUint w []) \<le> 9" "length (PackInt w []) \<le> 9"
  by (simp_all add: PackString_def PackBinary_def PackArrayHeader_def PackMapHeader_def PackNil_def PackBool_def
      PackUint_def PackInt_def Let_def AppendByte_def AppendBigEndian_def)

lemma length_PackByteMap:
  "length (PackByteMap m []) = length (PackMapHeader (length m) []) + (\<Sum>e\<leftarrow>m. length (entry_bytes e))"
proof -
  have "mset (map (\<lambda>e. length (entry_bytes e)) (sort_key fst m)) = mset (map (\<lambda>e. length (entry_bytes e)) m)" by simp
  then have "(\<Sum>e\<leftarrow>sort_key fst m. length (entry_bytes e)) = (\<Sum>e\<leftarrow>m. length (entry_bytes e))"
    by (metis sum_mset_sum_list)
  then show ?thesis by (simp add: PackByteMap_def Let_def fold_PackEntry length_concat o_def)
qed

definition sample_encoder :: msgpack_encoder where
  "sample_encoder v = Inr (pack_json v)"

lemma sample_identity_value: "StorageIdentityToJsonValue sample_identity = Ok (JObject
  [(''credentials'', JObject [(''fields'', JObject [(''pass'', JString ''p''), (''user'', JString ''u'')]), (''scheme'', JString ''basic'')]),
   (''id'', JString ''disk''),
   (''services'', JArray [JObject [(''endpoint'', JString ''host:1''), (''role'', JString ''reader'')]])])"
  by (simp add: StorageIdentityToJsonValue_def sample_identity_valid)
    (simp add: sample_identity_def make_object_def CredentialsToJson_def ServiceToJson_def less_char_def)

lemma sample_chunk_bytes: "\<exists>b. FragmentToMsgpackInto tc sample_encoder sample_chunk_fragment [] = Ok b \<and> length b \<le> 200"
  using pack_sizes(7) [of 0] pack_sizes(7) [of 3] pack_sizes(8) [of "ToUnixMicros tc (Instant (- 3997))"]
  by (simp add: sample_defs FragmentToMsgpackInto_def PackRecord_def ChunkToMsgpackInto_bytes pack_append Let_def
      length_PackByteMap pack_sizes(1-6) entry_bytes_def chunk_bytes_def metadata_bytes_def)

lemma sample_ref_bytes: "\<exists>b. FragmentToMsgpackInto tc sample_encoder sample_ref_fragment [] = Ok b \<and> length b \<le> 200"
  using pack_sizes(7) [of 2] pack_sizes(7) [of 70000] pack_sizes(7) [of 1]
  by (simp add: sample_defs FragmentToMsgpackInto_def PackRecord_def NodeRefToMsgpackInto_def sample_identity_value
      Pack_def PackMsgpack_def sample_encoder_def pack_append Let_def pack_sizes(1-6))

lemma sample_action_bytes: "\<exists>b. ActionToMsgpackInto sample_action [] = Ok b \<and> length b \<le> 200"
  by (simp add: sample_defs ActionToMsgpackInto_def PackList_def PackRecord_def PortToMsgpackInto_def pack_append
      length_PackByteMap pack_sizes(1-6))

lemma sample_message_bytes: "\<exists>b. MessageToMsgpack tc sample_encoder sample_message = Ok b \<and> length b < 2 ^ 32"
proof -
  obtain b1 b2 b3 where "FragmentToMsgpackInto tc sample_encoder sample_chunk_fragment [] = Ok b1" "length b1 \<le> 200"
    "FragmentToMsgpackInto tc sample_encoder sample_ref_fragment [] = Ok b2" "length b2 \<le> 200"
    "ActionToMsgpackInto sample_action [] = Ok b3" "length b3 \<le> 200"
    using sample_chunk_bytes [of tc] sample_ref_bytes [of tc] sample_action_bytes by auto
  then show ?thesis
    using sample_message_valid pack_sizes(7) [of kVersion]
    by (simp add: MessageToMsgpack_def MessageToMsgpackInto_def)
      (simp add: sample_message_def PackList_def PackRecord_def pack_append length_PackByteMap pack_sizes(1-6) entry_bytes_def)
qed

lemma sample_packs_text: "packs_text sample_encoder"
  using packs_text_pack_json by (simp add: sample_encoder_def [abs_def])

text \<open>An instance of the conversions, on which the times of the sample message lose their part of a microsecond.\<close>

definition sample_conv :: time_conv where
  "sample_conv = \<lparr>ToUnixMicros = (\<lambda>t. word_of_int (unix_micros t)), FromUnixMicros = (\<lambda>n. Instant (4000 * sint n))\<rparr>"

lemma sample_conv_ok: "times_ok sample_conv"
proof -
  have "signed_take_bit 63 (unix_micros t) = unix_micros t" for t
    using unix_micros_bounds [of t] by (intro signed_take_bit_int_eq_self) simp_all
  then show ?thesis by (simp add: times_ok_def sample_conv_def sint_sbintrunc')
qed

lemma sample_floored: "floor_micros (Instant (- 3997)) = Instant (- 4000)"
  by (simp add: floor_micros_def unix_micros_def clamp_int64_def)

lemma floor_roundtrip:
  assumes "MessageToMsgpack tc tm m = Ok bytes" and "length bytes < 2 ^ 32" and "message_wf m" and "packs_text tm" and "times_ok tc"
  shows "MessageFromMsgpack tc bytes = Ok (canon_message floor_micros m)"
  using message_roundtrip [OF assms(1-4)] by (simp add: micros_floor [OF assms(5)])

lemma sample_message_decodes:
  "\<exists>b. MessageToMsgpack sample_conv sample_encoder sample_message = Ok b \<and> length b < 2 ^ 32 \<and>
       MessageFromMsgpack sample_conv b = Ok (canon_message floor_micros sample_message)"
  using sample_message_bytes floor_roundtrip sample_message_wf sample_packs_text sample_conv_ok by blast

text \<open>The MessagePack form of messages is a strict codec: what it carries has its times in whole microseconds, and what is
  decoded has its hash maps in key order.\<close>

interpretation wire_msgpack: strict_codec "MessageToMsgpack tc tm" "MessageFromMsgpack tc" "canon_message floor_micros" message_wf
  "\<lambda>bytes. length bytes < 2 ^ 32 \<and> packs_text tm \<and> times_ok tc" "canon_message id" for tc tm
  by unfold_locales (use floor_roundtrip MessageFromMsgpack_canon keeps_read_id in blast)+

text \<open>The messages whose times are whole microseconds in the range of 64 bits are carried whole.\<close>

definition whole_micros :: "WireMessage \<Rightarrow> bool" where
  "whole_micros m \<longleftrightarrow> (\<forall>f\<in>set (wm_node_fragments m). \<forall>c md t.
     nf_data f = FChunk c \<longrightarrow> ch_metadata c = Some md \<longrightarrow> cm_timestamp md = Some t \<longrightarrow> floor_micros t = t)"

lemma canon_message_whole: "whole_micros m \<Longrightarrow> canon_message floor_micros m = canon_message id m"
proof -
  assume whole: "whole_micros m"
  have "canon_fragment floor_micros f = canon_fragment id f" if f: "f \<in> set (wm_node_fragments m)" for f
  proof (cases "nf_data f")
    case (FChunk c)
    then have "canon_metadata floor_micros md = canon_metadata id md" if "ch_metadata c = Some md" for md
      using whole f that by (cases "cm_timestamp md") (simp_all add: whole_micros_def canon_metadata_def)
    then show ?thesis using FChunk by (cases "ch_metadata c") (simp_all add: canon_fragment_def canon_data_def canon_chunk_def)
  qed (simp add: canon_fragment_def canon_data_def)
  then show ?thesis by (simp add: canon_message_def)
qed

lemma whole_floored: "whole_micros (canon_message floor_micros m)"
  by (auto simp: whole_micros_def canon_message_def canon_fragment_def canon_data_def canon_chunk_def canon_metadata_def
      split: fragment_data.splits)

text \<open>C3. Encoding a message and decoding the bytes gives the message back, with the entries of its
  hash maps in key order and each timestamp as the encoding carries it: the microsecond that had begun, or the nearest
  one of 64 bits.  A message whose timestamps are such microseconds comes back with them unchanged.  This covers node
  fragments with chunks or references (storage identity and credentials included), actions with their ports, and
  headers.  The message's hash maps have distinct keys, its chunks have been materialized, \<open>to_msgpack\<close> writes storage
  identities so that they decode to themselves, \<open>absl::ToUnixMicros\<close> rounds down and saturates, and
  \<open>absl::FromUnixMicros\<close> is exact.\<close>

theorem wire_message_roundtrip:
  assumes "MessageToMsgpack tc tm m = Ok bytes" and "length bytes < 2 ^ 32" and "message_wf m" and "packs_text tm" and "times_ok tc"
  shows "MessageFromMsgpack tc bytes = Ok (canon_message floor_micros m) \<and>
    (whole_micros m \<longrightarrow> MessageFromMsgpack tc bytes = Ok (canon_message id m))"
  using floor_roundtrip [OF assms] canon_message_whole by simp

theorem wire_message_roundtrip_witness:
  "\<exists>bytes. MessageToMsgpack sample_conv sample_encoder sample_message = Ok bytes \<and> length bytes < 2 ^ 32 \<and>
     message_wf sample_message \<and> packs_text sample_encoder \<and> times_ok sample_conv \<and>
     MessageFromMsgpack sample_conv bytes = Ok (canon_message floor_micros sample_message) \<and>
     MessageToMsgpack sample_conv sample_encoder (canon_message floor_micros sample_message) = Ok bytes \<and>
     whole_micros (canon_message floor_micros sample_message) \<and>
     MessageFromMsgpack sample_conv bytes = Ok (canon_message id (canon_message floor_micros sample_message))"
proof -
  obtain b where b: "MessageToMsgpack sample_conv sample_encoder sample_message = Ok b" "length b < 2 ^ 32"
    using sample_message_bytes by blast
  have c: "MessageToMsgpack sample_conv sample_encoder (canon_message floor_micros sample_message) = Ok b"
    using b(1) by (simp add: MessageToMsgpack_canon [OF sample_message_wf keeps_written_floor [OF sample_conv_ok]])
  have first: "MessageFromMsgpack sample_conv b = Ok (canon_message floor_micros sample_message)"
    using wire_message_roundtrip [OF b sample_message_wf sample_packs_text sample_conv_ok] by simp
  then have "message_wf (canon_message floor_micros sample_message)" by (rule MessageFromMsgpack_canon(2) [OF _ keeps_read_id])
  from wire_message_roundtrip [OF c b(2) this sample_packs_text sample_conv_ok] show ?thesis
    using b c first whole_floored sample_message_wf sample_packs_text sample_conv_ok by blast
qed

text \<open>Two messages that differ in the iteration order of their hash maps only are encoded as the
  same bytes.\<close>

theorem wire_bytes_ignore_map_order:
  assumes "message_wf m" and "message_wf m'" and "canon_message id m = canon_message id m'"
  shows "MessageToMsgpack tc tm m = Ok bytes \<longleftrightarrow> MessageToMsgpack tc tm m' = Ok bytes"
  using assms MessageToMsgpack_canon keeps_written_id by metis

theorem wire_bytes_ignore_map_order_witness:
  "\<exists>bytes. MessageToMsgpack sample_conv sample_encoder sample_message = Ok bytes \<and>
     MessageToMsgpack sample_conv sample_encoder (sample_message\<lparr>wm_headers := [(''k'', ''v''), (''z'', ''9'')]\<rparr>) = Ok bytes"
proof -
  have "message_wf (sample_message\<lparr>wm_headers := [(''k'', ''v''), (''z'', ''9'')]\<rparr>)"
    using sample_message_wf by (simp add: message_wf_def)
  moreover have "canon_message id sample_message = canon_message id (sample_message\<lparr>wm_headers := [(''k'', ''v''), (''z'', ''9'')]\<rparr>)"
    by (simp add: canon_message_def sample_message_def canon_map_def less_char_def)
  ultimately show ?thesis
    using wire_bytes_ignore_map_order [OF sample_message_wf] sample_message_bytes by blast
qed

text \<open>C4. Whatever bytes arrive, a message the decoder accepts is valid, its hash maps have distinct
  keys and are in key order, and its chunks hold no unencoded object.\<close>

theorem decoded_message_canonical:
  assumes "MessageFromMsgpack tc bytes = Ok m"
  shows "MessageValidate m = Ok () \<and> message_wf m \<and> canon_message id m = m"
  using MessageFromMsgpack_canon [OF assms keeps_read_id] by simp

theorem decoded_message_canonical_witness:
  "\<exists>bytes m. MessageFromMsgpack sample_conv bytes = Ok m \<and> wm_actions m \<noteq> [] \<and> MessageValidate m = Ok () \<and> message_wf m \<and>
     canon_message id m = m"
proof -
  obtain b where b: "MessageFromMsgpack sample_conv b = Ok (canon_message floor_micros sample_message)"
    using sample_message_decodes by blast
  moreover have "wm_actions (canon_message floor_micros sample_message) \<noteq> []"
    by (simp add: canon_message_def sample_message_def)
  ultimately show ?thesis using decoded_message_canonical [OF b] by blast
qed

text \<open>A relay does not change a message: decoding bytes, encoding the message again and decoding
  that gives the same message.\<close>

theorem relayed_message_unchanged:
  assumes "MessageFromMsgpack tc bytes = Ok m" and "MessageToMsgpack tc tm m = Ok again"
    and "length again < 2 ^ 32" and "packs_text tm" and "times_ok tc"
  shows "MessageFromMsgpack tc again = Ok m"
  using wire_msgpack.relay [OF assms(1,2)] assms(3-5) MessageFromMsgpack_canon(1) [OF assms(1) keeps_read_floor] by simp

theorem relayed_message_unchanged_witness:
  "\<exists>bytes again. MessageFromMsgpack sample_conv bytes = Ok (canon_message floor_micros sample_message) \<and>
     MessageToMsgpack sample_conv sample_encoder (canon_message floor_micros sample_message) = Ok again \<and>
     MessageFromMsgpack sample_conv again = Ok (canon_message floor_micros sample_message)"
proof -
  obtain b where b: "MessageToMsgpack sample_conv sample_encoder sample_message = Ok b" "length b < 2 ^ 32"
    "MessageFromMsgpack sample_conv b = Ok (canon_message floor_micros sample_message)"
    using sample_message_decodes by blast
  have "MessageToMsgpack sample_conv sample_encoder (canon_message floor_micros sample_message) = Ok b"
    using b(1) by (simp add: MessageToMsgpack_canon [OF sample_message_wf keeps_written_floor [OF sample_conv_ok]])
  then show ?thesis using relayed_message_unchanged [OF b(3) _ b(2) sample_packs_text sample_conv_ok] b(3) by blast
qed

end
