(* ===== verification/Wire_Json.thy ===== *)
theory Wire_Json
  imports Wire_Types
begin

text \<open>
  The JSON form of the wire records (\<open>cpp/a11/data/json.cc\<close>).  Bytes travel as base64 text and
  timestamps as RFC 3339 text; both conversions are library functions of Abseil and parameters here,
  gathered in the record \<open>json_env\<close>.  An assignment \<open>value["k"] = v\<close> is \<open>obj_put\<close>.
\<close>

record json_env =
  Base64Escape :: "string \<Rightarrow> string"
  Base64Unescape :: "string \<Rightarrow> string option"
  FormatTime :: "Time \<Rightarrow> string"
  ParseTime :: "string \<Rightarrow> string + Time"

section \<open>Fields\<close>

definition EncodeBytes :: "json_env \<Rightarrow> string \<Rightarrow> json" where
  "EncodeBytes env bytes = JString (Base64Escape env bytes)"

definition DecodeBytes :: "json_env \<Rightarrow> json \<Rightarrow> string \<Rightarrow> string result" where
  "DecodeBytes env v field =
     (case v of
        JString s \<Rightarrow>
          (case Base64Unescape env s of
             None \<Rightarrow> Err kInvalidArgument (field @ '' is not valid base64'')
           | Some decoded \<Rightarrow> Ok decoded)
      | _ \<Rightarrow> Err kInvalidArgument (field @ '' must be a base64 string''))"

definition GetUnsigned :: "json \<Rightarrow> string \<Rightarrow> u64 \<Rightarrow> u64 \<Rightarrow> string \<Rightarrow> u64 result" where
  "GetUnsigned obj key dflt maximum ctx =
     (case GetOptional obj key of
        None \<Rightarrow> Ok dflt
      | Some v \<Rightarrow>
          if \<not> is_number_integer v then Err kInvalidArgument (ctx @ ''.'' @ key @ '' must be an unsigned integer'')
          else if sint (get_bits v) < 0 then Err kOutOfRange (ctx @ ''.'' @ key @ '' must not be negative'')
          else if get_bits v > maximum then Err kOutOfRange (ctx @ ''.'' @ key @ '' exceeds its supported range'')
          else Ok (get_bits v))"

definition EncodeByteMap :: "json_env \<Rightarrow> ByteMap \<Rightarrow> json" where
  "EncodeByteMap env values = make_object (map (\<lambda>(key, v). (key, EncodeBytes env v)) values)"

definition JsonDecodeByteMap :: "json_env \<Rightarrow> json option \<Rightarrow> string \<Rightarrow> ByteMap result" where
  "JsonDecodeByteMap env v ctx =
     (case v of
        None \<Rightarrow> Ok []
      | Some (JObject kvs) \<Rightarrow>
          r_map (\<lambda>(key, x). r_then (ValidateName key)
            (r_bind (DecodeBytes env x (ctx @ ''.'' @ key)) (\<lambda>decoded. Ok (key, decoded)))) kvs
      | Some _ \<Rightarrow> Err kInvalidArgument (ctx @ '' must be an object''))"

section \<open>Chunks\<close>

definition EncodeMetadata :: "json_env \<Rightarrow> ChunkMetadata \<Rightarrow> json" where
  "EncodeMetadata env m =
     make_object ([(''mimetype'', JString (cm_mimetype m))] @
       (case cm_timestamp m of None \<Rightarrow> [] | Some t \<Rightarrow> [(''timestamp'', JString (FormatTime env t))]) @
       (if cm_attributes m = [] then [] else [(''attributes'', EncodeByteMap env (cm_attributes m))]))"

definition DecodeTimestamp :: "json_env \<Rightarrow> json option \<Rightarrow> Time option result" where
  "DecodeTimestamp env v =
     (case v of
        None \<Rightarrow> Ok None
      | Some x \<Rightarrow>
          if is_null x then Ok None
          else case x of
            JString s \<Rightarrow>
              (case ParseTime env s of
                 Inl error \<Rightarrow> Err kInvalidArgument (''Invalid ChunkMetadata.timestamp: '' @ error)
               | Inr t \<Rightarrow> Ok (Some t))
          | _ \<Rightarrow> Err kInvalidArgument ''ChunkMetadata.timestamp must be an RFC 3339 string or null'')"

definition DecodeMetadata :: "json_env \<Rightarrow> json \<Rightarrow> ChunkMetadata result" where
  "DecodeMetadata env v =
     r_bind (GetString v ''mimetype'' [] ''ChunkMetadata'') (\<lambda>mimetype.
     r_bind (DecodeTimestamp env (GetOptional v ''timestamp'')) (\<lambda>timestamp.
     r_bind (JsonDecodeByteMap env (GetOptional v ''attributes'') ''ChunkMetadata.attributes'') (\<lambda>attributes.
       let result = \<lparr>cm_mimetype = mimetype, cm_timestamp = timestamp, cm_attributes = attributes\<rparr>
       in r_then (MetadataValidate result) (Ok result))))"

definition EncodeChunk :: "json_env \<Rightarrow> Chunk \<Rightarrow> json" where
  "EncodeChunk env c =
     make_object ((case ch_metadata c of None \<Rightarrow> [] | Some m \<Rightarrow> [(''metadata'', EncodeMetadata env m)]) @
       (if ch_ref c = [] then [] else [(''ref'', JString (ch_ref c))]) @
       [(''data'', EncodeBytes env (ch_data c))])"

definition DecodeChunk :: "json_env \<Rightarrow> json \<Rightarrow> Chunk result" where
  "DecodeChunk env v =
     (if \<not> is_object v then Err kInvalidArgument ''Chunk must be a JSON object''
      else
        r_bind (case GetOptional v ''metadata'' of
                  None \<Rightarrow> Ok None
                | Some x \<Rightarrow> if is_null x then Ok None
                            else r_bind (DecodeMetadata env x) (\<lambda>m. Ok (Some m))) (\<lambda>metadata.
        r_bind (GetString v ''ref'' [] ''Chunk'') (\<lambda>ref.
        r_bind (case GetOptional v ''data'' of None \<Rightarrow> Ok [] | Some x \<Rightarrow> DecodeBytes env x ''Chunk.data'') (\<lambda>data.
          let result = \<lparr>ch_metadata = metadata, ch_ref = ref, ch_data = data, ch_object = None\<rparr>
          in r_then (ChunkValidate result) (Ok result)))))"

section \<open>Node references and fragments\<close>

text \<open>
  \<open>EncodeNodeRef\<close> dereferences the storage identity's JSON form, which exists once the reference has been
  validated; without it the program would abort.
\<close>

definition EncodeNodeRef :: "NodeRef \<Rightarrow> json" where
  "EncodeNodeRef n =
     make_object ([(''id'', JString (nr_id n))] @
       (if nr_offset n = 0 then [] else [(''offset'', JUint (ucast (nr_offset n)))]) @
       (case nr_length n of None \<Rightarrow> [] | Some len \<Rightarrow> [(''length'', JUint len)]) @
       (case nr_storage n of None \<Rightarrow> []
        | Some s \<Rightarrow> [(''storage'', case StorageIdentityToJsonValue s of Inr j \<Rightarrow> j | Inl _ \<Rightarrow> JNull)]))"

definition DecodeNodeRef :: "json \<Rightarrow> NodeRef result" where
  "DecodeNodeRef v =
     r_bind (GetString v ''id'' [] ''NodeRef'') (\<lambda>id'.
     r_bind (GetUnsigned v ''offset'' 0 0xffffffff ''NodeRef'') (\<lambda>offset.
     r_bind (case GetOptional v ''length'' of
               None \<Rightarrow> Ok None
             | Some x \<Rightarrow> if is_null x then Ok None
                         else r_bind (GetUnsigned v ''length'' 0 (0xffffffff + 1) ''NodeRef'') (\<lambda>n. Ok (Some n))) (\<lambda>len.
     r_bind (case GetOptional v ''storage'' of
               None \<Rightarrow> Ok None
             | Some x \<Rightarrow> if is_null x then Ok None
                         else r_bind (StorageIdentityFromJsonValue x) (\<lambda>s. Ok (Some s))) (\<lambda>storage.
       let result = \<lparr>nr_id = id', nr_offset = ucast offset, nr_length = len, nr_storage = storage\<rparr>
       in r_then (NodeRefValidate result) (Ok result)))))"

definition EncodeFragment :: "json_env \<Rightarrow> NodeFragment \<Rightarrow> json" where
  "EncodeFragment env f =
     make_object ((if nf_id f = [] then [] else [(''id'', JString (nf_id f))]) @
       [(''data'', case nf_data f of FChunk c \<Rightarrow> EncodeChunk env c | FNodeRef n \<Rightarrow> EncodeNodeRef n)] @
       (case nf_seq f of None \<Rightarrow> [] | Some n \<Rightarrow> [(''seq'', JUint (ucast n))]) @
       (if nf_continued f then [(''continued'', JBool True)] else []))"

text \<open>A data object is a reference when it has an id and none of the fields of a chunk.\<close>

definition looks_like_ref :: "json \<Rightarrow> bool" where
  "looks_like_ref v \<longleftrightarrow>
     GetOptional v ''id'' \<noteq> None \<and> GetOptional v ''data'' = None \<and> GetOptional v ''ref'' = None \<and>
     GetOptional v ''metadata'' = None"

definition DecodeFragment :: "json_env \<Rightarrow> json \<Rightarrow> NodeFragment result" where
  "DecodeFragment env v =
     r_bind (GetString v ''id'' [] ''NodeFragment'') (\<lambda>id'.
     r_bind (GetRequired v ''data'' ''NodeFragment'') (\<lambda>data_value.
     r_then (r_guard (\<not> is_object data_value) kInvalidArgument ''NodeFragment.data must be a JSON object'')
     (r_bind (if looks_like_ref data_value then r_bind (DecodeNodeRef data_value) (\<lambda>n. Ok (FNodeRef n))
              else r_bind (DecodeChunk env data_value) (\<lambda>c. Ok (FChunk c))) (\<lambda>data.
     r_bind (case GetOptional v ''seq'' of
               None \<Rightarrow> Ok None
             | Some x \<Rightarrow> if is_null x then Ok None
                         else r_bind (GetUnsigned v ''seq'' 0 0xffffffff ''NodeFragment'') (\<lambda>n. Ok (Some (ucast n)))) (\<lambda>seq.
     r_bind (case GetOptional v ''continued'' of
               None \<Rightarrow> Ok False
             | Some (JBool b) \<Rightarrow> Ok b
             | Some _ \<Rightarrow> Err kInvalidArgument ''NodeFragment.continued must be a boolean'') (\<lambda>continued.
       let result = \<lparr>nf_id = id', nf_data = data, nf_seq = seq, nf_continued = continued\<rparr>
       in r_then (FragmentValidate result) (Ok result)))))))"

section \<open>Actions and messages\<close>

definition EncodePort :: "Port \<Rightarrow> json" where
  "EncodePort p =
     make_object ((if pt_name p = [] then [] else [(''name'', JString (pt_name p))]) @
       (if pt_id p = [] then [] else [(''id'', JString (pt_id p))]))"

definition DecodePort :: "json \<Rightarrow> Port result" where
  "DecodePort v =
     r_bind (GetString v ''name'' [] ''Port'') (\<lambda>name.
     r_bind (GetString v ''id'' [] ''Port'') (\<lambda>id'.
       let result = \<lparr>pt_name = name, pt_id = id'\<rparr>
       in r_then (PortValidate result) (Ok result)))"

definition EncodeAction :: "json_env \<Rightarrow> ActionMessage \<Rightarrow> json" where
  "EncodeAction env a =
     make_object ([(''id'', JString (am_id a)), (''name'', JString (am_name a))] @
       (if am_inputs a = [] then [] else [(''inputs'', JArray (map EncodePort (am_inputs a)))]) @
       (if am_outputs a = [] then [] else [(''outputs'', JArray (map EncodePort (am_outputs a)))]) @
       (if am_headers a = [] then [] else [(''headers'', EncodeByteMap env (am_headers a))]))"

definition JsonDecodePorts :: "json option \<Rightarrow> string \<Rightarrow> Port list result" where
  "JsonDecodePorts v ctx =
     (case v of
        None \<Rightarrow> Ok []
      | Some (JArray vs) \<Rightarrow> r_map DecodePort vs
      | Some _ \<Rightarrow> Err kInvalidArgument (ctx @ '' must be an array''))"

definition DecodeAction :: "json_env \<Rightarrow> json \<Rightarrow> ActionMessage result" where
  "DecodeAction env v =
     r_bind (GetString v ''id'' [] ''ActionMessage'') (\<lambda>id'.
     r_bind (GetString v ''name'' [] ''ActionMessage'') (\<lambda>name.
     r_bind (JsonDecodePorts (GetOptional v ''inputs'') ''ActionMessage.inputs'') (\<lambda>inputs.
     r_bind (JsonDecodePorts (GetOptional v ''outputs'') ''ActionMessage.outputs'') (\<lambda>outputs.
     r_bind (JsonDecodeByteMap env (GetOptional v ''headers'') ''ActionMessage.headers'') (\<lambda>headers.
       let result = \<lparr>am_id = id', am_name = name, am_inputs = inputs, am_outputs = outputs, am_headers = headers\<rparr>
       in r_then (ActionValidate result) (Ok result))))))"

definition WireMessageToJsonValue :: "json_env \<Rightarrow> WireMessage \<Rightarrow> json result" where
  "WireMessageToJsonValue env m =
     r_then (MessageValidate m)
       (Ok (make_object (
          (if wm_node_fragments m = [] then []
           else [(''node_fragments'', JArray (map (EncodeFragment env) (wm_node_fragments m)))]) @
          (if wm_actions m = [] then [] else [(''actions'', JArray (map (EncodeAction env) (wm_actions m)))]) @
          (if wm_headers m = [] then [] else [(''headers'', EncodeByteMap env (wm_headers m))]))))"

definition WireMessageToJson :: "json_env \<Rightarrow> json_printer \<Rightarrow> WireMessage \<Rightarrow> string result" where
  "WireMessageToJson env dump m =
     r_bind (WireMessageToJsonValue env m) (\<lambda>v. DumpJson dump v ''WireMessage JSON'')"

text \<open>The loops over \<open>node_fragments\<close> and \<open>actions\<close>.\<close>

definition DecodeItems :: "(json \<Rightarrow> 'a result) \<Rightarrow> json option \<Rightarrow> string \<Rightarrow> 'a list result" where
  "DecodeItems decode v field =
     (case v of
        None \<Rightarrow> Ok []
      | Some (JArray items) \<Rightarrow> r_map decode items
      | Some _ \<Rightarrow> Err kInvalidArgument (field @ '' must be an array''))"

definition WireMessageFromJsonValue :: "json_env \<Rightarrow> json \<Rightarrow> WireMessage result" where
  "WireMessageFromJsonValue env v =
     (if \<not> is_object v then Err kInvalidArgument ''A WireMessage JSON value must be an object''
      else
        r_bind (DecodeItems (DecodeFragment env) (GetOptional v ''node_fragments'') ''WireMessage.node_fragments'') (\<lambda>fragments.
        r_bind (DecodeItems (DecodeAction env) (GetOptional v ''actions'') ''WireMessage.actions'') (\<lambda>actions.
        r_bind (JsonDecodeByteMap env (GetOptional v ''headers'') ''WireMessage.headers'') (\<lambda>headers.
          let result = \<lparr>wm_node_fragments = fragments, wm_actions = actions, wm_headers = headers\<rparr>
          in r_then (MessageValidate result) (Ok result)))))"

definition WireMessageFromJson :: "json_env \<Rightarrow> json_parser \<Rightarrow> string \<Rightarrow> WireMessage result" where
  "WireMessageFromJson env parse encoded =
     r_bind (ParseJson parse encoded ''WireMessage JSON'') (WireMessageFromJsonValue env)"

section \<open>The other records' entry points\<close>

definition ChunkMetadataToJsonValue :: "json_env \<Rightarrow> ChunkMetadata \<Rightarrow> json result" where
  "ChunkMetadataToJsonValue env v = r_then (MetadataValidate v) (Ok (EncodeMetadata env v))"

definition ChunkToJsonValue :: "json_env \<Rightarrow> Chunk \<Rightarrow> json result" where
  "ChunkToJsonValue env v = r_then (ChunkValidate v) (Ok (EncodeChunk env v))"

definition NodeRefToJsonValue :: "NodeRef \<Rightarrow> json result" where
  "NodeRefToJsonValue v = r_then (NodeRefValidate v) (Ok (EncodeNodeRef v))"

definition NodeFragmentToJsonValue :: "json_env \<Rightarrow> NodeFragment \<Rightarrow> json result" where
  "NodeFragmentToJsonValue env v = r_then (FragmentValidate v) (Ok (EncodeFragment env v))"

definition PortToJsonValue :: "Port \<Rightarrow> json result" where
  "PortToJsonValue v = r_then (PortValidate v) (Ok (EncodePort v))"

definition ActionMessageToJsonValue :: "json_env \<Rightarrow> ActionMessage \<Rightarrow> json result" where
  "ActionMessageToJsonValue env v = r_then (ActionValidate v) (Ok (EncodeAction env v))"

end
