(* ===== verification/Status_Properties.thy ===== *)
theory Status_Properties
  imports Status_Codec Msgpack_Roundtrip
begin

text \<open>
  What survives the conversions of a status: its code through HTTP and WebSocket close codes, and the
  whole status with its details through JSON and MessagePack.
\<close>

section \<open>Codes\<close>

text \<open>A status code that goes out as an HTTP code and comes back is the same code exactly for the ten
  codes that have an HTTP code of their own; success and failure are never confused for any code.\<close>

theorem http_codes_roundtrip:
  "(StatusCodeFromHttp (StatusCodeToHttp c) = c \<longleftrightarrow>
      c \<in> {kOk, kInvalidArgument, kNotFound, kAborted, kPermissionDenied, kResourceExhausted, kUnimplemented,
           kUnavailable, kUnauthenticated, kInternal}) \<and>
   (StatusCodeFromHttp (StatusCodeToHttp c) = kOk \<longleftrightarrow> c = kOk)"
  by (cases c) (simp_all add: StatusCodeFromHttp_def)

text \<open>C23. WebSocket close codes lose eight codes: \<open>StatusCodeToWebSocket\<close> numbers the codes from 4000 without
  a gap while \<open>StatusCodeFromWebSocket\<close> reads 4007 as unauthenticated and the following numbers one code
  lower, so the codes from resource exhausted to data loss come back as their predecessor in that table.  All
  other codes, and the distinction of success and failure, survive.\<close>

theorem websocket_codes_shifted:
  "(StatusCodeFromWebSocket (StatusCodeToWebSocket c) = c \<longleftrightarrow> code_num c \<le> 7 \<or> c = kUnauthenticated) \<and>
   StatusCodeFromWebSocket (StatusCodeToWebSocket kResourceExhausted) = kUnauthenticated \<and>
   (c \<notin> {kResourceExhausted, kUnauthenticated} \<and> 8 \<le> code_num c \<longrightarrow>
      StatusCodeFromWebSocket (StatusCodeToWebSocket c) = code_of_num (code_num c - 1)) \<and>
   (StatusCodeFromWebSocket (StatusCodeToWebSocket c) = kOk \<longleftrightarrow> c = kOk)"
  by (cases c) (simp_all add: StatusCodeFromWebSocket_def StatusCodeToWebSocket_def code_of_num_def all_codes_def)

theorem websocket_codes_shifted_witness: "StatusCodeFromWebSocket (StatusCodeToWebSocket kAborted) = kFailedPrecondition"
  using websocket_codes_shifted [of kAborted] by (simp add: code_of_num_def all_codes_def)

section \<open>Text that JSON can hold\<close>

text \<open>The strings among the values inside a JSON value.\<close>

fun json_strings :: "json \<Rightarrow> string set" where
  "json_strings (JString text) = {text}"
| "json_strings (JArray vs) = \<Union> (set (map json_strings vs))"
| "json_strings (JObject kvs) = \<Union> (set (map (\<lambda>(k, v). json_strings v) kvs))"
| "json_strings _ = {}"

lemma json_strings_elements: "\<not> (\<exists>t. v = JString t) \<Longrightarrow> json_strings v = \<Union> (json_strings ` set (json_elements v))"
  by (cases v) (auto simp: json_elements_def)

lemma FindUnencodable_None: "FindUnencodable vs = None \<longleftrightarrow> (\<forall>v\<in>set vs. \<forall>t\<in>json_strings v. IsValid t)"
proof (induction vs rule: FindUnencodable.induct)
  case (2 one rest)
  show ?case
  proof (cases "\<exists>t. one = JString t")
    case True
    then show ?thesis using 2 by (auto split: if_splits)
  next
    case False
    then have "FindUnencodable (one # rest) = FindUnencodable (rev (json_elements one) @ rest)"
      by (cases one) simp_all
    also have "\<dots> = None \<longleftrightarrow> (\<forall>v\<in>set (rev (json_elements one) @ rest). \<forall>t\<in>json_strings v. IsValid t)"
      using False 2 by (cases one) simp_all
    finally show ?thesis using json_strings_elements [OF False] by auto
  qed
qed simp

text \<open>The check before a strict dump is complete: it reports a value exactly when some string in it, at any
  depth, is not valid UTF-8.\<close>

theorem unencodable_iff: "FindUnencodableString v = None \<longleftrightarrow> (\<forall>t\<in>json_strings v. IsValid t)"
  unfolding FindUnencodableString_def FindUnencodable_None by simp

theorem unencodable_iff_witness: "FindUnencodableString (JArray [JString ''ok'', JNull, JObject [(''k'', JString ''v'')]]) = None"
  by (simp add: unencodable_iff)

section \<open>Whole statuses\<close>

text \<open>
  Values the JSON text form and MessagePack represent one to one: no binary, no floating point, objects in
  key order, and signed integers negative (the readers give non-negative numbers as unsigned).
\<close>

fun plain_json :: "json \<Rightarrow> bool" where
  "plain_json (JInt n) = (sint n < 0)"
| "plain_json (JFloat _) = False"
| "plain_json (JBinary _ _) = False"
| "plain_json (JArray vs) = list_all plain_json vs"
| "plain_json (JObject kvs) = (obj_sorted kvs \<and> list_all (\<lambda>(k, v). plain_json v) kvs)"
| "plain_json _ = True"

text \<open>The values the decoder follows to the bottom from nesting depth \<open>d\<close>.\<close>

fun nests_within :: "nat \<Rightarrow> json \<Rightarrow> bool" where
  "nests_within d (JArray vs) = (d \<le> kMaxMsgpackNesting \<and> list_all (nests_within (Suc d)) vs)"
| "nests_within d (JObject kvs) = (d \<le> kMaxMsgpackNesting \<and> list_all (\<lambda>(k, v). nests_within (Suc d) v) kvs)"
| "nests_within d _ = (d \<le> kMaxMsgpackNesting)"

text \<open>The JSON library parses what it printed; \<open>to_msgpack\<close> writes bytes that decode to the value where its nesting is
  within the decoder's limit, and a non-negative signed integer as the unsigned one.\<close>

definition parses_printed :: "json_printer \<Rightarrow> json_parser \<Rightarrow> bool" where
  "parses_printed dump parse \<longleftrightarrow> (\<forall>v text. plain_json v \<and> dump v = Inr text \<longrightarrow> parse text = Inr v)"

definition packs_plain :: "msgpack_encoder \<Rightarrow> bool" where
  "packs_plain tm \<longleftrightarrow>
     (\<forall>v bytes. tm v = Inr bytes \<and> length bytes < 2 ^ 32 \<longrightarrow>
        (plain_json v \<and> nests_within 0 v \<longrightarrow> (\<forall>t. Decode 0 (bytes @ t) = Ok (v, t))) \<and>
        (\<forall>n. v = JInt n \<and> 0 \<le> sint n \<longrightarrow> (\<forall>t. Decode 0 (bytes @ t) = Ok (JUint n, t))))"

lemma code_word: "unat (word_of_nat (code_num c) :: u64) = code_num c" "sint (word_of_nat (code_num c) :: u64) = int (code_num c)"
  using code_num_less [of c] by (cases c; simp)+

lemma IsCanonicalCode_num [simp]: "IsCanonicalCode (int (code_num c))"
  by (cases c) (simp_all add: IsCanonicalCode_def)

text \<open>A status as A11 builds it: \<open>MakeStatus\<close> from a code, a message and plain details that could be dumped.\<close>

definition built_status :: "json_printer \<Rightarrow> status_code \<Rightarrow> string \<Rightarrow> json list \<Rightarrow> bool" where
  "built_status dump code message ds \<longleftrightarrow>
     list_all plain_json ds \<and> (ds \<noteq> [] \<longrightarrow> (\<exists>text. DumpJson dump (JArray ds) ''status details'' = Ok text))"

lemma built_status_cases:
  assumes "parses_printed dump parse" and "built_status dump code message ds"
  defines "st \<equiv> MakeStatus dump code message (JArray ds)"
  shows "st_code st = code" "st_message st = (if code = kOk then [] else message)"
    and "StatusDetails parse st = JArray (if code = kOk then [] else ds)"
    and "MakeStatus dump code (st_message st) (JArray (if code = kOk then [] else ds)) = st"
proof -
  have "st_code st = code \<and> st_message st = (if code = kOk then [] else message) \<and>
    StatusDetails parse st = JArray (if code = kOk then [] else ds) \<and>
    MakeStatus dump code (st_message st) (JArray (if code = kOk then [] else ds)) = st"
  proof (cases ds)
    case Nil
    then show ?thesis by (simp add: st_def MakeStatus_def make_status_def StatusDetails_def)
  next
    case (Cons d ds')
    then obtain enc where printed: "DumpJson dump (JArray ds) ''status details'' = Ok enc"
      using assms(2) by (auto simp: built_status_def)
    then have "dump (JArray ds) = Inr enc" by (auto simp: DumpJson_def split: if_splits sum.splits)
    moreover have "plain_json (JArray ds)" using assms(2) by (simp add: built_status_def)
    ultimately have parse: "parse enc = Inr (JArray ds)" using assms(1) unfolding parses_printed_def by blast
    have "st = SetPayload enc (make_status code message)"
      using printed Cons by (simp add: st_def MakeStatus_def Let_def)
    then show ?thesis
      using parse printed Cons
      by (cases "code = kOk") (simp_all add: SetPayload_def make_status_def StatusDetails_def ParseJson_def MakeStatus_def Let_def)
  qed
  then show "st_code st = code" "st_message st = (if code = kOk then [] else message)"
    "StatusDetails parse st = JArray (if code = kOk then [] else ds)"
    "MakeStatus dump code (st_message st) (JArray (if code = kOk then [] else ds)) = st" by blast+
qed

text \<open>A status built with plain details survives its JSON form: code, message and details come back the
  same, and an OK status comes back without the message and details it cannot carry.\<close>

theorem status_json_roundtrip:
  assumes "parses_printed dump parse" and "built_status dump code message ds"
  shows "StatusFromJson dump (StatusToJson parse (MakeStatus dump code message (JArray ds))) =
    Ok (MakeStatus dump code message (JArray ds))"
  using built_status_cases [OF assms]
  by (simp add: StatusToJson_def StatusFromJson_def code_word Let_def)

text \<open>C22. A status built with plain details that are objects survives its MessagePack form the same way, when the
  list of details nests no deeper than \<open>kMaxMsgpackNesting\<close>, the depth at which the decoder stops.\<close>

theorem status_pack_roundtrip:
  assumes laws: "parses_printed dump parse" "packs_plain tm" and built: "built_status dump code message ds"
    and objects: "list_all is_object ds" and depth: "nests_within 0 (JArray ds)"
    and bytes: "PackStatus tm parse (MakeStatus dump code message (JArray ds)) = Ok bytes" "length bytes < 2 ^ 32"
  shows "UnpackStatus dump bytes = Ok (MakeStatus dump code message (JArray ds))"
proof -
  let ?st = "MakeStatus dump code message (JArray ds)" and ?ds = "if code = kOk then [] else ds"
  note st = built_status_cases [OF laws(1) built]
  obtain b1 b2 b3 where b: "tm (JInt (word_of_nat (code_num code))) = Inr b1" "tm (JString (st_message ?st)) = Inr b2"
    "tm (JArray ?ds) = Inr b3" "bytes = b1 @ b2 @ b3"
    using bytes(1) unfolding PackStatus_def st(1) st(3) by (auto simp: Pack_def PackMsgpack_def ok_iff split: sum.splits)
  have len: "length b1 < 2 ^ 32" "length b2 < 2 ^ 32" "length b3 < 2 ^ 32" using bytes(2) b(4) by simp_all
  have "plain_json (JArray ?ds)" "nests_within 0 (JArray ?ds)" "nests_within 0 (JString (st_message ?st))"
    using built depth by (simp_all add: built_status_def)
  then have reads: "Read (b1 @ t) = Ok (JUint (word_of_nat (code_num code)), t)" "Read (b2 @ t) = Ok (JString (st_message ?st), t)"
    "Read (b3 @ t) = Ok (JArray ?ds, t)" for t
    using laws(2) b(1-3) len by (auto simp: packs_plain_def Read_iff_Decode code_word)
  have "list_all is_object ?ds" using objects by simp
  then show ?thesis
    using reads(1) [of "b2 @ b3"] reads(2) [of b3] reads(3) [of "[]"] st(4) code_num_less [of code]
    by (simp add: UnpackStatus_def b(4) EnsureFullyConsumed_def code_word is_null_def Let_def del: if_split)
qed

text \<open>A printer and parser, and an encoder, for which the laws hold: the typed writers with the decoder.\<close>

definition sample_dump :: json_printer where
  "sample_dump v = (if packable 0 v then Inr (pack_json v) else Inl ''too large'')"

definition sample_parse :: json_parser where
  "sample_parse s = (case Decode 0 s of Inr (v, []) \<Rightarrow> Inr v | _ \<Rightarrow> Inl ''malformed'')"

definition sample_pack :: msgpack_encoder where
  "sample_pack v = Inr (pack_json v)"

lemma sample_parses: "parses_printed sample_dump sample_parse"
  using decode_pack_json [of 0 _ "[]"] by (auto simp: parses_printed_def sample_dump_def sample_parse_def split: if_splits)

lemma pack_nonneg: "0 \<le> sint n \<Longrightarrow> Decode 0 (PackInt n [] @ t) = Ok (JUint n, t)"
  by (simp add: PackInt_def decode_uint)

lemma plain_packable:
  assumes "plain_json v" and "nests_within d v" and "length (pack_json v) < 2 ^ 32"
  shows "packable d v"
  using assms
proof (induction d v rule: nests_within.induct)
  case (1 d vs)
  have "length vs \<le> length (concat (map pack_json vs))"
    by (rule length_le_concat_map) (simp add: pack_json_not_Nil)
  moreover have "packable (Suc d) v" if "v \<in> set vs" for v
    using 1 that length_le_concat_member [OF that, of pack_json] by (auto simp: list_all_iff)
  ultimately show ?case using 1 by (auto simp: list_all_iff kMaxMsgpackNesting_def)
next
  case (2 d kvs)
  let ?f = "\<lambda>(k, v). PackString k [] @ pack_json v"
  have "length kvs \<le> length (concat (map ?f kvs))"
    by (rule length_le_concat_map) (simp add: pack_json_not_Nil case_prod_unfold)
  moreover have "length k < 2 ^ 32 \<and> packable (Suc d) v" if kv: "(k, v) \<in> set kvs" for k v
  proof -
    have "length (PackString k [] @ pack_json v) < 2 ^ 32"
      using length_le_concat_member [OF kv, of ?f] 2(4) by simp
    moreover have "plain_json v" "nests_within (Suc d) v" using 2(2,3) kv by (auto simp: list_all_iff)
    ultimately show ?thesis using 2(1) [OF kv refl] pack_length(1) [of k] by simp
  qed
  ultimately show ?case using 2 by (auto simp: list_all_iff kMaxMsgpackNesting_def)
qed (simp_all add: kMaxMsgpackNesting_def le_less_trans [OF pack_length(1)])

lemma sample_packs: "packs_plain sample_pack"
  using plain_packable [of _ 0] by (auto simp: packs_plain_def sample_pack_def decode_pack_json pack_nonneg)

definition sample_details :: "json list" where
  "sample_details = [JObject [(''reason'', JString ''quota'')]]"

lemma sample_built: "built_status sample_dump kAborted ''busy'' sample_details"
proof -
  have "IsValid ''quota''" by simp
  then have "FindUnencodableString (JArray sample_details) = None"
    unfolding FindUnencodableString_def FindUnencodable_None by (simp add: sample_details_def)
  moreover have "packable 0 (JArray sample_details)" by (simp add: sample_details_def)
  ultimately show ?thesis by (simp add: built_status_def DumpJson_def sample_dump_def) (simp add: sample_details_def)
qed

theorem status_json_roundtrip_witness:
  "StatusFromJson sample_dump (StatusToJson sample_parse (MakeStatus sample_dump kAborted ''busy'' (JArray sample_details))) =
    Ok (MakeStatus sample_dump kAborted ''busy'' (JArray sample_details))"
  by (rule status_json_roundtrip [OF sample_parses sample_built])

theorem status_pack_roundtrip_witness:
  "\<exists>bytes. parses_printed sample_dump sample_parse \<and> packs_plain sample_pack \<and> built_status sample_dump kAborted ''busy'' sample_details \<and>
    list_all is_object sample_details \<and> nests_within 0 (JArray sample_details) \<and> length bytes < 2 ^ 32 \<and>
    PackStatus sample_pack sample_parse (MakeStatus sample_dump kAborted ''busy'' (JArray sample_details)) = Ok bytes \<and>
    UnpackStatus sample_dump bytes = Ok (MakeStatus sample_dump kAborted ''busy'' (JArray sample_details))"
proof -
  note st = built_status_cases [OF sample_parses sample_built]
  have "\<exists>bytes. PackStatus sample_pack sample_parse (MakeStatus sample_dump kAborted ''busy'' (JArray sample_details)) = Ok bytes \<and>
      length bytes < 2 ^ 32"
    unfolding PackStatus_def st(1,2,3)
    by (simp add: Pack_def PackMsgpack_def sample_pack_def sample_details_def PackInt_def PackUint_def PackString_def
        PackArrayHeader_def PackMapHeader_def AppendByte_def)
  moreover have "list_all is_object sample_details" "nests_within 0 (JArray sample_details)"
    by (simp_all add: sample_details_def kMaxMsgpackNesting_def)
  ultimately show ?thesis
    using status_pack_roundtrip [OF sample_parses sample_packs sample_built] sample_parses sample_packs sample_built by blast
qed

end
