(* ===== verification/Wire_Json_Roundtrip.thy ===== *)
theory Wire_Json_Roundtrip
  imports Wire_Json Wire_Properties Status_Properties
begin

text \<open>
  Round trips of the JSON form: what \<open>WireMessageToJson\<close> writes, \<open>WireMessageFromJson\<close> reads back as the
  same message with its hash maps in key order and its timestamps as they are: the JSON form carries what the MessagePack
  form carries, and the part of a microsecond that form leaves out.
\<close>

section \<open>The library functions\<close>

text \<open>Base64 and the time format, which prints all digits of a second and names the infinite times, are read back as what
  was written.\<close>

definition env_ok :: "json_env \<Rightarrow> bool" where
  "env_ok env \<longleftrightarrow> (\<forall>s. Base64Unescape env (Base64Escape env s) = Some s) \<and> (\<forall>t. ParseTime env (FormatTime env t) = Inr t)"

lemma DecodeBytes_encoded: "env_ok env \<Longrightarrow> DecodeBytes env (EncodeBytes env s) field = Ok s"
  by (simp add: env_ok_def DecodeBytes_def EncodeBytes_def)

section \<open>Objects\<close>

lemma map_of_fold_put: "map_of (fold (\<lambda>(k, v). obj_put k v) kvs acc) = map_of acc ++ map_of (rev kvs)"
  by (induction kvs arbitrary: acc) (auto simp: map_add_def fun_eq_iff split: option.splits)

lemma GetOptional_make_object: "GetOptional (make_object kvs) k = map_of (rev kvs) k"
  by (simp add: GetOptional_def make_object_def map_of_fold_put)

lemma is_object_make_object [simp]: "is_object (make_object kvs)" "\<not> is_null (make_object kvs)"
  by (simp_all add: make_object_def is_null_def)

lemma GetRequired_present: "is_object v \<Longrightarrow> GetOptional v k = Some x \<Longrightarrow> GetRequired v k ctx = Ok x"
  by (cases v) (simp_all add: GetRequired_def GetOptional_def)

lemma byte_map_json:
  assumes "env_ok env" and "distinct (map fst m)" and "\<forall>e\<in>set m. ValidateName (fst e) = Ok ()"
  shows "JsonDecodeByteMap env (Some (EncodeByteMap env m)) ctx = Ok (canon_map m)"
proof -
  have "EncodeByteMap env m = JObject (map (\<lambda>(k, v). (k, EncodeBytes env v)) (canon_map m))"
    unfolding EncodeByteMap_def make_object_def using fold_obj_put_canon [OF assms(2), of "EncodeBytes env"] by simp
  moreover have "r_map (\<lambda>(key, x). r_then (ValidateName key) (r_bind (DecodeBytes env x (ctx @ ''.'' @ key)) (\<lambda>decoded. Ok (key, decoded))))
      (map (\<lambda>(k, v). (k, EncodeBytes env v)) es) = Ok es" if "\<forall>e\<in>set es. ValidateName (fst e) = Ok ()" for es
    using that by (induction es) (auto simp: DecodeBytes_encoded [OF assms(1)])
  ultimately show ?thesis using assms(3) by (simp add: JsonDecodeByteMap_def)
qed

lemma optional_byte_map_json:
  assumes "env_ok env" and "distinct (map fst m)" and "\<forall>e\<in>set m. ValidateName (fst e) = Ok ()"
  shows "JsonDecodeByteMap env (if m = [] then None else Some (EncodeByteMap env m)) ctx = Ok (canon_map m)"
  using byte_map_json [OF assms] by (simp add: JsonDecodeByteMap_def [of _ None] canon_map_def)

section \<open>Records\<close>

lemma metadata_json:
  assumes env: "env_ok env" and valid: "MetadataValidate m = Ok ()" and keys: "distinct (map fst (cm_attributes m))"
  shows "DecodeMetadata env (EncodeMetadata env m) = Ok (canon_metadata id m)"
proof -
  let ?v = "EncodeMetadata env m"
  have fields: "GetOptional ?v ''mimetype'' = Some (JString (cm_mimetype m))"
    "GetOptional ?v ''timestamp'' = map_option (\<lambda>t. JString (FormatTime env t)) (cm_timestamp m)"
    "GetOptional ?v ''attributes'' = (if cm_attributes m = [] then None else Some (EncodeByteMap env (cm_attributes m)))"
    unfolding EncodeMetadata_def GetOptional_make_object by (simp_all split: option.split)
  have "\<forall>e\<in>set (cm_attributes m). ValidateName (fst e) = Ok ()"
    using valid by (auto simp: MetadataValidate_def ok_iff case_prod_unfold)
  note attrs = optional_byte_map_json [OF env keys this]
  have "DecodeTimestamp env (map_option (\<lambda>t. JString (FormatTime env t)) (cm_timestamp m)) = Ok (cm_timestamp m)"
    using env by (cases "cm_timestamp m") (simp_all add: DecodeTimestamp_def is_null_def env_ok_def)
  moreover have "MetadataValidate (canon_metadata id m) = Ok ()" using valid by (simp add: canon_metadata_valid)
  ultimately show ?thesis
    using attrs by (simp add: DecodeMetadata_def GetString_def fields canon_metadata_eq [symmetric] Let_def option.map_id del: if_split)
qed

lemma chunk_json:
  assumes env: "env_ok env" and valid: "ChunkValidate c = Ok ()" and wf: "chunk_wf c"
  shows "DecodeChunk env (EncodeChunk env c) = Ok (canon_chunk id c)"
proof -
  let ?v = "EncodeChunk env c"
  have fields: "GetOptional ?v ''metadata'' = map_option (EncodeMetadata env) (ch_metadata c)"
    "GetOptional ?v ''ref'' = (if ch_ref c = [] then None else Some (JString (ch_ref c)))"
    "GetOptional ?v ''data'' = Some (EncodeBytes env (ch_data c))"
    unfolding EncodeChunk_def GetOptional_make_object by (simp_all split: option.split)
  have meta: "(case map_option (EncodeMetadata env) (ch_metadata c) of None \<Rightarrow> Ok None
      | Some x \<Rightarrow> if is_null x then Ok None else r_bind (DecodeMetadata env x) (\<lambda>m. Ok (Some m))) =
      Ok (map_option (canon_metadata id) (ch_metadata c))"
  proof (cases "ch_metadata c")
    case (Some m)
    then have "MetadataValidate m = Ok ()" "distinct (map fst (cm_attributes m))"
      using valid wf by (simp_all add: ChunkValidate_def chunk_wf_def split: if_splits)
    then show ?thesis using Some metadata_json [OF env] by (simp add: EncodeMetadata_def)
  qed simp
  have "GetString ?v ''ref'' [] ''Chunk'' = Ok (ch_ref c)" by (simp add: GetString_def fields)
  moreover have "ChunkValidate (canon_chunk id c) = Ok ()" "ch_object c = None" using valid wf by (simp_all add: canon_chunk_valid chunk_wf_def)
  moreover have "is_object ?v" by (simp add: EncodeChunk_def)
  ultimately show ?thesis
    using meta by (simp add: DecodeChunk_def fields DecodeBytes_encoded [OF env] canon_chunk_eq Let_def)
qed

lemma sint_small:
  assumes "unat (n :: u64) < 2 ^ 63"
  shows "sint n = int (unat n)"
proof -
  have "uint n < 2 ^ 63" using assms of_nat_less_iff [of "unat n" "2 ^ 63", where ?'a = int] by simp
  moreover have "- (2 ^ 63) \<le> uint n" by (rule order_trans [OF _ uint_ge_0]) simp
  ultimately have "signed_take_bit 63 (uint n) = uint n" by (intro signed_take_bit_int_eq_self)
  then show ?thesis by (simp add: sint_uint)
qed

lemma GetUnsigned_JUint:
  assumes "GetOptional v key = Some (JUint n)" "n \<le> maximum" "unat maximum < 2 ^ 63"
  shows "GetUnsigned v key dflt maximum ctx = Ok n"
proof -
  have "unat n < 2 ^ 63" using assms(2,3) by (simp add: word_le_nat_alt)
  then show ?thesis using assms by (simp add: GetUnsigned_def sint_small not_less)
qed

lemma GetUnsigned_u32:
  "GetOptional v key = Some (JUint (ucast (w :: u32))) \<Longrightarrow> GetUnsigned v key dflt 0xffffffff ctx = Ok (ucast w)"
  using GetUnsigned_JUint [of v key "ucast w" "0xffffffff"] ucast32_bound [of w] by (simp add: not_less)

lemma ref_json:
  assumes valid: "NodeRefValidate n = Ok ()" and wf: "ref_wf n"
  shows "DecodeNodeRef (EncodeNodeRef n) = Ok (canon_ref n)"
proof -
  let ?v = "EncodeNodeRef n"
  let ?s = "\<lambda>s. case StorageIdentityToJsonValue s of Inr j \<Rightarrow> j | Inl _ \<Rightarrow> JNull"
  have fields: "GetOptional ?v ''id'' = Some (JString (nr_id n))"
    "GetOptional ?v ''offset'' = (if nr_offset n = 0 then None else Some (JUint (ucast (nr_offset n))))"
    "GetOptional ?v ''length'' = map_option JUint (nr_length n)"
    "GetOptional ?v ''storage'' = map_option ?s (nr_storage n)"
    unfolding EncodeNodeRef_def GetOptional_make_object by (simp_all split: option.split)
  have offset: "GetUnsigned ?v ''offset'' 0 0xffffffff ''NodeRef'' = Ok (ucast (nr_offset n))"
  proof (cases "nr_offset n = 0")
    case True
    then show ?thesis by (simp add: GetUnsigned_def fields)
  qed (simp add: GetUnsigned_u32 fields)
  have len: "(case GetOptional ?v ''length'' of None \<Rightarrow> Ok None | Some x \<Rightarrow> if is_null x then Ok None
      else r_bind (GetUnsigned ?v ''length'' 0 (0xffffffff + 1) ''NodeRef'') (\<lambda>n. Ok (Some n))) = Ok (nr_length n)"
  proof (cases "nr_length n")
    case (Some k)
    then have "k \<le> 0x100000000" using valid by (auto simp: NodeRefValidate_def kUint32Range_def ok_iff not_less split: if_splits)
    then show ?thesis using Some GetUnsigned_JUint [of ?v "''length''" k "0x100000000"] by (simp add: fields is_null_def)
  qed (simp add: fields)
  have storage: "(case GetOptional ?v ''storage'' of None \<Rightarrow> Ok None | Some x \<Rightarrow> if is_null x then Ok None
      else r_bind (StorageIdentityFromJsonValue x) (\<lambda>s. Ok (Some s))) = Ok (map_option canon_identity (nr_storage n))"
  proof (cases "nr_storage n")
    case (Some s)
    then have "ValidateIdentity s = Ok ()" using valid by (simp add: NodeRefValidate_def ok_iff)
    then obtain j where j: "StorageIdentityToJsonValue s = Ok j" by (simp add: StorageIdentityToJsonValue_def)
    have "identity_wf s" using wf Some by (simp add: ref_wf_def)
    then show ?thesis using identity_json [OF _ j] j Some by (simp add: fields is_null_def)
  qed (simp add: fields)
  have "NodeRefValidate (canon_ref n) = Ok ()" using valid by (simp add: canon_ref_valid)
  then show ?thesis
    using offset len storage by (simp add: DecodeNodeRef_def GetString_def fields(1) canon_ref_eq Let_def)
qed

lemma data_json:
  assumes that: "d = (case nf_data f of FChunk c \<Rightarrow> EncodeChunk env c | FNodeRef n \<Rightarrow> EncodeNodeRef n)"
    and env: "env_ok env" and valid: "FragmentValidate f = Ok ()" and wf: "fragment_wf f"
  shows "(if looks_like_ref d then r_bind (DecodeNodeRef d) (\<lambda>n. Ok (FNodeRef n))
      else r_bind (DecodeChunk env d) (\<lambda>c. Ok (FChunk c))) = Ok (canon_data id (nf_data f))"
proof (cases "nf_data f")
  case (FChunk c)
  then have d: "d = EncodeChunk env c" using that by simp
  have "\<not> looks_like_ref d"
    unfolding d looks_like_ref_def EncodeChunk_def GetOptional_make_object by (simp split: option.split)
  then show ?thesis using FChunk valid wf chunk_json [OF env, of c]
    by (simp add: d FragmentValidate_def fragment_wf_def ok_iff canon_data_def)
next
  case (FNodeRef n)
  then have d: "d = EncodeNodeRef n" using that by simp
  have "looks_like_ref d"
    unfolding d looks_like_ref_def EncodeNodeRef_def GetOptional_make_object by (simp split: option.split)
  then show ?thesis using FNodeRef valid wf ref_json [of n]
    by (simp add: d FragmentValidate_def fragment_wf_def ok_iff canon_data_def)
qed

lemma fragment_json:
  assumes env: "env_ok env" and valid: "FragmentValidate f = Ok ()" and wf: "fragment_wf f"
  shows "DecodeFragment env (EncodeFragment env f) = Ok (canon_fragment id f)"
proof -
  let ?v = "EncodeFragment env f"
  let ?d = "case nf_data f of FChunk c \<Rightarrow> EncodeChunk env c | FNodeRef n \<Rightarrow> EncodeNodeRef n"
  have fields: "GetOptional ?v ''id'' = (if nf_id f = [] then None else Some (JString (nf_id f)))"
    "GetOptional ?v ''data'' = Some ?d"
    "GetOptional ?v ''seq'' = map_option (\<lambda>n. JUint (ucast n)) (nf_seq f)"
    "GetOptional ?v ''continued'' = (if nf_continued f then Some (JBool True) else None)"
    unfolding EncodeFragment_def GetOptional_make_object by (simp_all split: option.split)
  have "is_object ?d" by (cases "nf_data f") (simp_all add: EncodeChunk_def EncodeNodeRef_def)
  moreover have "GetString ?v ''id'' [] ''NodeFragment'' = Ok (nf_id f)" by (simp add: GetString_def fields)
  moreover have "(case GetOptional ?v ''seq'' of None \<Rightarrow> Ok None | Some x \<Rightarrow> if is_null x then Ok None
      else r_bind (GetUnsigned ?v ''seq'' 0 0xffffffff ''NodeFragment'') (\<lambda>n. Ok (Some (ucast n)))) = Ok (nf_seq f)"
    by (cases "nf_seq f") (simp_all add: fields is_null_def GetUnsigned_u32)
  moreover have "FragmentValidate (canon_fragment id f) = Ok ()" using valid by (simp add: canon_fragment_valid)
  moreover have "(case GetOptional ?v ''continued'' of None \<Rightarrow> Ok False | Some (JBool b) \<Rightarrow> Ok b
      | Some _ \<Rightarrow> Err kInvalidArgument ''NodeFragment.continued must be a boolean'') = Ok (nf_continued f)"
    by (simp add: fields)
  moreover have "GetRequired ?v ''data'' ''NodeFragment'' = Ok ?d"
    by (rule GetRequired_present [OF _ fields(2)]) (simp add: EncodeFragment_def)
  moreover note data_json [OF refl env valid wf]
  ultimately show ?thesis
    unfolding DecodeFragment_def by (simp only: r_guard_def canon_fragment_eq Let_def r_bind_simps not_True_eq_False if_False)
qed

lemma port_json: "PortValidate p = Ok () \<Longrightarrow> DecodePort (EncodePort p) = Ok p"
proof -
  have "GetOptional (EncodePort p) ''name'' = (if pt_name p = [] then None else Some (JString (pt_name p)))"
    "GetOptional (EncodePort p) ''id'' = (if pt_id p = [] then None else Some (JString (pt_id p)))"
    unfolding EncodePort_def GetOptional_make_object by simp_all
  then have "GetString (EncodePort p) ''name'' [] ''Port'' = Ok (pt_name p)" "GetString (EncodePort p) ''id'' [] ''Port'' = Ok (pt_id p)"
    by (simp_all add: GetString_def)
  then show "PortValidate p = Ok () \<Longrightarrow> ?thesis" by (cases p) (simp add: DecodePort_def Let_def)
qed

lemma r_map_decoded: "(\<And>x. x \<in> set xs \<Longrightarrow> rd (wr x) = Ok (g x)) \<Longrightarrow> r_map rd (map wr xs) = Ok (map g xs)"
  by (induction xs) simp_all

lemma ports_json:
  assumes "\<forall>p\<in>set ps. PortValidate p = Ok ()"
  shows "JsonDecodePorts (if ps = [] then None else Some (JArray (map EncodePort ps))) ctx = Ok ps"
  using assms r_map_decoded [of ps DecodePort EncodePort "\<lambda>p. p"] by (simp add: JsonDecodePorts_def port_json)

lemma action_json:
  assumes env: "env_ok env" and valid: "ActionValidate a = Ok ()" and keys: "distinct (map fst (am_headers a))"
  shows "DecodeAction env (EncodeAction env a) = Ok (canon_action a)"
proof -
  let ?v = "EncodeAction env a"
  have fields: "GetOptional ?v ''id'' = Some (JString (am_id a))" "GetOptional ?v ''name'' = Some (JString (am_name a))"
    "GetOptional ?v ''inputs'' = (if am_inputs a = [] then None else Some (JArray (map EncodePort (am_inputs a))))"
    "GetOptional ?v ''outputs'' = (if am_outputs a = [] then None else Some (JArray (map EncodePort (am_outputs a))))"
    "GetOptional ?v ''headers'' = (if am_headers a = [] then None else Some (EncodeByteMap env (am_headers a)))"
    unfolding EncodeAction_def GetOptional_make_object by simp_all
  have ports: "\<forall>p\<in>set (am_inputs a). PortValidate p = Ok ()" "\<forall>p\<in>set (am_outputs a). PortValidate p = Ok ()"
    and hdrs: "\<forall>e\<in>set (am_headers a). ValidateName (fst e) = Ok ()"
    using valid by (simp_all add: ActionValidate_def ok_iff case_prod_unfold)
  have "ActionValidate (canon_action a) = Ok ()" using valid by (simp add: canon_action_valid)
  then show ?thesis
    by (simp add: DecodeAction_def GetString_def fields ports_json [OF ports(1)] ports_json [OF ports(2)]
        optional_byte_map_json [OF env keys hdrs] canon_action_eq Let_def del: if_split)
qed

lemma items_json:
  assumes "\<And>x. x \<in> set xs \<Longrightarrow> rd (wr x) = Ok (g x)"
  shows "DecodeItems rd (if xs = [] then None else Some (JArray (map wr xs))) field = Ok (map g xs)"
  using r_map_decoded [of xs rd wr g] assms by (simp add: DecodeItems_def)

lemma message_json:
  assumes env: "env_ok env" and j: "WireMessageToJsonValue env m = Ok j" and wf: "message_wf m"
  shows "WireMessageFromJsonValue env j = Ok (canon_message id m)"
proof -
  have valid: "MessageValidate m = Ok ()" using j by (auto simp: WireMessageToJsonValue_def ok_iff)
  have fields: "GetOptional j ''node_fragments'' =
        (if wm_node_fragments m = [] then None else Some (JArray (map (EncodeFragment env) (wm_node_fragments m))))"
    "GetOptional j ''actions'' = (if wm_actions m = [] then None else Some (JArray (map (EncodeAction env) (wm_actions m))))"
    "GetOptional j ''headers'' = (if wm_headers m = [] then None else Some (EncodeByteMap env (wm_headers m)))" and obj: "is_object j"
    using j by (auto simp: WireMessageToJsonValue_def ok_iff GetOptional_make_object)
  have hdrs: "\<forall>e\<in>set (wm_headers m). ValidateName (fst e) = Ok ()" and keys: "distinct (map fst (wm_headers m))"
    using valid wf by (simp_all add: MessageValidate_def message_wf_def ok_iff case_prod_unfold)
  have "DecodeItems (DecodeFragment env) (GetOptional j ''node_fragments'') ''WireMessage.node_fragments'' = Ok (map (canon_fragment id) (wm_node_fragments m))"
    unfolding fields using valid wf
    by (intro items_json fragment_json [OF env]) (simp_all add: MessageValidate_def message_wf_def ok_iff)
  moreover have "DecodeItems (DecodeAction env) (GetOptional j ''actions'') ''WireMessage.actions'' = Ok (map canon_action (wm_actions m))"
    unfolding fields using valid wf
    by (intro items_json action_json [OF env]) (simp_all add: MessageValidate_def message_wf_def ok_iff)
  moreover have "MessageValidate (canon_message id m) = Ok ()" using valid by (simp add: canon_message_valid)
  ultimately show ?thesis
    using obj optional_byte_map_json [OF env keys hdrs]
    by (simp add: WireMessageFromJsonValue_def fields(3) canon_message_def Let_def del: if_split)
qed

section \<open>The encoded value is plain JSON\<close>

lemma make_object_plain:
  assumes "\<forall>(k, v)\<in>set kvs. plain_json v"
  shows "plain_json (make_object kvs)"
proof -
  let ?ok = "list_all (\<lambda>(k, v). plain_json v)"
  have put: "?ok acc \<Longrightarrow> plain_json v \<Longrightarrow> ?ok (obj_put k v acc)" for k v acc
    by (induction k v acc rule: obj_put.induct) auto
  have "obj_sorted (fold (\<lambda>(k, v). obj_put k v) kvs acc) \<and> ?ok (fold (\<lambda>(k, v). obj_put k v) kvs acc)"
    if "obj_sorted acc" "?ok acc" for acc
    using that assms by (induction kvs arbitrary: acc) (auto simp: put obj_sorted_put)
  then show ?thesis by (simp add: make_object_def)
qed

lemma text_json_plain: "text_json n v \<Longrightarrow> plain_json v"
  by (induction n v rule: text_json.induct) (auto simp: list_all_iff)

lemma plain_encoded:
  "plain_json (EncodeByteMap env m)" "plain_json (EncodeMetadata env d)" "plain_json (EncodePort p)"
  by (auto simp: EncodeByteMap_def EncodeBytes_def EncodeMetadata_def EncodePort_def
      intro!: make_object_plain split: option.splits if_splits)

lemma plain_chunk: "plain_json (EncodeChunk env c)"
  by (auto simp: EncodeChunk_def EncodeBytes_def plain_encoded intro!: make_object_plain split: option.splits if_splits)

lemma identity_plain: "StorageIdentityToJsonValue v = Ok j \<Longrightarrow> plain_json j"
  using identity_text text_json_plain by blast

lemma plain_ref: "plain_json (EncodeNodeRef n)"
  by (auto simp: EncodeNodeRef_def intro!: make_object_plain dest: identity_plain split: option.splits if_splits sum.splits)

lemma plain_fragment: "plain_json (EncodeFragment env f)"
  by (auto simp: EncodeFragment_def plain_chunk plain_ref intro!: make_object_plain
      split: option.splits if_splits fragment_data.splits)

lemma plain_action: "plain_json (EncodeAction env a)"
  by (auto simp: EncodeAction_def plain_encoded list_all_iff intro!: make_object_plain split: if_splits)

lemma plain_message: "WireMessageToJsonValue env m = Ok j \<Longrightarrow> plain_json j"
  by (auto simp: WireMessageToJsonValue_def ok_iff plain_encoded plain_fragment plain_action list_all_iff
      intro!: make_object_plain split: if_splits)

section \<open>Properties of the JSON form\<close>

text \<open>An instance: times are printed in unary, the microseconds before the point and the rest after it.\<close>

definition sample_env :: json_env where
  "sample_env = \<lparr>Base64Escape = (\<lambda>s. s), Base64Unescape = Some,
     FormatTime = (\<lambda>t. case t of InfinitePast \<Rightarrow> ''p'' | InfiniteFuture \<Rightarrow> ''f''
       | Instant q \<Rightarrow> (if q div 4000 < 0 then ''-'' else ''+'') @ replicate (nat \<bar>q div 4000\<bar>) (CHR ''0'') @ ''.'' @ replicate (nat (q mod 4000)) (CHR ''0'')),
     ParseTime = (\<lambda>s. let n = int (length (takeWhile (\<lambda>c. c = CHR ''0'') (tl s))); r = int (length s) - n - 2
       in Inr (if s = ''p'' then InfinitePast else if s = ''f'' then InfiniteFuture
         else Instant ((if hd s = CHR ''-'' then - n else n) * 4000 + r)))\<rparr>"

lemma sample_env_ok: "env_ok sample_env"
proof -
  have "takeWhile (\<lambda>c. c = CHR ''0'') (replicate k (CHR ''0'') @ CHR ''.'' # s) = replicate k (CHR ''0'')" for k s
    by (induction k) simp_all
  then have "ParseTime sample_env (FormatTime sample_env (Instant q)) = Inr (Instant q)" for q
    by (simp add: sample_env_def Let_def)
  moreover have "ParseTime sample_env (FormatTime sample_env t) = Inr t" if "t = InfinitePast \<or> t = InfiniteFuture" for t
    using that by (auto simp: sample_env_def)
  ultimately have "ParseTime sample_env (FormatTime sample_env t) = Inr t" for t by (cases t) simp_all
  then show ?thesis by (simp add: env_ok_def) (simp add: sample_env_def)
qed

lemma sample_times:
  "FormatTime sample_env (Instant (- 3997)) = ''-0.000''" "FormatTime sample_env (Instant (- 4000)) = ''-0.''"
  by (simp_all add: sample_env_def numeral_3_eq_3)

lemma message_json_roundtrip:
  assumes "WireMessageToJson env dump m = Ok printed" and "message_wf m" and "env_ok env" and "parses_printed dump parse"
  shows "WireMessageFromJson env parse printed = Ok (canon_message id m)"
proof -
  obtain j where j: "WireMessageToJsonValue env m = Ok j" and "DumpJson dump j ''WireMessage JSON'' = Ok printed"
    using assms(1) by (auto simp: WireMessageToJson_def ok_iff)
  then have "dump j = Inr printed" by (auto simp: DumpJson_def split: if_splits sum.splits)
  then have "parse printed = Inr j" using assms(4) plain_message [OF j] unfolding parses_printed_def by blast
  then show ?thesis using message_json [OF assms(3) j assms(2)] by (simp add: WireMessageFromJson_def ParseJson_def)
qed

text \<open>The JSON form of messages is a codec, and an endpoint that receives MessagePack and writes JSON a gateway.\<close>

interpretation wire_json: codec "WireMessageToJson env dump" "WireMessageFromJson env parse" "canon_message id" message_wf
  "\<lambda>printed. env_ok env \<and> parses_printed dump parse" for env dump parse
  by unfold_locales (use message_json_roundtrip in blast)

interpretation msgpack_to_json: gateway "MessageToMsgpack tc tm" "MessageFromMsgpack tc" "canon_message floor_micros" message_wf
  "\<lambda>bytes. length bytes < 2 ^ 32 \<and> packs_text tm \<and> times_ok tc" "canon_message id" "WireMessageToJson env dump" "WireMessageFromJson env parse"
  "\<lambda>printed. env_ok env \<and> parses_printed dump parse" for tc tm env dump parse
  by unfold_locales

text \<open>C7. A message printed as JSON is read back as the same message, with the entries of its hash maps in
  key order and its timestamps unchanged, also within a microsecond.  Base64 and RFC 3339 text are
  read back as what was written, and the JSON library reads back the values it prints.\<close>

theorem wire_json_roundtrip:
  assumes "WireMessageToJson env dump m = Ok printed" and "message_wf m" and "env_ok env" and "parses_printed dump parse"
  shows "WireMessageFromJson env parse printed = Ok (canon_message id m)"
  using wire_json.dec_enc [OF assms(1,2)] assms(3,4) by blast

definition sample_json :: "string \<Rightarrow> json" where
  "sample_json timestamp = JObject
    [(''actions'', JArray [JObject [(''id'', JString ''a1''), (''inputs'', JArray [JObject [(''id'', JString ''n1''), (''name'', JString ''in'')]]),
       (''name'', JString ''echo'')]]),
     (''headers'', JObject [(''k'', JString ''v''), (''z'', JString ''9'')]),
     (''node_fragments'', JArray [
       JObject [(''continued'', JBool True), (''data'', JObject [(''data'', JString ''hello''), (''metadata'', JObject
           [(''attributes'', JObject [(''a'', JString ''1''), (''b'', JString ''2'')]), (''mimetype'', JString ''text/plain''), (''timestamp'', JString timestamp)])]),
         (''id'', JString ''n1''), (''seq'', JUint 3)],
       JObject [(''data'', JObject [(''id'', JString ''src''), (''length'', JUint 70000), (''offset'', JUint 2), (''storage'', JObject
           [(''credentials'', JObject [(''fields'', JObject [(''pass'', JString ''p''), (''user'', JString ''u'')]), (''scheme'', JString ''basic'')]),
            (''id'', JString ''disk''),
            (''services'', JArray [JObject [(''endpoint'', JString ''host:1''), (''role'', JString ''reader'')]])])]),
         (''id'', JString ''n2'')]])]"

lemma sample_json_value: "WireMessageToJsonValue sample_env sample_message = Ok (sample_json ''-0.000'')"
  unfolding WireMessageToJsonValue_def sample_message_valid
  by (simp add: sample_defs EncodeFragment_def EncodeChunk_def EncodeMetadata_def
      EncodeNodeRef_def sample_identity_value EncodeAction_def EncodePort_def EncodeByteMap_def EncodeBytes_def make_object_def
      sample_times) (simp add: sample_env_def sample_json_def less_char_def)

lemma sample_received_value:
  "WireMessageToJsonValue sample_env (canon_message floor_micros sample_message) = Ok (sample_json ''-0.'')"
proof -
  have meta: "canon_map [(''b'', ''2''), (''a'', ''1'')] = [(''a'', ''1''), (''b'', ''2'')]"
    "canon_map [(''z'', ''9''), (''k'', ''v'')] = [(''k'', ''v''), (''z'', ''9'')]"
    by (simp_all add: canon_map_def less_char_def)
  have identity: "StorageIdentityToJsonValue (canon_identity sample_identity) = StorageIdentityToJsonValue sample_identity"
    using sample_identity_value StorageIdentityToJsonValue_canon [of sample_identity]
    by (simp add: identity_wf_def credentials_wf_def) (simp add: sample_identity_def)
  have valid: "MessageValidate (canon_message floor_micros sample_message) = Ok ()"
    using sample_message_valid by (simp add: canon_message_valid)
  show ?thesis
    unfolding WireMessageToJsonValue_def valid
    by (simp add: canon_message_def sample_defs canon_fragment_def canon_data_def canon_chunk_def canon_metadata_def canon_ref_def
        canon_action_def meta sample_floored EncodeFragment_def EncodeChunk_def EncodeMetadata_def
        EncodeNodeRef_def identity sample_identity_value EncodeAction_def EncodePort_def EncodeByteMap_def EncodeBytes_def make_object_def
        sample_times) (simp add: sample_env_def sample_json_def canon_map_def less_char_def)
qed

lemma sample_dumped:
  assumes "WireMessageToJsonValue sample_env m = Ok (sample_json timestamp)" and "timestamp = ''-0.000'' \<or> timestamp = ''-0.''"
  shows "\<exists>printed. WireMessageToJson sample_env sample_dump m = Ok printed"
proof -
  have j: "packable 0 (sample_json timestamp)" "\<forall>t\<in>json_strings (sample_json timestamp). IsValid t"
    using assms(2) by (auto simp: sample_json_def less_char_def)
  then have "FindUnencodableString (sample_json timestamp) = None" unfolding FindUnencodableString_def FindUnencodable_None by simp
  then show ?thesis using assms(1) j(1) by (simp add: WireMessageToJson_def DumpJson_def sample_dump_def)
qed

theorem wire_json_roundtrip_witness:
  "\<exists>printed. WireMessageToJson sample_env sample_dump sample_message = Ok printed \<and> message_wf sample_message \<and>
     env_ok sample_env \<and> parses_printed sample_dump sample_parse \<and>
     WireMessageFromJson sample_env sample_parse printed = Ok (canon_message id sample_message)"
proof -
  obtain printed where "WireMessageToJson sample_env sample_dump sample_message = Ok printed"
    using sample_dumped [OF sample_json_value] by blast
  then show ?thesis
    using wire_json_roundtrip [OF _ sample_message_wf sample_env_ok sample_parses] sample_message_wf sample_env_ok sample_parses by blast
qed

end
