(* ===== verification/Text_Properties.thy ===== *)
theory Text_Properties
  imports Text_Encoding
begin

text \<open>
  What the text encodings accept and produce: the strings \<open>utf8::IsValid\<close> accepts are exactly the
  UTF-8 encodings of sequences of Unicode scalar values, and percent decoding undoes percent encoding
  in both of its postures.
\<close>

section \<open>UTF-8\<close>

definition scalar_value :: "nat \<Rightarrow> bool" where
  "scalar_value p \<longleftrightarrow> p < 0xD800 \<or> 0xDFFF < p \<and> p \<le> 0x10FFFF"

text \<open>The encoding form of the Unicode standard (table 3-6).\<close>

definition utf8_encode :: "nat \<Rightarrow> string" where
  "utf8_encode p =
     (if p < 0x80 then [char_of p]
      else if p < 0x800 then [char_of (0xC0 + p div 64), char_of (0x80 + p mod 64)]
      else if p < 0x10000 then
        [char_of (0xE0 + p div 4096), char_of (0x80 + p div 64 mod 64), char_of (0x80 + p mod 64)]
      else
        [char_of (0xF0 + p div 262144), char_of (0x80 + p div 4096 mod 64),
         char_of (0x80 + p div 64 mod 64), char_of (0x80 + p mod 64)])"

lemma lead_masks:
  assumes "(b::nat) < 256"
  shows "b AND 0xE0 = 0xC0 \<longleftrightarrow> 192 \<le> b \<and> b < 224" and "b AND 0xF0 = 0xE0 \<longleftrightarrow> 224 \<le> b \<and> b < 240"
    and "b AND 0xF8 = 0xF0 \<longleftrightarrow> 240 \<le> b \<and> b < 248" and "b AND 0xC0 = 0x80 \<longleftrightarrow> 128 \<le> b \<and> b < 192"
  using assms and_high_eq [of b 5 3 6] and_high_eq [of b 4 4 14] and_high_eq [of b 3 5 30] and_high_eq [of b 6 2 2]
  by (simp_all add: push_bit_eq_mult mask_eq_exp_minus_1 div_eq_iff_range)

lemma low_masks: "(b::nat) AND 0x1F = b mod 32" "b AND 0x0F = b mod 16" "b AND 0x07 = b mod 8" "b AND 0x3F = b mod 64"
  using and_mask_mod [of b 5] and_mask_mod [of b 4] and_mask_mod [of b 3] and_mask_mod [of b 6]
  by (simp_all add: mask_eq_exp_minus_1)

lemma LeadByte_ranges:
  "b < 256 \<Longrightarrow> LeadByte b =
     (if 192 \<le> b \<and> b < 224 then Some (2, b mod 32) else if 224 \<le> b \<and> b < 240 then Some (3, b mod 16)
      else if 240 \<le> b \<and> b < 248 then Some (4, b mod 8) else None)"
  unfolding LeadByte_def low_masks using lead_masks [of b] by simp

lemma IsContinuation_range: "IsContinuation c \<longleftrightarrow> 128 \<le> (of_char c :: nat) \<and> of_char c < (192 :: nat)"
  using lead_masks(4) [of "of_char c"] by (simp add: IsContinuation_def)

lemma Continue_step:
  "Continue p (c # cs) = (if IsContinuation c then Continue (64 * p + of_char c mod 64) cs else None)"
  using or_push [of "of_char c mod 64" 6 p] by (simp add: low_masks)

declare Continue.simps(2) [simp del]

lemma continuation_char: "m < 64 \<Longrightarrow> IsContinuation (char_of (128 + m)) \<and> of_char (char_of (128 + m)) mod 64 = (m :: nat)"
  using mod_range [of 2 64 "128 + m"] by (simp add: IsContinuation_range)

lemma continuation_back:
  assumes "IsContinuation c"
  shows "char_of (128 + of_char c mod 64 :: nat) = c"
proof -
  have "128 + of_char c mod 64 = (of_char c :: nat)"
    using assms mod_range [of 2 64 "of_char c"] by (simp add: IsContinuation_range)
  then show ?thesis by simp
qed

lemma divs: "(p::nat) div 4096 = p div 64 div 64" "p div 262144 = p div 64 div 64 div 64"
  by (simp_all add: div_mult2_eq [symmetric])

lemma valid_2:
  assumes "0x80 \<le> p" "p < 0x800"
  shows "IsValid (utf8_encode p @ s) = IsValid s"
proof -
  have q: "p div 64 < 32" using assms by (simp add: less_mult_imp_div_less)
  have "LeadByte (192 + p div 64) = Some (2, p div 64)"
    using q mod_range [of 6 32 "192 + p div 64"] by (simp add: LeadByte_ranges)
  moreover have "Continue (p div 64) [char_of (128 + p mod 64)] = Some p"
    using continuation_char [of "p mod 64"] by (simp add: Continue_step)
  ultimately show ?thesis using assms q by (simp add: utf8_encode_def bad_point_def kSmallest_def)
qed

lemma valid_3:
  assumes "0x800 \<le> p" "p < 0x10000" "scalar_value p"
  shows "IsValid (utf8_encode p @ s) = IsValid s"
proof -
  have q: "p div 4096 < 16" using assms by (simp add: less_mult_imp_div_less)
  have lead: "LeadByte (224 + p div 4096) = Some (3, p div 4096)"
    using q mod_range [of 14 16 "224 + p div 4096"] by (simp add: LeadByte_ranges)
  have "Continue (p div 64 div 64) [char_of (128 + p div 64 mod 64), char_of (128 + p mod 64)] = Some p"
    using continuation_char [of "p mod 64"] continuation_char [of "p div 64 mod 64"] by (simp add: Continue_step)
  moreover have "\<not> bad_point 3 p" using assms by (auto simp: bad_point_def kSmallest_def scalar_value_def)
  ultimately show ?thesis using assms(1,2) q lead by (simp add: utf8_encode_def flip: divs)
qed

lemma valid_4:
  assumes "0x10000 \<le> p" "p \<le> 0x10FFFF"
  shows "IsValid (utf8_encode p @ s) = IsValid s"
proof -
  have q: "p div 262144 < 8" using assms by (simp add: less_mult_imp_div_less)
  have lead: "LeadByte (240 + p div 262144) = Some (4, p div 262144)"
    using q mod_range [of 30 8 "240 + p div 262144"] by (simp add: LeadByte_ranges)
  have "Continue (p div 64 div 64 div 64) [char_of (128 + p div 64 div 64 mod 64), char_of (128 + p div 64 mod 64), char_of (128 + p mod 64)] = Some p"
    using continuation_char [of "p mod 64"] continuation_char [of "p div 64 mod 64"] continuation_char [of "p div 64 div 64 mod 64"]
    by (simp add: Continue_step)
  moreover have "\<not> bad_point 4 p" using assms by (auto simp: bad_point_def kSmallest_def)
  ultimately show ?thesis using assms(1,2) q lead by (simp add: utf8_encode_def divs)
qed

lemma IsValid_encode: "scalar_value p \<Longrightarrow> IsValid (utf8_encode p @ s) = IsValid s"
  using valid_2 [of p s] valid_3 [of p s] valid_4 [of p s]
  by (cases "p < 0x80"; cases "p < 0x800"; cases "p < 0x10000") (simp_all add: utf8_encode_def scalar_value_def)

lemma scalar_point: "\<not> bad_point w p \<Longrightarrow> scalar_value p \<and> kSmallest w \<le> p"
  by (auto simp: bad_point_def scalar_value_def)

lemma join_char: "m < 64 \<Longrightarrow> (64 * n + m) div 64 = (n::nat) \<and> (64 * n + m) mod 64 = m"
  by simp

lemma mod_bounds: "(n::nat) mod 64 < 64" "n mod 32 < 32" "n mod 16 < 16" "n mod 8 < 8"
  by simp_all

text \<open>A sequence the validator accepts is the encoding of the point it computes.\<close>

lemma encode_2:
  fixes l d :: nat
  assumes "l < 32" "d < 64" "\<not> bad_point 2 (64 * l + d)"
  shows "utf8_encode (64 * l + d) = [char_of (192 + l), char_of (128 + d)]"
proof -
  have "64 * l + d < 0x800" using assms by linarith
  moreover have "0x80 \<le> 64 * l + d" using scalar_point [OF assms(3)] by (simp add: kSmallest_def)
  ultimately show ?thesis using join_char [OF assms(2), of l] by (simp add: utf8_encode_def)
qed

lemma encode_3:
  fixes l d e :: nat
  assumes "l < 16" "d < 64" "e < 64" "\<not> bad_point 3 (64 * (64 * l + d) + e)"
  shows "utf8_encode (64 * (64 * l + d) + e) = [char_of (224 + l), char_of (128 + d), char_of (128 + e)]"
proof -
  let ?p = "64 * (64 * l + d) + e"
  have "l \<le> 15" "d \<le> 63" "e \<le> 63" using assms by simp_all
  then have "?p < 0x10000" by (simp add: distrib_left)
  moreover have "0x800 \<le> ?p" using scalar_point [OF assms(4)] by (simp add: kSmallest_def)
  ultimately show ?thesis
    using join_char [OF assms(3), of "64 * l + d"] join_char [OF assms(2), of l] by (simp add: utf8_encode_def divs)
qed

lemma encode_4:
  fixes l d e f :: nat
  assumes "l < 8" "d < 64" "e < 64" "f < 64" "\<not> bad_point 4 (64 * (64 * (64 * l + d) + e) + f)"
  shows "utf8_encode (64 * (64 * (64 * l + d) + e) + f) = [char_of (240 + l), char_of (128 + d), char_of (128 + e), char_of (128 + f)]"
proof -
  have "0x10000 \<le> 64 * (64 * (64 * l + d) + e) + f" using scalar_point [OF assms(5)] by (simp add: kSmallest_def)
  then show ?thesis
    using join_char [OF assms(4), of "64 * (64 * l + d) + e"] join_char [OF assms(3), of "64 * l + d"] join_char [OF assms(2), of l]
    by (simp add: utf8_encode_def divs)
qed

text \<open>The first sequence of a non-empty string the validator accepts.\<close>

lemma Continue_Some_Cons:
  "Continue p (d # ds) = Some q \<longleftrightarrow> IsContinuation d \<and> Continue (64 * p + of_char d mod 64) ds = Some q"
  by (simp add: Continue_step)

lemma lead_char:
  assumes "k * n \<le> (of_char c :: nat)" "(of_char c :: nat) < k * n + n"
  shows "char_of (k * n + of_char c mod n :: nat) = c"
  using mod_range [OF assms] assms(1) by simp

lemma valid_first:
  assumes "\<not> of_char c < (0x80 :: nat)" "LeadByte (of_char c) = Some (w, l)" "w \<le> Suc (length cs)"
    and "Continue l (take (w - 1) cs) = Some p" "\<not> bad_point w p"
  shows "c # cs = utf8_encode p @ drop (w - 1) cs"
proof -
  consider "192 \<le> (of_char c :: nat)" "(of_char c :: nat) < 224" "w = 2" "l = of_char c mod 32"
    | "224 \<le> (of_char c :: nat)" "(of_char c :: nat) < 240" "w = 3" "l = of_char c mod 16"
    | "240 \<le> (of_char c :: nat)" "(of_char c :: nat) < 248" "w = 4" "l = of_char c mod 8"
    using assms(2) by (auto simp: LeadByte_ranges split: if_splits)
  then show ?thesis
  proof cases
    case 1
    then obtain d ds where cs: "cs = d # ds" using assms(3) by (cases cs) auto
    have d: "IsContinuation d" "p = 64 * l + of_char d mod 64" using assms(4) by (simp_all add: cs 1 Continue_Some_Cons)
    then show ?thesis
      using encode_2 [of l "of_char d mod 64"] lead_char [of 6 32 c] continuation_back [OF d(1)] assms(5) by (simp add: cs 1)
  next
    case 2
    then obtain d e ds where cs: "cs = d # e # ds" using assms(3) by (cases cs; cases "tl cs") auto
    have d: "IsContinuation d" "IsContinuation e" "p = 64 * (64 * l + of_char d mod 64) + of_char e mod 64"
      using assms(4) by (simp_all add: cs 2 Continue_Some_Cons)
    then show ?thesis
      using encode_3 [of l "of_char d mod 64" "of_char e mod 64"] lead_char [of 14 16 c]
        continuation_back [OF d(1)] continuation_back [OF d(2)] assms(5) by (simp add: cs 2)
  next
    case 3
    then obtain d e f ds where cs: "cs = d # e # f # ds" using assms(3) by (cases cs; cases "tl cs"; cases "tl (tl cs)") auto
    have d: "IsContinuation d" "IsContinuation e" "IsContinuation f"
      "p = 64 * (64 * (64 * l + of_char d mod 64) + of_char e mod 64) + of_char f mod 64"
      using assms(4) by (simp_all add: cs 3 Continue_Some_Cons)
    then show ?thesis
      using encode_4 [of l "of_char d mod 64" "of_char e mod 64" "of_char f mod 64"] lead_char [of 30 8 c]
        continuation_back [OF d(1)] continuation_back [OF d(2)] continuation_back [OF d(3)] assms(5) by (simp add: cs 3)
  qed
qed

lemma IsValid_decode: "IsValid s \<Longrightarrow> \<exists>ps. (\<forall>p\<in>set ps. scalar_value p) \<and> s = concat (map utf8_encode ps)"
proof (induction s rule: length_induct)
  case (1 s)
  show ?case
  proof (cases s)
    case Nil
    then show ?thesis by (intro exI [of _ "[]"]) simp
  next
    case (Cons c cs)
    obtain p rest where p: "scalar_value p" "s = utf8_encode p @ rest" "IsValid rest" "length rest < length s"
    proof (cases "of_char c < (0x80 :: nat)")
      case True
      then show ?thesis using that [of "of_char c" cs] 1(2) Cons by (simp add: scalar_value_def utf8_encode_def)
    next
      case False
      then obtain w l p where "LeadByte (of_char c) = Some (w, l)" "w \<le> Suc (length cs)"
        "Continue l (take (w - 1) cs) = Some p" "\<not> bad_point w p" "IsValid (drop (w - 1) cs)"
        using 1(2) unfolding Cons by (auto simp: not_less split: option.splits if_splits)
      moreover from calculation(1-4) have "c # cs = utf8_encode p @ drop (w - 1) cs" by (rule valid_first [OF False])
      moreover have "length (drop (w - 1) cs) < length s" by (simp add: Cons)
      ultimately show ?thesis using that [of p "drop (w - 1) cs"] scalar_point [of w p] unfolding Cons by blast
    qed
    then obtain ps where "\<forall>p\<in>set ps. scalar_value p" "rest = concat (map utf8_encode ps)" using 1(1) by blast
    then show ?thesis using p by (intro exI [of _ "p # ps"]) simp
  qed
qed

text \<open>C20. The validator accepts exactly the UTF-8 encodings of sequences of Unicode scalar values: no
  overlong forms, no surrogates, nothing above U+10FFFF, no truncated sequences, and every well-formed
  text.\<close>

theorem utf8_valid_iff: "IsValid s \<longleftrightarrow> (\<exists>ps. (\<forall>p\<in>set ps. scalar_value p) \<and> s = concat (map utf8_encode ps))"
proof
  assume "\<exists>ps. (\<forall>p\<in>set ps. scalar_value p) \<and> s = concat (map utf8_encode ps)"
  then obtain ps where ps: "\<forall>p\<in>set ps. scalar_value p" "s = concat (map utf8_encode ps)" by blast
  from ps(1) have "IsValid (concat (map utf8_encode ps))" by (induction ps) (simp_all add: IsValid_encode)
  then show "IsValid s" by (simp add: ps(2))
qed (rule IsValid_decode)

theorem utf8_valid_iff_witness: "IsValid (utf8_encode 0x20AC @ utf8_encode 0x61)"
proof -
  have "utf8_encode 0x20AC @ utf8_encode 0x61 = concat (map utf8_encode [0x20AC, 0x61])" by simp
  moreover have "\<forall>p\<in>set [0x20AC, 0x61]. scalar_value p" by (simp add: scalar_value_def)
  ultimately show ?thesis using utf8_valid_iff by blast
qed

section \<open>Percent escapes\<close>

lemma HexDigit_kLowerHex: "n < 16 \<Longrightarrow> HexDigit (kLowerHex ! n) = Some n"
proof -
  have "\<forall>n\<in>set [0..<16]. HexDigit (kLowerHex ! n) = Some n" by (simp add: upt_rec kLowerHex_def HexDigit_def)
  then show "n < 16 \<Longrightarrow> HexDigit (kLowerHex ! n) = Some n" by simp
qed

lemma escape_value_encoded:
  "escape_value (kLowerHex ! drop_bit 4 (of_char c) # kLowerHex ! (of_char c AND 0x0F) # s) = Some c"
proof -
  let ?b = "of_char c :: nat"
  have "drop_bit 4 ?b < 16" "?b AND 0x0F < 16" by (simp_all add: drop_bit_eq_div low_masks less_mult_imp_div_less)
  moreover have "push_bit 4 (drop_bit 4 ?b) OR (?b AND 0x0F) = ?b"
    using or_push [of "?b mod 16" 4 "?b div 16"] by (simp add: drop_bit_eq_div low_masks)
  ultimately show ?thesis by (simp add: HexDigit_kLowerHex)
qed

lemma unreserved_plain: "unreserved c \<Longrightarrow> c \<noteq> CHR ''%'' \<and> c \<noteq> CHR ''+''"
  by (auto simp: unreserved_def Let_def)

lemma PercentDecode_byte: "PercentDecode plus_is_space (EncodeByte c @ s) = c # PercentDecode plus_is_space s"
  using unreserved_plain [of c] by (simp add: EncodeByte_def escape_value_encoded del: escape_value.simps)

lemma DecodeStrict_byte: "DecodeStrict (EncodeByte c @ s) what = r_bind (DecodeStrict s what) (\<lambda>r. Ok (c # r))"
  using unreserved_plain [of c] by (simp add: EncodeByte_def escape_value_encoded del: escape_value.simps)

text \<open>C21. Percent encoding loses nothing: lenient decoding (with or without \<open>+\<close> as a space) and strict
  decoding both return the original bytes, and the encoded text uses unreserved characters and percent
  signs only.\<close>

theorem percent_roundtrip:
  "PercentDecode plus_is_space (PercentEncode s) = s \<and> DecodeStrict (PercentEncode s) what = Ok s \<and>
   set (PercentEncode s) \<subseteq> {c. unreserved c} \<union> {CHR ''%''}"
proof -
  have "set (EncodeByte c) \<subseteq> {c. unreserved c} \<union> {CHR ''%''}" for c
  proof -
    have "\<forall>n\<in>set [0..<16]. unreserved (kLowerHex ! n)" by (simp add: upt_rec kLowerHex_def unreserved_def)
    moreover have "drop_bit 4 (of_char c) < (16 :: nat)" "of_char c AND 0x0F < (16 :: nat)"
      by (simp_all add: drop_bit_eq_div low_masks less_mult_imp_div_less)
    ultimately show ?thesis by (simp add: EncodeByte_def)
  qed
  then have "set (PercentEncode s) \<subseteq> {c. unreserved c} \<union> {CHR ''%''}" by (auto simp: PercentEncode_def)
  moreover have "PercentDecode plus_is_space (PercentEncode s) = s"
    by (induction s) (simp_all add: PercentEncode_def PercentDecode_byte del: PercentDecode.simps(2))
  moreover have "DecodeStrict (PercentEncode s) what = Ok s"
    by (induction s) (simp_all add: PercentEncode_def DecodeStrict_byte del: DecodeStrict.simps(2))
  ultimately show ?thesis by simp
qed

lemma escape_value_None: "length cs < 2 \<Longrightarrow> escape_value cs = None"
  by (cases cs rule: escape_value.cases) simp_all

text \<open>The two decoders agree wherever the strict one accepts: it then returns what lenient decoding
  (with \<open>+\<close> literal) returns.\<close>

theorem strict_decode_is_lenient:
  assumes "DecodeStrict s what = Ok t"
  shows "PercentDecode False s = t"
  using assms
proof (induction s what arbitrary: t rule: DecodeStrict.induct)
  case (2 c cs what)
  then show ?case
    by (cases "c = CHR ''%''"; cases "length cs < 2"; cases "escape_value cs") (auto simp: ok_iff escape_value_None)
qed simp

theorem strict_decode_is_lenient_witness:
  "DecodeStrict ''a%2f+'' ''URL'' = Ok ''a/+'' \<and> PercentDecode False ''a%2f+'' = ''a/+''"
proof -
  have "DecodeStrict ''a%2f+'' ''URL'' = Ok ''a/+''" by (simp add: HexDigit_def) code_simp
  then show ?thesis using strict_decode_is_lenient by blast
qed

end
