(* ===== verification/Chunk_Store.thy ===== *)
theory Chunk_Store
  imports Wire_Types
begin

text \<open>
  The in-memory chunk store (\<open>LocalChunkStore\<close> of \<open>cpp/a11/stores/local_chunk_store.cc\<close>, the
  interface \<open>cpp/a11/stores/chunk_store.h\<close> and the adapter \<open>PutOneViaPutMany\<close> of
  \<open>cpp/a11/stores/internal/chunk_store_common.h\<close>).

  Every operation runs its body under the store's mutex, so an operation is a function on the state
  \<open>LocalStore\<close>.  Hash maps are association lists.  The 64-bit counters are natural numbers: they
  count stored fragments, of which there are at most 2^32.  A pending read is a \<open>ReadRequest\<close> with
  an identity in place of its address; the promises an operation completes after it has released the
  mutex are the list of completions it returns.  \<open>changed\<close> counts the generations of the
  notification event: replacing and notifying the event is incrementing it, and a snapshot has fired
  when it is below the current count.
\<close>

section \<open>State\<close>

datatype ReadKind = kSequence | kArrivalOrder

record ReadRequest =
  rq_id :: nat
  rq_kind :: ReadKind
  rq_value :: nat
  rq_completed :: bool

record LocalStore =
  node_id :: string
  seq_to_arrival_order :: "(u32 \<times> nat) list"
  arrival_order_to_seq :: "(nat \<times> u32) list"
  chunks :: "(u32 \<times> fragment_data) list"
  final_seq :: "u32 option"
  total_chunks_put :: nat
  total_chunks_read :: nat
  write_status :: "status option"
  pending_reads :: "ReadRequest list"
  changed :: nat

type_synonym completion = "ReadRequest \<times> NodeFragment result"

definition kUint32Max :: nat where
  "kUint32Max = 4294967295"

definition Create :: "string \<Rightarrow> LocalStore result" where
  "Create name =
     r_then (ValidateName name)
       (Ok \<lparr>node_id = name, seq_to_arrival_order = [], arrival_order_to_seq = [], chunks = [],
            final_seq = None, total_chunks_put = 0, total_chunks_read = 0, write_status = None,
            pending_reads = [], changed = 0\<rparr>)"

section \<open>Reads\<close>

text \<open>The fragment the store builds from a stored value.\<close>

definition stored_fragment :: "LocalStore \<Rightarrow> u32 \<Rightarrow> fragment_data \<Rightarrow> NodeFragment" where
  "stored_fragment st n d =
     \<lparr>nf_id = node_id st, nf_data = d, nf_seq = Some n,
      nf_continued = (case final_seq st of None \<Rightarrow> True | Some f \<Rightarrow> n < f)\<rparr>"

definition LookupReadLocked :: "ReadRequest \<Rightarrow> LocalStore \<Rightarrow> NodeFragment result option" where
  "LookupReadLocked request st =
     (let missing =
        (case write_status st of
           None \<Rightarrow> None
         | Some s \<Rightarrow>
             Some (if \<not> status_ok s then Inl s
                   else Err kNotFound
                     ((case rq_kind request of
                         kSequence \<Rightarrow> ''Chunk store closed without seq ''
                       | kArrivalOrder \<Rightarrow> ''Chunk store closed without arrival order '') @
                      dec (rq_value request))))
      in case rq_kind request of
           kSequence \<Rightarrow>
             (let requested_seq = word_of_nat (rq_value request)
              in case map_of (chunks st) requested_seq of
                   Some d \<Rightarrow> Some (Ok (stored_fragment st requested_seq d))
                 | None \<Rightarrow> missing)
         | kArrivalOrder \<Rightarrow>
             (case map_of (arrival_order_to_seq st) (rq_value request) of
                Some n \<Rightarrow>
                  (case map_of (chunks st) n of
                     None \<Rightarrow> Some (Err kDataLoss ''Chunk store index references a missing chunk'')
                   | Some d \<Rightarrow> Some (Ok (stored_fragment st n d)))
              | None \<Rightarrow> missing))"

text \<open>The loop over \<open>pending_reads\<close>: the requests that stay and the completions of the others.\<close>

fun collect_reads :: "LocalStore \<Rightarrow> ReadRequest list \<Rightarrow> ReadRequest list \<times> completion list" where
  "collect_reads st [] = ([], [])"
| "collect_reads st (request # rest) =
     (let (keep, completions) = collect_reads st rest
      in if rq_completed request then (keep, completions)
         else case LookupReadLocked request st of
           None \<Rightarrow> (request # keep, completions)
         | Some result \<Rightarrow> (keep, (request, result) # completions))"

definition CollectReadsLocked :: "LocalStore \<Rightarrow> LocalStore \<times> completion list" where
  "CollectReadsLocked st =
     (let (keep, completions) = collect_reads st (pending_reads st)
      in (st\<lparr>pending_reads := keep\<rparr>, completions))"

text \<open>\<open>Read\<close> with a fresh request: nobody else holds it yet, so claiming it succeeds.\<close>

definition Read_request :: "ReadRequest \<Rightarrow> LocalStore \<Rightarrow> LocalStore \<times> completion list" where
  "Read_request request st =
     (case LookupReadLocked request st of
        Some result \<Rightarrow> (st, [(request, result)])
      | None \<Rightarrow> (st\<lparr>pending_reads := pending_reads st @ [request]\<rparr>, []))"

definition Get_request :: "nat \<Rightarrow> u32 \<Rightarrow> ReadRequest" where
  "Get_request i n = \<lparr>rq_id = i, rq_kind = kSequence, rq_value = unat n, rq_completed = False\<rparr>"

definition GetByArrivalOrder_request :: "nat \<Rightarrow> nat \<Rightarrow> ReadRequest" where
  "GetByArrivalOrder_request i n = \<lparr>rq_id = i, rq_kind = kArrivalOrder, rq_value = n, rq_completed = False\<rparr>"

text \<open>
  The cancellation callback and the deadline timer claim a request without the mutex; what they find
  is a request of \<open>pending_reads\<close> that is not completed yet.  \<open>RemoveRead\<close> then takes it out.
\<close>

definition claim_read :: "nat \<Rightarrow> LocalStore \<Rightarrow> LocalStore" where
  "claim_read i st =
     st\<lparr>pending_reads := map (\<lambda>r. if rq_id r = i then r\<lparr>rq_completed := True\<rparr> else r) (pending_reads st)\<rparr>"

definition RemoveRead :: "nat \<Rightarrow> LocalStore \<Rightarrow> LocalStore" where
  "RemoveRead i st = st\<lparr>pending_reads := filter (\<lambda>r. rq_id r \<noteq> i) (pending_reads st)\<rparr>"

section \<open>The shared cursor\<close>

text \<open>What \<open>CollectNext\<close> returns: an engaged status, or the snapshot to wait for.\<close>

datatype collected = Settled "unit result" | MustWait nat

function CollectNext :: "NodeFragment option list \<Rightarrow> nat \<Rightarrow> LocalStore \<Rightarrow>
    collected \<times> NodeFragment option list \<times> LocalStore" where
  "CollectNext fragments limit st =
     (if total_chunks_read st > kUint32Max then (Settled (Ok ()), fragments @ [None], st)
      else
        let expected_seq = word_of_nat (total_chunks_read st);
            final_was_read = (case final_seq st of None \<Rightarrow> False | Some f \<Rightarrow> total_chunks_read st > unat f)
        in if final_was_read then
             (case write_status st of
                Some s \<Rightarrow>
                  if \<not> status_ok s
                  then (Settled (if fragments \<noteq> [] then Ok () else Inl s), fragments, st)
                  else (Settled (Ok ()), fragments @ [None], st)
              | None \<Rightarrow> (Settled (Ok ()), fragments @ [None], st))
           else case (map_of (chunks st) expected_seq, write_status st) of
             (None, Some s) \<Rightarrow>
               if status_ok s then (Settled (Ok ()), fragments @ [None], st)
               else (Settled (if fragments \<noteq> [] then Ok () else Inl s), fragments, st)
           | (found, _) \<Rightarrow>
               if length fragments = limit then (Settled (Ok ()), fragments, st)
               else (case found of
                       None \<Rightarrow> (MustWait (changed st), fragments, st)
                     | Some d \<Rightarrow>
                         CollectNext (fragments @ [Some (stored_fragment st expected_seq d)]) limit
                           (st\<lparr>total_chunks_read := total_chunks_read st + 1\<rparr>)))"
  by pat_completeness auto
termination
  by (relation "measure (\<lambda>(_, _, st). Suc kUint32Max - total_chunks_read st)") auto

declare CollectNext.simps [simp del]

text \<open>
  \<open>Next\<close>: the part on the caller's thread, and one turn of the waiting loop with the outcome of
  \<open>WaitForChange\<close>.  A call that has to wait is the fragments it holds and its snapshot.
\<close>

type_synonym next_result = "NodeFragment option list result"

datatype next_call = Answered next_result | Waiting "NodeFragment option list" nat

definition Next :: "nat \<Rightarrow> LocalStore \<Rightarrow> next_call \<times> LocalStore" where
  "Next limit st =
     (if limit = 0 then (Answered (Err kInvalidArgument ''limit must be positive''), st)
      else case CollectNext [] limit st of
        (Settled r, fragments, st) \<Rightarrow> (Answered (r_then r (Ok fragments)), st)
      | (MustWait waiter, fragments, st) \<Rightarrow> (Waiting fragments waiter, st))"

datatype wait_outcome = Fired | WaitCancelled | WaitDeadline

definition WaitForChange :: "wait_outcome \<Rightarrow> unit result" where
  "WaitForChange outcome =
     (case outcome of
        Fired \<Rightarrow> Ok ()
      | WaitCancelled \<Rightarrow> Err kCancelled ''Chunk store operation was cancelled''
      | WaitDeadline \<Rightarrow> Err kDeadlineExceeded ''Expected seq was not available before the deadline'')"

definition NextTurn :: "wait_outcome \<Rightarrow> NodeFragment option list \<Rightarrow> nat \<Rightarrow> LocalStore \<Rightarrow>
    next_call \<times> LocalStore" where
  "NextTurn outcome fragments limit st =
     (case WaitForChange outcome of
        Inl e \<Rightarrow> (Answered (if fragments \<noteq> [] then Ok fragments else Inl e), st)
      | Inr _ \<Rightarrow>
          (case CollectNext fragments limit st of
             (Settled r, fragments, st) \<Rightarrow> (Answered (r_then r (Ok fragments)), st)
           | (MustWait waiter, fragments, st) \<Rightarrow> (Waiting fragments waiter, st)))"

section \<open>Writes\<close>

text \<open>The loop that validates the batch and finds out which fragments carry a sequence number.\<close>

fun check_batch :: "NodeFragment list \<Rightarrow> bool \<Rightarrow> bool \<Rightarrow> u32 list \<Rightarrow> (bool \<times> bool) result" where
  "check_batch [] any_explicit all_explicit explicit_sequences = Ok (any_explicit, all_explicit)"
| "check_batch (f # fs) any_explicit all_explicit explicit_sequences =
     r_then (FragmentValidate f)
       (case nf_seq f of
          None \<Rightarrow> check_batch fs any_explicit False explicit_sequences
        | Some n \<Rightarrow>
            if n \<in> set explicit_sequences
            then Err kInvalidArgument (''Explicit seq '' @ dec (unat n) @ '' occurs more than once'')
            else check_batch fs True all_explicit (n # explicit_sequences))"

text \<open>The search for the next free sequence number.\<close>

function next_free :: "(u32 \<times> 'v) list \<Rightarrow> nat \<Rightarrow> nat" where
  "next_free cs candidate =
     (if candidate \<le> kUint32Max \<and> map_of cs (word_of_nat candidate) \<noteq> None
      then next_free cs (candidate + 1) else candidate)"
  by pat_completeness auto
termination by (relation "measure (\<lambda>(_, c). Suc kUint32Max - c)") auto

declare next_free.simps [simp del]

fun assign_implicit :: "(u32 \<times> 'v) list \<Rightarrow> nat \<Rightarrow> nat \<Rightarrow> u32 list result" where
  "assign_implicit cs 0 candidate = Ok []"
| "assign_implicit cs (Suc n) candidate =
     (let candidate = next_free cs candidate
      in if candidate > kUint32Max
         then Err kResourceExhausted ''Maximum implicit sequence number exceeded''
         else r_bind (assign_implicit cs n (candidate + 1)) (\<lambda>rest. Ok (word_of_nat candidate # rest)))"

fun find_existing :: "(u32 \<times> 'v) list \<Rightarrow> u32 list \<Rightarrow> unit result" where
  "find_existing cs [] = Ok ()"
| "find_existing cs (n # ns) =
     (if map_of cs n \<noteq> None
      then Err kAlreadyExists (''A fragment with seq '' @ dec (unat n) @ '' already exists'')
      else find_existing cs ns)"

fun batch_final :: "bool \<Rightarrow> (NodeFragment \<times> u32) list \<Rightarrow> u32 option \<Rightarrow> u32 option result" where
  "batch_final all_explicit [] seen = Ok seen"
| "batch_final all_explicit ((f, n) # rest) seen =
     (if nf_continued f then
        (if seen \<noteq> None \<and> \<not> all_explicit
         then Err kInvalidArgument ''The final implicit fragment must be last''
         else batch_final all_explicit rest seen)
      else if seen \<noteq> None
      then Err kInvalidArgument ''More than one fragment in the batch is marked final''
      else batch_final all_explicit rest (Some n))"

definition check_final :: "u32 option \<Rightarrow> u32 list \<Rightarrow> (u32 \<times> 'v) list \<Rightarrow> unit result" where
  "check_final pending_final assigned cs =
     (case pending_final of
        None \<Rightarrow> Ok ()
      | Some f \<Rightarrow>
          if \<exists>n\<in>set assigned. n > f
          then Err kInvalidArgument ''A fragment sequence exceeds the final sequence''
          else if \<exists>e\<in>set cs. fst e > f
          then Err kInvalidArgument ''An existing fragment exceeds the proposed final sequence''
          else Ok ())"

text \<open>\<open>emplace\<close> and \<open>merge\<close> of a hash map keep the entries that are there.\<close>

definition emplace :: "'k \<Rightarrow> 'v \<Rightarrow> ('k \<times> 'v) list \<Rightarrow> ('k \<times> 'v) list" where
  "emplace k v m = (if map_of m k = None then m @ [(k, v)] else m)"

definition merge_map :: "('k \<times> 'v) list \<Rightarrow> ('k \<times> 'v) list \<Rightarrow> ('k \<times> 'v) list" where
  "merge_map m nodes = fold (\<lambda>(k, v). emplace k v) nodes m"

text \<open>Staging the batch and publishing it.\<close>

definition commit :: "NodeFragment list \<Rightarrow> u32 list \<Rightarrow> u32 option \<Rightarrow> LocalStore \<Rightarrow> LocalStore" where
  "commit fragments assigned pending_final st =
     (let arrivals = map (\<lambda>i. total_chunks_put st + i) [0..<length fragments];
          chunk_nodes = merge_map [] (zip assigned (map nf_data fragments));
          arrival_nodes = merge_map [] (zip arrivals assigned);
          reverse_nodes = merge_map [] (zip assigned arrivals)
      in st\<lparr>chunks := merge_map (chunks st) chunk_nodes,
            arrival_order_to_seq := merge_map (arrival_order_to_seq st) arrival_nodes,
            seq_to_arrival_order := merge_map (seq_to_arrival_order st) reverse_nodes,
            total_chunks_put := total_chunks_put st + length fragments,
            final_seq := pending_final,
            changed := changed st + 1\<rparr>)"

text \<open>The checks under the mutex, up to the sequence numbers and the final one of the batch.\<close>

definition plan_put :: "NodeFragment list \<Rightarrow> bool \<Rightarrow> LocalStore \<Rightarrow> (u32 list \<times> u32 option) result" where
  "plan_put fragments all_explicit st =
     r_bind (if all_explicit then Ok (map (the \<circ> nf_seq) fragments)
             else assign_implicit (chunks st) (length fragments) (total_chunks_put st)) (\<lambda>assigned.
     r_then (find_existing (chunks st) assigned)
     (r_bind (batch_final all_explicit (zip fragments assigned) None) (\<lambda>final.
     r_then (r_guard (final \<noteq> None \<and> final_seq st \<noteq> None \<and> final \<noteq> final_seq st) kFailedPrecondition
               ''The chunk store already has a different final sequence'')
       (let pending_final = (if final \<noteq> None then final else final_seq st)
        in r_then (check_final pending_final assigned (chunks st)) (Ok (assigned, pending_final))))))"

definition PutMany :: "NodeFragment list \<Rightarrow> LocalStore \<Rightarrow> u32 list result \<times> LocalStore \<times> completion list" where
  "PutMany fragments st =
     (case check_batch fragments False True [] of
        Inl e \<Rightarrow> (Inl e, st, [])
      | Inr (any_explicit, all_explicit) \<Rightarrow>
          if any_explicit \<noteq> all_explicit
          then (Err kInvalidArgument ''Sequence numbers must be set on every fragment or none'', st, [])
          else if write_status st \<noteq> None
          then (Err kFailedPrecondition (''Chunk store '' @ node_id st @ '' is closed for writes''), st, [])
          else if fragments = [] then (Ok [], st, [])
          else case plan_put fragments all_explicit st of
            Inl e \<Rightarrow> (Inl e, st, [])
          | Inr (assigned, pending_final) \<Rightarrow>
              let (st, completions) = CollectReadsLocked (commit fragments assigned pending_final st)
              in (Ok assigned, st, completions))"

definition PutOneViaPutMany :: "('s \<Rightarrow> u32 list result \<times> 's \<times> 'c) \<Rightarrow> string \<Rightarrow> 's \<Rightarrow> u32 result \<times> 's \<times> 'c" where
  "PutOneViaPutMany put_many backend_name st =
     (let (seqs, st, completions) = put_many st
      in (case seqs of
            Inl e \<Rightarrow> Inl e
          | Inr ns \<Rightarrow>
              if length ns \<noteq> 1
              then Err kDataLoss (backend_name @ '' PutMany did not return exactly one sequence'')
              else Ok (hd ns), st, completions))"

definition Put :: "NodeFragment \<Rightarrow> LocalStore \<Rightarrow> u32 result \<times> LocalStore \<times> completion list" where
  "Put fragment = PutOneViaPutMany (PutMany [fragment]) ''LocalChunkStore''"

section \<open>Other operations\<close>

definition tombstone :: "Chunk \<Rightarrow> Chunk" where
  "tombstone c = c\<lparr>ch_data := [], ch_ref := ''__tombstone__''\<rparr>"

definition ClearData :: "u32 \<Rightarrow> LocalStore \<Rightarrow> NodeFragment result \<times> LocalStore" where
  "ClearData n st =
     (case map_of (chunks st) n of
        None \<Rightarrow> (Err kNotFound (''No fragment with seq '' @ dec (unat n) @ '' exists''), st)
      | Some (FNodeRef _) \<Rightarrow> (Err kUnimplemented ''Clearing a reference fragment is unsupported'', st)
      | Some (FChunk original) \<Rightarrow>
          (Ok (stored_fragment st n (FChunk original)),
           st\<lparr>chunks := AList.update n (FChunk (tombstone original)) (chunks st)\<rparr>))"

definition GetSeqForArrivalOrder :: "nat \<Rightarrow> LocalStore \<Rightarrow> u32 result" where
  "GetSeqForArrivalOrder arrival_order st =
     (case map_of (arrival_order_to_seq st) arrival_order of
        None \<Rightarrow> Err kNotFound (''No fragment has arrival order '' @ dec arrival_order)
      | Some n \<Rightarrow> Ok n)"

definition GetFinalSeq :: "LocalStore \<Rightarrow> u32 option" where
  "GetFinalSeq st = final_seq st"

definition CloseWritesWithStatus :: "status \<Rightarrow> bool \<Rightarrow> LocalStore \<Rightarrow> status result \<times> LocalStore \<times> completion list" where
  "CloseWritesWithStatus s return_status_if_already_closed st =
     (case write_status st of
        Some previous \<Rightarrow>
          ((if return_status_if_already_closed then Ok previous
            else Err kFailedPrecondition ''Chunk store is already closed for writes''), st, [])
      | None \<Rightarrow>
          let (st, completions) = CollectReadsLocked (st\<lparr>write_status := Some s, changed := changed st + 1\<rparr>)
          in (Ok s, st, completions))"

definition GetWriteStatus :: "LocalStore \<Rightarrow> status option" where
  "GetWriteStatus st = write_status st"

definition Size :: "LocalStore \<Rightarrow> nat" where
  "Size st = length (chunks st)"

definition GetId :: "LocalStore \<Rightarrow> string" where
  "GetId st = node_id st"

end
