(* ===== verification/Chunk_Store_Laws.thy ===== *)
theory Chunk_Store_Laws
  imports Chunk_Store
begin

text \<open>
  The chunk store as an append-only log: the invariant that ties its three indexes to one list of
  stored fragments in arrival order, that every operation keeps it, and what each operation does to
  the list.  The interface other components rely on is the locale \<open>chunk_log\<close>, interpreted on the
  operations of \<open>LocalChunkStore\<close>.
\<close>

section \<open>Maps\<close>

lemma merge_map_append:
  assumes "distinct (map fst (m @ nodes))"
  shows "merge_map m nodes = m @ nodes"
  using assms
proof (induction nodes arbitrary: m)
  case (Cons e nodes)
  obtain k v where e: "e = (k, v)" by (cases e)
  have "map_of m k = None" using Cons.prems by (auto simp: e map_of_eq_None_iff)
  then have "emplace k v m = m @ [e]" by (simp add: emplace_def e)
  then have "merge_map m (e # nodes) = merge_map (m @ [e]) nodes" by (simp add: merge_map_def e)
  also have "\<dots> = m @ e # nodes" using Cons.IH [of "m @ [e]"] Cons.prems by simp
  finally show ?case .
qed (simp add: merge_map_def)

lemma map_of_zip_upt:
  assumes "length xs = n"
  shows "map_of (zip [k..<k + n] xs) a = (if k \<le> a \<and> a < k + n then Some (xs ! (a - k)) else None)"
  using assms
proof (induction xs arbitrary: n k)
  case (Cons x xs)
  then obtain m where n: "n = Suc m" "length xs = m" by (cases n) auto
  have "[k..<k + n] = k # [Suc k..<Suc k + m]" by (simp add: n upt_conv_Cons)
  then show ?case using Cons.IH [of m "Suc k"] n by (auto simp: nth_Cons')
qed simp

section \<open>The invariant\<close>

abbreviation keys :: "LocalStore \<Rightarrow> u32 list" where
  "keys st \<equiv> map fst (chunks st)"

definition store_inv :: "LocalStore \<Rightarrow> bool" where
  "store_inv st \<longleftrightarrow>
     distinct (keys st) \<and>
     total_chunks_put st = length (chunks st) \<and>
     arrival_order_to_seq st = zip [0..<length (chunks st)] (keys st) \<and>
     seq_to_arrival_order st = zip (keys st) [0..<length (chunks st)] \<and>
     (\<forall>f. final_seq st = Some f \<longrightarrow> (\<forall>n\<in>set (keys st). n \<le> f)) \<and>
     total_chunks_read st \<le> Suc kUint32Max \<and>
     (\<forall>i<total_chunks_read st. word_of_nat i \<in> set (keys st))"

lemma store_inv_Create: "Create name = Ok st \<Longrightarrow> store_inv st"
  by (auto simp: Create_def store_inv_def ok_iff)

text \<open>There are at most 2^32 fragments, so the 64-bit counters do not wrap.\<close>

lemma card_u32: "card (UNIV :: u32 set) = 2 ^ 32"
  by (simp add: card_word)

lemma store_bound:
  assumes "store_inv st"
  shows "total_chunks_put st \<le> 2 ^ 32"
proof -
  have "length (keys st) = card (set (keys st))" using assms distinct_card [of "keys st"] by (simp add: store_inv_def)
  also have "\<dots> \<le> card (UNIV :: u32 set)" by (rule card_mono) simp_all
  finally show ?thesis using assms by (simp add: store_inv_def card_u32)
qed

lemma arrival_lookup:
  assumes "store_inv st"
  shows "map_of (arrival_order_to_seq st) a = (if a < length (chunks st) then Some (fst (chunks st ! a)) else None)"
  using assms map_of_zip_upt [of "keys st" "length (chunks st)" 0 a] by (simp add: store_inv_def)

lemma map_of_keys: "map_of m k \<noteq> None \<longleftrightarrow> k \<in> set (map fst m)"
  by (auto simp: map_of_eq_None_iff)

lemma arrival_present:
  assumes "store_inv st" and "map_of (arrival_order_to_seq st) a = Some n"
  shows "\<exists>d. map_of (chunks st) n = Some d \<and> chunks st ! a = (n, d) \<and> a < length (chunks st)"
proof -
  have a: "a < length (chunks st)" "n = fst (chunks st ! a)"
    using assms by (auto simp: arrival_lookup split: if_splits)
  obtain d where "chunks st ! a = (n, d)" using a(2) by (cases "chunks st ! a") simp
  moreover have "(n, d) \<in> set (chunks st)" using a(1) calculation nth_mem by metis
  ultimately show ?thesis using assms(1) a(1) by (auto simp: store_inv_def)
qed

section \<open>Planning a batch\<close>

lemma check_batch_ok:
  "check_batch fs any all seen = Ok (a, b) \<Longrightarrow>
     (\<forall>f\<in>set fs. FragmentValidate f = Ok ()) \<and>
     b = (all \<and> (\<forall>f\<in>set fs. nf_seq f \<noteq> None)) \<and> a = (any \<or> (\<exists>f\<in>set fs. nf_seq f \<noteq> None)) \<and>
     (b \<longrightarrow> distinct (map (the \<circ> nf_seq) fs) \<and> set (map (the \<circ> nf_seq) fs) \<inter> set seen = {})"
proof (induction fs any all seen rule: check_batch.induct)
  case (2 f fs any all seen)
  then show ?case by (cases "nf_seq f") (auto simp: ok_iff split: if_splits)
qed simp

lemma next_free_ge: "c \<le> next_free cs c"
  by (induction cs c rule: next_free.induct) (subst next_free.simps, auto)

lemma next_free_free: "next_free cs c \<le> kUint32Max \<Longrightarrow> map_of cs (word_of_nat (next_free cs c)) = None"
  by (induction cs c rule: next_free.induct) (subst next_free.simps, subst (asm) (2) next_free.simps, auto split: if_splits)

lemma next_free_skips: "c \<le> i \<Longrightarrow> i < next_free cs c \<Longrightarrow> map_of cs (word_of_nat i) \<noteq> None"
proof (induction cs c rule: next_free.induct)
  case (1 cs c)
  then show ?case using next_free.simps [of cs c] by (cases "i = c") (auto split: if_splits)
qed

lemma assign_implicit_ok:
  assumes "assign_implicit cs n c = Ok ns"
  shows "length ns = n \<and> sorted_wrt (<) (map unat ns) \<and> (\<forall>s\<in>set ns. c \<le> unat s \<and> map_of cs s = None)"
  using assms
proof (induction n arbitrary: c ns)
  case (Suc n)
  let ?c = "next_free cs c"
  obtain rest where c: "?c \<le> kUint32Max" and rest: "assign_implicit cs n (?c + 1) = Ok rest" "ns = word_of_nat ?c # rest"
    using Suc.prems by (auto simp: Let_def ok_iff split: if_splits)
  have val: "unat (word_of_nat ?c :: u32) = ?c"
    using c by (simp add: kUint32Max_def unat_of_nat32)
  show ?case
    using Suc.IH [OF rest(1)] next_free_ge [of c cs] next_free_free [OF c] val unfolding rest(2)
    by (auto simp: Suc_le_eq dest: order_trans less_imp_le)
qed simp

lemma find_existing_ok: "find_existing cs ns = Ok u \<longleftrightarrow> (\<forall>n\<in>set ns. map_of cs n = None)"
  by (induction ns) (auto simp: ok_iff)

lemma check_final_ok:
  "check_final pf ns cs = Ok u \<longleftrightarrow> (\<forall>f. pf = Some f \<longrightarrow> (\<forall>n\<in>set ns. n \<le> f) \<and> (\<forall>e\<in>set cs. fst e \<le> f))"
  by (cases pf) (auto simp: check_final_def simp flip: not_le)

lemma plan_put_ok:
  assumes "plan_put fs all_explicit st = Ok (ns, pf)"
    and "all_explicit \<Longrightarrow> distinct (map (the \<circ> nf_seq) fs)"
  shows "length ns = length fs" and "distinct ns" and "\<forall>n\<in>set ns. map_of (chunks st) n = None"
    and "\<forall>f. pf = Some f \<longrightarrow> (\<forall>n\<in>set ns. n \<le> f) \<and> (\<forall>e\<in>set (chunks st). fst e \<le> f)"
    and "final_seq st \<noteq> None \<Longrightarrow> pf = final_seq st"
    and "all_explicit \<Longrightarrow> ns = map (the \<circ> nf_seq) fs"
proof -
  have assigned: "(if all_explicit then Ok (map (the \<circ> nf_seq) fs)
      else assign_implicit (chunks st) (length fs) (total_chunks_put st)) = Ok ns"
    and existing: "find_existing (chunks st) ns = Ok ()" and final: "check_final pf ns (chunks st) = Ok ()"
    and kept: "final_seq st \<noteq> None \<longrightarrow> pf = final_seq st"
    using assms(1) by (auto simp: plan_put_def ok_iff Let_def split: if_splits)
  show "\<forall>n\<in>set ns. map_of (chunks st) n = None" using existing by (simp add: find_existing_ok)
  show "\<forall>f. pf = Some f \<longrightarrow> (\<forall>n\<in>set ns. n \<le> f) \<and> (\<forall>e\<in>set (chunks st). fst e \<le> f)"
    using final by (simp add: check_final_ok)
  show "final_seq st \<noteq> None \<Longrightarrow> pf = final_seq st" using kept by simp
  show "all_explicit \<Longrightarrow> ns = map (the \<circ> nf_seq) fs" using assigned by simp
  have implicit: "\<not> all_explicit \<Longrightarrow> length ns = length fs \<and> sorted_wrt (<) (map unat ns)"
    using assigned assign_implicit_ok by simp blast
  show "length ns = length fs" using assigned implicit by (cases all_explicit) auto
  show "distinct ns"
  proof (cases all_explicit)
    case False
    then have "distinct (map unat ns)" using implicit strict_sorted_iff by blast
    then show ?thesis by (simp add: distinct_map)
  qed (use assigned assms(2) in simp)
qed

section \<open>Operations on the log\<close>

lemma commit_log:
  assumes inv: "store_inv st" and len: "length ns = length fs" and ns: "distinct ns"
    and fresh: "\<forall>n\<in>set ns. map_of (chunks st) n = None"
  shows "chunks (commit fs ns pf st) = chunks st @ zip ns (map nf_data fs)"
    and "arrival_order_to_seq (commit fs ns pf st) = zip [0..<length (chunks st) + length fs] (keys st @ ns)"
    and "seq_to_arrival_order (commit fs ns pf st) = zip (keys st @ ns) [0..<length (chunks st) + length fs]"
proof -
  let ?t = "total_chunks_put st"
  have t: "?t = length (chunks st)" using inv by (simp add: store_inv_def)
  have arr: "map (\<lambda>i. ?t + i) [0..<length fs] = [?t..<?t + length fs]"
    using map_add_upt [of ?t "length fs"] by (simp add: add.commute)
  have disj: "set (keys st) \<inter> set ns = {}" using fresh by (auto simp: map_of_eq_None_iff)
  have upt: "[0..<length (chunks st) + length fs] = [0..<length (chunks st)] @ [?t..<?t + length fs]"
    using upt_add_eq_append [of 0 ?t "length fs"] by (simp add: t)
  have nodes: "merge_map [] (zip ns (map nf_data fs)) = zip ns (map nf_data fs)"
    "merge_map [] (zip [?t..<?t + length fs] ns) = zip [?t..<?t + length fs] ns"
    "merge_map [] (zip ns [?t..<?t + length fs]) = zip ns [?t..<?t + length fs]"
    using len ns by (simp_all add: merge_map_append)
  show "chunks (commit fs ns pf st) = chunks st @ zip ns (map nf_data fs)"
    using inv len ns disj
    by (simp add: commit_def Let_def nodes arr) (intro merge_map_append, simp add: store_inv_def)
  show "arrival_order_to_seq (commit fs ns pf st) = zip [0..<length (chunks st) + length fs] (keys st @ ns)"
    using inv len upt by (simp add: commit_def Let_def nodes arr) (subst merge_map_append, auto simp: store_inv_def)
  show "seq_to_arrival_order (commit fs ns pf st) = zip (keys st @ ns) [0..<length (chunks st) + length fs]"
    using inv len upt ns disj by (simp add: commit_def Let_def nodes arr) (subst merge_map_append, auto simp: store_inv_def)
qed

lemma commit_inv:
  assumes inv: "store_inv st" and len: "length ns = length fs" and ns: "distinct ns"
    and fresh: "\<forall>n\<in>set ns. map_of (chunks st) n = None"
    and final: "\<forall>f. pf = Some f \<longrightarrow> (\<forall>n\<in>set ns. n \<le> f) \<and> (\<forall>e\<in>set (chunks st). fst e \<le> f)"
  shows "store_inv (commit fs ns pf st)"
proof -
  note log = commit_log [OF inv len ns fresh]
  have keys: "keys (commit fs ns pf st) = keys st @ ns" using len by (simp add: log)
  have disj: "set (keys st) \<inter> set ns = {}" using fresh by (auto simp: map_of_eq_None_iff)
  show ?thesis
    unfolding store_inv_def keys
    using inv len ns disj final
    by (auto simp: log store_inv_def) (auto simp: commit_def Let_def)
qed

lemma CollectReadsLocked_same:
  "CollectReadsLocked st = (st', cs) \<Longrightarrow> \<exists>ps. st' = st\<lparr>pending_reads := ps\<rparr>"
  by (auto simp: CollectReadsLocked_def split: prod.splits)

lemma store_inv_pending [simp]: "store_inv (st\<lparr>pending_reads := ps\<rparr>) = store_inv st"
  "store_inv (st\<lparr>write_status := s\<rparr>) = store_inv st" "store_inv (st\<lparr>changed := g\<rparr>) = store_inv st"
  by (simp_all add: store_inv_def)

text \<open>What a batch does: nothing at all when it is refused, and on success it appends its fragments
  to the log under fresh, distinct sequence numbers.\<close>

lemma PutMany_error: "PutMany fs st = (Inl e, st', cs) \<Longrightarrow> st' = st \<and> cs = []"
  by (auto simp: PutMany_def Let_def split: sum.splits prod.splits if_splits)

lemma PutMany_ok_cases:
  assumes "PutMany fs st = (Ok ns, st', cs)"
  obtains "fs = []" "ns = []" "st' = st" "cs = []" "write_status st = None"
  | pf where "fs \<noteq> []" "write_status st = None" "length ns = length fs" "distinct ns"
      "\<forall>n\<in>set ns. map_of (chunks st) n = None"
      "\<forall>f. pf = Some f \<longrightarrow> (\<forall>n\<in>set ns. n \<le> f) \<and> (\<forall>e\<in>set (chunks st). fst e \<le> f)"
      "final_seq st \<noteq> None \<Longrightarrow> pf = final_seq st"
      "CollectReadsLocked (commit fs ns pf st) = (st', cs)"
proof -
  obtain a b where batch: "check_batch fs False True [] = Ok (a, b)" and eq: "a = b" and status: "write_status st = None"
    using assms by (cases "write_status st") (auto simp: PutMany_def split: sum.splits prod.splits if_splits)
  note facts = check_batch_ok [OF batch]
  show ?thesis
  proof (cases "fs = []")
    case True
    then show ?thesis using that(1) assms batch status eq by (simp add: PutMany_def)
  next
    case False
    then obtain pf where plan: "plan_put fs b st = Ok (ns, pf)" and collect: "CollectReadsLocked (commit fs ns pf st) = (st', cs)"
      using assms batch eq status by (auto simp: PutMany_def split: sum.splits prod.splits)
    have "b \<Longrightarrow> distinct (map (the \<circ> nf_seq) fs)" using facts by simp
    note put = plan_put_ok [OF plan this]
    show ?thesis by (rule that(2)) (use False status put collect in simp_all)
  qed
qed

lemma PutMany_effect:
  assumes inv: "store_inv st" and put: "PutMany fs st = (Ok ns, st', cs)"
  shows "chunks st' = chunks st @ zip ns (map nf_data fs) \<and> length ns = length fs \<and> distinct ns \<and>
    (\<forall>n\<in>set ns. map_of (chunks st) n = None) \<and> store_inv st' \<and> write_status st = None \<and> write_status st' = None \<and>
    node_id st' = node_id st \<and> total_chunks_read st' = total_chunks_read st \<and>
    (final_seq st \<noteq> None \<longrightarrow> final_seq st' = final_seq st)"
  using put
proof (cases rule: PutMany_ok_cases)
  case 1
  then show ?thesis using inv by simp
next
  case (2 pf)
  obtain ps where st': "st' = (commit fs ns pf st)\<lparr>pending_reads := ps\<rparr>"
    using CollectReadsLocked_same [OF 2(8)] by blast
  show ?thesis
    using 2 inv commit_log(1) [OF inv 2(3,4,5), of pf] commit_inv [OF inv 2(3,4,5,6)] unfolding st'
    by simp (simp add: commit_def Let_def)
qed

lemma PutMany_log:
  assumes "store_inv st" and "PutMany fs st = (Ok ns, st', cs)"
  shows "chunks st' = chunks st @ zip ns (map nf_data fs)" and "length ns = length fs" and "distinct ns"
    and "\<forall>n\<in>set ns. map_of (chunks st) n = None" and "store_inv st'"
    and "write_status st = None" and "write_status st' = None" and "node_id st' = node_id st"
    and "total_chunks_read st' = total_chunks_read st"
    and "final_seq st \<noteq> None \<Longrightarrow> final_seq st' = final_seq st"
  using PutMany_effect [OF assms] by simp_all

lemma CloseWritesWithStatus_log:
  assumes "CloseWritesWithStatus s flag st = (r, st', cs)"
  shows "chunks st' = chunks st" and "store_inv st \<Longrightarrow> store_inv st'" and "node_id st' = node_id st"
    and "final_seq st' = final_seq st" and "total_chunks_read st' = total_chunks_read st"
    and "write_status st' = (case write_status st of None \<Rightarrow> Some s | Some p \<Rightarrow> Some p)"
  using assms
  by (auto simp: CloseWritesWithStatus_def CollectReadsLocked_def Let_def split: option.splits prod.splits)

lemma keys_update: "n \<in> set (map fst m) \<Longrightarrow> map fst (AList.update n v m) = map fst m"
  by (induction m) auto

lemma ClearData_log:
  assumes inv: "store_inv st" and clear: "ClearData n st = (r, st')"
  shows "store_inv st'" and "keys st' = keys st"
    and "map_of (chunks st') k = (if k = n then map_option (\<lambda>d. case d of FChunk c \<Rightarrow> FChunk (tombstone c) | FNodeRef x \<Rightarrow> FNodeRef x)
      (map_of (chunks st) n) else map_of (chunks st) k)"
proof -
  show keys: "keys st' = keys st"
  proof (cases "map_of (chunks st) n")
    case (Some d)
    then have "n \<in> set (keys st)" using map_of_keys [of "chunks st" n] by simp
    then have "map fst (AList.update n v (chunks st)) = keys st" for v by (rule keys_update)
    with clear Some show ?thesis by (auto simp: ClearData_def split: fragment_data.splits)
  qed (use clear in \<open>simp add: ClearData_def\<close>)
  then have len: "length (chunks st') = length (chunks st)" by (metis length_map)
  show "store_inv st'"
    using inv clear unfolding store_inv_def keys len
    by (auto simp: ClearData_def split: option.splits fragment_data.splits)
  show "map_of (chunks st') k = (if k = n then map_option (\<lambda>d. case d of FChunk c \<Rightarrow> FChunk (tombstone c) | FNodeRef x \<Rightarrow> FNodeRef x)
      (map_of (chunks st) n) else map_of (chunks st) k)"
    using clear by (auto simp: ClearData_def update_conv' split: option.splits fragment_data.splits)
qed

section \<open>The shared cursor\<close>

text \<open>The stored fragments with sequence numbers from \<open>a\<close> up to \<open>b\<close>.\<close>

definition run_of :: "LocalStore \<Rightarrow> nat \<Rightarrow> nat \<Rightarrow> NodeFragment list" where
  "run_of st a b = map (\<lambda>i. stored_fragment st (word_of_nat i) (the (map_of (chunks st) (word_of_nat i)))) [a..<b]"

lemma run_of_cursor [simp]: "run_of (st\<lparr>total_chunks_read := k\<rparr>) a b = run_of st a b"
  by (simp add: run_of_def stored_fragment_def)

lemma run_of_Cons: "a < b \<Longrightarrow> run_of st a b =
    stored_fragment st (word_of_nat a) (the (map_of (chunks st) (word_of_nat a))) # run_of st (Suc a) b"
  by (simp add: run_of_def upt_conv_Cons)

lemma run_of_append: "a \<le> b \<Longrightarrow> b \<le> c \<Longrightarrow> run_of st a b @ run_of st b c = run_of st a c"
  using upt_add_eq_append [of a b "c - b"] by (simp add: run_of_def flip: map_append)

definition final_read :: "LocalStore \<Rightarrow> bool" where
  "final_read st \<longleftrightarrow> (case final_seq st of None \<Rightarrow> False | Some f \<Rightarrow> total_chunks_read st > unat f)"

definition next_missing :: "LocalStore \<Rightarrow> bool" where
  "next_missing st \<longleftrightarrow> map_of (chunks st) (word_of_nat (total_chunks_read st)) = None"

text \<open>A reader of the cursor has nothing to take and nothing to be told: it has to wait.\<close>

definition must_wait :: "LocalStore \<Rightarrow> bool" where
  "must_wait st \<longleftrightarrow>
     total_chunks_read st \<le> kUint32Max \<and> \<not> final_read st \<and> next_missing st \<and> write_status st = None"

text \<open>The stream has ended cleanly at the cursor.\<close>

definition at_end :: "LocalStore \<Rightarrow> bool" where
  "at_end st \<longleftrightarrow>
     total_chunks_read st > kUint32Max \<or>
     (final_read st \<or> next_missing st \<and> write_status st \<noteq> None) \<and>
     (case write_status st of None \<Rightarrow> True | Some s \<Rightarrow> status_ok s)"

definition failed_at :: "LocalStore \<Rightarrow> status \<Rightarrow> bool" where
  "failed_at st s \<longleftrightarrow>
     total_chunks_read st \<le> kUint32Max \<and> write_status st = Some s \<and> \<not> status_ok s \<and> (final_read st \<or> next_missing st)"

text \<open>How one collection ends.\<close>

fun next_outcome :: "collected \<Rightarrow> nat \<Rightarrow> NodeFragment option list \<Rightarrow> LocalStore \<Rightarrow> NodeFragment option list \<Rightarrow> bool" where
  "next_outcome (MustWait g) limit fs st tail \<longleftrightarrow> tail = [] \<and> g = changed st \<and> must_wait st \<and> length fs \<noteq> limit"
| "next_outcome (Settled (Inl e)) limit fs st tail \<longleftrightarrow> tail = [] \<and> fs = [] \<and> failed_at st e"
| "next_outcome (Settled (Inr _)) limit fs st tail \<longleftrightarrow>
     tail = [None] \<and> at_end st \<or> tail = [] \<and> (length fs = limit \<or> fs \<noteq> [] \<and> (\<exists>e. failed_at st e))"

lemma CollectNext_stop:
  assumes "total_chunks_read st > kUint32Max \<or> final_read st \<or> next_missing st \<or> length fs = limit"
  shows "\<exists>r tail. CollectNext fs limit st = (r, fs @ tail, st) \<and> next_outcome r limit fs st tail"
  using assms
  by (subst CollectNext.simps)
    (auto simp: Let_def at_end_def failed_at_def must_wait_def final_read_def next_missing_def
      split: option.splits if_splits)

lemma CollectNext_go:
  assumes "total_chunks_read st \<le> kUint32Max" and "\<not> final_read st" and "\<not> next_missing st" and "length fs \<noteq> limit"
  shows "CollectNext fs limit st =
    CollectNext (fs @ [Some (stored_fragment st (word_of_nat (total_chunks_read st))
        (the (map_of (chunks st) (word_of_nat (total_chunks_read st)))))]) limit
      (st\<lparr>total_chunks_read := total_chunks_read st + 1\<rparr>)"
  using assms by (subst CollectNext.simps) (auto simp: Let_def final_read_def next_missing_def split: option.splits)

text \<open>
  One collection moves the cursor from \<open>a\<close> to \<open>b\<close> over stored sequence numbers, appends exactly the
  fragments between, and changes nothing else.
\<close>

lemma CollectNext_run:
  "\<exists>r b tail. CollectNext fs limit st =
      (r, fs @ map Some (run_of st (total_chunks_read st) b) @ tail, st\<lparr>total_chunks_read := b\<rparr>) \<and>
    total_chunks_read st \<le> b \<and>
    (\<forall>i. total_chunks_read st \<le> i \<and> i < b \<longrightarrow> i \<le> kUint32Max \<and> map_of (chunks st) (word_of_nat i) \<noteq> None) \<and>
    (length fs \<le> limit \<longrightarrow> length fs + (b - total_chunks_read st) \<le> limit) \<and>
    next_outcome r limit (fs @ map Some (run_of st (total_chunks_read st) b)) (st\<lparr>total_chunks_read := b\<rparr>) tail"
proof (induction "Suc kUint32Max - total_chunks_read st" arbitrary: fs st rule: less_induct)
  case less
  let ?a = "total_chunks_read st"
  show ?case
  proof (cases "?a > kUint32Max \<or> final_read st \<or> next_missing st \<or> length fs = limit")
    case True
    then obtain r tail where "CollectNext fs limit st = (r, fs @ tail, st)" "next_outcome r limit fs st tail"
      using CollectNext_stop by blast
    then show ?thesis by (intro exI [of _ r] exI [of _ ?a] exI [of _ tail]) (auto simp: run_of_def)
  next
    case False
    let ?f = "stored_fragment st (word_of_nat ?a) (the (map_of (chunks st) (word_of_nat ?a)))"
    let ?st = "st\<lparr>total_chunks_read := ?a + 1\<rparr>"
    have go: "CollectNext fs limit st = CollectNext (fs @ [Some ?f]) limit ?st"
      using False by (intro CollectNext_go) auto
    have "?a \<le> kUint32Max" using False by auto
    then have "Suc kUint32Max - total_chunks_read ?st < Suc kUint32Max - ?a" by (simp add: Suc_diff_le)
    then obtain r b tail where ih: "CollectNext (fs @ [Some ?f]) limit ?st =
        (r, (fs @ [Some ?f]) @ map Some (run_of ?st (?a + 1) b) @ tail, ?st\<lparr>total_chunks_read := b\<rparr>)" "?a + 1 \<le> b"
      "\<forall>i. ?a + 1 \<le> i \<and> i < b \<longrightarrow> i \<le> kUint32Max \<and> map_of (chunks st) (word_of_nat i) \<noteq> None"
      "length (fs @ [Some ?f]) \<le> limit \<longrightarrow> length (fs @ [Some ?f]) + (b - (?a + 1)) \<le> limit"
      "next_outcome r limit ((fs @ [Some ?f]) @ map Some (run_of ?st (?a + 1) b)) (?st\<lparr>total_chunks_read := b\<rparr>) tail"
      using less.hyps [of ?st "fs @ [Some ?f]"] by auto
    have run: "run_of st ?a b = ?f # run_of st (?a + 1) b" using ih(2) run_of_Cons [of ?a b st] by simp
    have "i \<le> kUint32Max \<and> map_of (chunks st) (word_of_nat i) \<noteq> None" if "?a \<le> i" "i < b" for i
      using ih(3) that False by (cases "i = ?a") (auto simp: next_missing_def)
    moreover have "length fs + (b - ?a) \<le> limit" if "length fs \<le> limit"
      using ih(2,4) that False by auto
    ultimately show ?thesis using ih(1,2,3,5) unfolding go
      by (intro exI [of _ r] exI [of _ b] exI [of _ tail]) (simp add: run)
  qed
qed

lemma CollectNext_inv:
  assumes "store_inv st" and "CollectNext fs limit st = (r, fs', st')"
  shows "store_inv st'"
proof -
  obtain b where st': "st' = st\<lparr>total_chunks_read := b\<rparr>"
    and present: "\<forall>i. total_chunks_read st \<le> i \<and> i < b \<longrightarrow> i \<le> kUint32Max \<and> map_of (chunks st) (word_of_nat i) \<noteq> None"
    and le: "total_chunks_read st \<le> b"
    using CollectNext_run [of fs limit st] assms(2) by auto
  have "word_of_nat i \<in> set (keys st)" if "i < b" for i
    using that assms(1) present map_of_keys [of "chunks st"] by (cases "i < total_chunks_read st") (auto simp: store_inv_def)
  moreover have "b \<le> Suc kUint32Max"
    using present assms(1) le by (cases "b = total_chunks_read st") (auto simp: store_inv_def dest: spec [of _ "b - 1"])
  ultimately show ?thesis using assms(1) unfolding st' by (simp add: store_inv_def)
qed

section \<open>The interface: an append-only log\<close>

text \<open>A sequence of batches, each accepted or refused, and what the accepted ones store.\<close>

fun put_all :: "('b \<Rightarrow> 's \<Rightarrow> 'r result \<times> 's) \<Rightarrow> 'b list \<Rightarrow> 's \<Rightarrow> 'r result list \<times> 's" where
  "put_all put [] st = ([], st)"
| "put_all put (b # bs) st =
     (let (r, st) = put b st; (rs, st) = put_all put bs st in (r # rs, st))"

fun accepted :: "NodeFragment list list \<Rightarrow> u32 list result list \<Rightarrow> (u32 \<times> fragment_data) list" where
  "accepted (fs # batches) (r # rs) =
     (case r of Inl _ \<Rightarrow> [] | Inr ns \<Rightarrow> zip ns (map nf_data fs)) @ accepted batches rs"
| "accepted _ _ = []"

locale chunk_log =
  fixes inv :: "'s \<Rightarrow> bool" and log :: "'s \<Rightarrow> (u32 \<times> fragment_data) list"
    and put_many :: "NodeFragment list \<Rightarrow> 's \<Rightarrow> u32 list result \<times> 's"
  assumes log_distinct: "inv st \<Longrightarrow> distinct (map fst (log st))"
    and put_refused: "put_many fs st = (Inl e, st') \<Longrightarrow> st' = st"
    and put_stored: "inv st \<Longrightarrow> put_many fs st = (Ok ns, st') \<Longrightarrow>
      inv st' \<and> length ns = length fs \<and> log st' = log st @ zip ns (map nf_data fs)"
begin

lemma put_one:
  assumes "inv st" and "put_many fs st = (r, st')"
  shows "inv st' \<and> log st' = log st @ (case r of Inl _ \<Rightarrow> [] | Inr ns \<Rightarrow> zip ns (map nf_data fs))"
  using assms put_refused [of fs st _ st'] put_stored [of st fs _ st'] by (cases r) auto

lemma put_all_log:
  assumes "inv st" and "put_all put_many batches st = (rs, st')"
  shows "inv st' \<and> log st' = log st @ accepted batches rs"
  using assms
proof (induction batches arbitrary: st rs)
  case (Cons fs batches)
  obtain r st1 rs1 where r: "put_many fs st = (r, st1)" and rest: "put_all put_many batches st1 = (rs1, st')" "rs = r # rs1"
    using Cons.prems(2) by (auto split: prod.splits)
  have one: "inv st1 \<and> log st1 = log st @ (case r of Inl _ \<Rightarrow> [] | Inr ns \<Rightarrow> zip ns (map nf_data fs))"
    using put_one [OF Cons.prems(1) r] .
  then show ?case using Cons.IH [OF _ rest(1)] rest(2) by simp
qed simp

text \<open>Nothing stored is lost or changed by later batches, and no sequence number is used twice.\<close>

lemma put_all_keeps:
  assumes "inv st" and "put_all put_many batches st = (rs, st')"
  shows "map_of (log st) n = Some d \<Longrightarrow> map_of (log st') n = Some d"
    and "distinct (map fst (log st @ accepted batches rs))"
  using put_all_log [OF assms] log_distinct [of st'] by (auto simp: map_add_def)

end

definition put_log :: "NodeFragment list \<Rightarrow> LocalStore \<Rightarrow> u32 list result \<times> LocalStore" where
  "put_log fs st = (let (r, st', completions) = PutMany fs st in (r, st'))"

interpretation local_log: chunk_log store_inv chunks put_log
proof unfold_locales
  fix st :: LocalStore assume "store_inv st"
  then show "distinct (map fst (chunks st))" by (simp add: store_inv_def)
next
  fix fs st e st' assume "put_log fs st = (Inl e, st')"
  then show "st' = st" by (auto simp: put_log_def dest: PutMany_error split: prod.splits)
next
  fix st fs ns st' assume inv: "store_inv st" and "put_log fs st = (Ok ns, st')"
  then obtain cs where put: "PutMany fs st = (Ok ns, st', cs)" by (auto simp: put_log_def split: prod.splits)
  show "store_inv st' \<and> length ns = length fs \<and> chunks st' = chunks st @ zip ns (map nf_data fs)"
    using PutMany_effect [OF inv put] by simp
qed

end
