(* ===== verification/Chunk_Store_System.thy ===== *)
theory Chunk_Store_System
  imports Chunk_Store_Laws
begin

text \<open>
  The chunk store in use: any interleaving of reads, cancellations, timeouts, writes, closes and
  cursor reads as a step relation.  A step is one critical section of the code: an operation under the
  mutex, or the claim of a pending read by its cancellation callback or its deadline timer, which run
  without it.  The system records which promises have been completed, in order, and which calls of
  \<open>Next\<close> are waiting.
\<close>

section \<open>Lookups\<close>

lemma LookupReadLocked_None:
  "LookupReadLocked r st = None \<longleftrightarrow>
     write_status st = None \<and>
     (case rq_kind r of
        kSequence \<Rightarrow> map_of (chunks st) (word_of_nat (rq_value r)) = None
      | kArrivalOrder \<Rightarrow> map_of (arrival_order_to_seq st) (rq_value r) = None)"
  by (auto simp: LookupReadLocked_def Let_def split: ReadKind.splits option.splits)

lemma collect_reads_split:
  assumes "collect_reads st rs = (keep, cs)"
  shows "keep = filter (\<lambda>r. \<not> rq_completed r \<and> LookupReadLocked r st = None) rs"
    and "cs = map (\<lambda>r. (r, the (LookupReadLocked r st))) (filter (\<lambda>r. \<not> rq_completed r \<and> LookupReadLocked r st \<noteq> None) rs)"
  using assms
  by (induction rs arbitrary: keep cs) (auto simp: Let_def split: prod.splits if_splits option.splits)

section \<open>The step relation\<close>

record next_wait =
  nw_fragments :: "NodeFragment option list"
  nw_limit :: nat
  nw_waiter :: nat

record StoreSystem =
  sys_store :: LocalStore
  sys_promises :: "(nat \<times> NodeFragment result) list"
  sys_next_id :: nat
  sys_waiting :: "next_wait list"

definition CompleteReads :: "completion list \<Rightarrow> StoreSystem \<Rightarrow> StoreSystem" where
  "CompleteReads cs sys = sys\<lparr>sys_promises := sys_promises sys @ map (\<lambda>(r, x). (rq_id r, x)) cs\<rparr>"

definition read_cancelled :: status where
  "read_cancelled = (kCancelled, ''Chunk store read was cancelled'')"

definition read_timed_out :: status where
  "read_timed_out = (kDeadlineExceeded, ''Chunk store fragment was not available before the deadline'')"

text \<open>The waiting calls after one call of \<open>Next\<close> or one turn of its loop.\<close>

definition park :: "next_call \<Rightarrow> nat \<Rightarrow> next_wait list \<Rightarrow> next_wait list" where
  "park c limit ws =
     (case c of
        Answered _ \<Rightarrow> ws
      | Waiting fragments waiter \<Rightarrow> ws @ [\<lparr>nw_fragments = fragments, nw_limit = limit, nw_waiter = waiter\<rparr>])"

inductive store_step :: "StoreSystem \<Rightarrow> StoreSystem \<Rightarrow> bool" where
  read: "Read_request \<lparr>rq_id = sys_next_id s, rq_kind = kind, rq_value = v, rq_completed = False\<rparr> (sys_store s) = (st, cs) \<Longrightarrow>
    store_step s (CompleteReads cs (s\<lparr>sys_store := st, sys_next_id := sys_next_id s + 1\<rparr>))"
| give_up: "r \<in> set (pending_reads (sys_store s)) \<Longrightarrow> \<not> rq_completed r \<Longrightarrow> e \<in> {read_cancelled, read_timed_out} \<Longrightarrow>
    store_step s (s\<lparr>sys_store := claim_read (rq_id r) (sys_store s), sys_promises := sys_promises s @ [(rq_id r, Inl e)]\<rparr>)"
| remove: "\<forall>r\<in>set (pending_reads (sys_store s)). rq_id r = i \<longrightarrow> rq_completed r \<Longrightarrow>
    store_step s (s\<lparr>sys_store := RemoveRead i (sys_store s)\<rparr>)"
| put: "PutMany fs (sys_store s) = (x, st, cs) \<Longrightarrow>
    store_step s (CompleteReads cs (s\<lparr>sys_store := st\<rparr>))"
| close: "CloseWritesWithStatus e flag (sys_store s) = (x, st, cs) \<Longrightarrow>
    store_step s (CompleteReads cs (s\<lparr>sys_store := st\<rparr>))"
| clear: "ClearData n (sys_store s) = (x, st) \<Longrightarrow> store_step s (s\<lparr>sys_store := st\<rparr>)"
| next': "Next limit (sys_store s) = (c, st) \<Longrightarrow>
    store_step s (s\<lparr>sys_store := st, sys_waiting := park c limit (sys_waiting s)\<rparr>)"
| turn: "sys_waiting s = before @ w # after \<Longrightarrow> outcome = Fired \<longrightarrow> nw_waiter w < changed (sys_store s) \<Longrightarrow>
    NextTurn outcome (nw_fragments w) (nw_limit w) (sys_store s) = (c, st) \<Longrightarrow>
    store_step s (s\<lparr>sys_store := st, sys_waiting := park c (nw_limit w) (before @ after)\<rparr>)"

inductive store_reachable :: "string \<Rightarrow> StoreSystem \<Rightarrow> bool" for name where
  start: "Create name = Ok st \<Longrightarrow>
    store_reachable name \<lparr>sys_store = st, sys_promises = [], sys_next_id = 0, sys_waiting = []\<rparr>"
| step: "store_reachable name s \<Longrightarrow> store_step s s' \<Longrightarrow> store_reachable name s'"

section \<open>Invariant\<close>

text \<open>Requests: identities are unique, every read is either answered or pending and never both, and a
  read that is still pending has no answer yet.\<close>

definition open_reads :: "LocalStore \<Rightarrow> ReadRequest list" where
  "open_reads st = filter (\<lambda>r. \<not> rq_completed r) (pending_reads st)"

definition reads_inv :: "StoreSystem \<Rightarrow> bool" where
  "reads_inv s \<longleftrightarrow>
     distinct (map rq_id (pending_reads (sys_store s))) \<and>
     distinct (map fst (sys_promises s) @ map rq_id (open_reads (sys_store s))) \<and>
     set (map fst (sys_promises s)) \<union> set (map rq_id (open_reads (sys_store s))) = {..<sys_next_id s} \<and>
     set (map rq_id (pending_reads (sys_store s))) \<subseteq> {..<sys_next_id s} \<and>
     (\<forall>r\<in>set (open_reads (sys_store s)). LookupReadLocked r (sys_store s) = None)"

definition waits_inv :: "StoreSystem \<Rightarrow> bool" where
  "waits_inv s \<longleftrightarrow>
     (\<forall>w\<in>set (sys_waiting s). nw_waiter w \<le> changed (sys_store s) \<and>
        (nw_waiter w = changed (sys_store s) \<longrightarrow> must_wait (sys_store s)))"

lemma LookupReadLocked_pending [simp]: "LookupReadLocked r (st\<lparr>pending_reads := ps\<rparr>) = LookupReadLocked r st"
  by (simp add: LookupReadLocked_def stored_fragment_def cong: option.case_cong ReadKind.case_cong)

lemma CollectReadsLocked_effect:
  assumes "CollectReadsLocked st = (st', cs)"
  shows "st' = st\<lparr>pending_reads := filter (\<lambda>r. LookupReadLocked r st = None) (open_reads st)\<rparr>"
    and "map (\<lambda>(r, x). rq_id r) cs = map rq_id (filter (\<lambda>r. LookupReadLocked r st \<noteq> None) (open_reads st))"
  using assms collect_reads_split [of st "pending_reads st"]
  by (auto simp: CollectReadsLocked_def open_reads_def o_def conj_commute split: prod.splits)

lemma distinct_partition:
  "distinct (xs @ map f ys) \<Longrightarrow> distinct ((xs @ map f (filter (\<lambda>y. \<not> P y) ys)) @ map f (filter P ys))"
  by (induction ys) auto

lemma set_partition:
  "set (xs @ map f (filter (\<lambda>y. \<not> P y) ys)) \<union> set (map f (filter P ys)) = set xs \<union> set (map f ys)"
  by auto

lemma reads_inv_collect:
  assumes inv: "reads_inv s" and same: "pending_reads st1 = pending_reads (sys_store s)"
    and collect: "CollectReadsLocked st1 = (st', cs)"
  shows "reads_inv (CompleteReads cs (s\<lparr>sys_store := st'\<rparr>))"
proof -
  let ?P = "\<lambda>r. LookupReadLocked r st1 = None" and ?os = "open_reads (sys_store s)"
  have os: "open_reads st1 = ?os" by (simp add: open_reads_def same)
  have st': "pending_reads st' = filter ?P ?os" using CollectReadsLocked_effect(1) [OF collect] by (simp add: os)
  then have os': "open_reads st' = filter ?P ?os" by (auto simp: open_reads_def intro: filter_cong)
  have ids: "map fst (sys_promises (CompleteReads cs (s\<lparr>sys_store := st'\<rparr>))) =
      map fst (sys_promises s) @ map rq_id (filter (\<lambda>r. \<not> ?P r) ?os)"
    using CollectReadsLocked_effect(2) [OF collect] by (simp add: CompleteReads_def os o_def case_prod_unfold)
  have sub: "distinct (map rq_id (filter ?P ?os))" "set (map rq_id (filter ?P ?os)) \<subseteq> {..<sys_next_id s}"
    using inv by (auto simp: reads_inv_def distinct_map_filter)
  have look: "LookupReadLocked r st' = LookupReadLocked r st1" for r
    by (simp add: CollectReadsLocked_effect(1) [OF collect])
  show ?thesis
    unfolding reads_inv_def ids
    using inv distinct_partition [of "map fst (sys_promises s)" rq_id ?os ?P] sub
      set_partition [of "map fst (sys_promises s)" rq_id ?P ?os]
    by (simp add: reads_inv_def CompleteReads_def st' os' look)
qed

lemma reads_inv_keep:
  assumes "reads_inv s" and "pending_reads st' = pending_reads (sys_store s)"
    and "\<And>r. LookupReadLocked r (sys_store s) = None \<Longrightarrow> LookupReadLocked r st' = None"
  shows "reads_inv (s\<lparr>sys_store := st', sys_waiting := ws\<rparr>)"
  using assms by (auto simp: reads_inv_def open_reads_def)

lemma open_reads_claim: "open_reads (claim_read i st) = filter (\<lambda>r. rq_id r \<noteq> i) (open_reads st)"
proof -
  have "filter (\<lambda>r. \<not> rq_completed r) (map (\<lambda>r. if rq_id r = i then r\<lparr>rq_completed := True\<rparr> else r) rs) =
      filter (\<lambda>r. rq_id r \<noteq> i) (filter (\<lambda>r. \<not> rq_completed r) rs)" for rs
    by (induction rs) auto
  then show ?thesis by (simp add: open_reads_def claim_read_def)
qed

lemma claim_ids: "map rq_id (pending_reads (claim_read i st)) = map rq_id (pending_reads st)"
  by (simp add: claim_read_def)

lemma reads_inv_give_up:
  assumes inv: "reads_inv s" and r: "r \<in> set (open_reads (sys_store s))"
  shows "reads_inv (s\<lparr>sys_store := claim_read (rq_id r) (sys_store s), sys_promises := sys_promises s @ [(rq_id r, e)]\<rparr>)"
proof -
  let ?os = "open_reads (sys_store s)" and ?P = "\<lambda>q. rq_id q \<noteq> rq_id r"
  have "filter (\<lambda>q. rq_id q = rq_id r) rs = [r]" if "distinct (map rq_id rs)" "r \<in> set rs" for rs
    using that
  proof (induction rs)
    case (Cons q rs)
    have "filter (\<lambda>q. rq_id q = rq_id r) rs = []" if "q = r"
      using Cons.prems(1) that by (simp add: filter_empty_conv) (metis imageI)
    then show ?case using Cons by auto
  qed simp
  then have "filter (\<lambda>q. \<not> ?P q) ?os = [r]" using inv r by (simp add: reads_inv_def)
  then have one: "map rq_id (filter (\<lambda>q. \<not> ?P q) ?os) = [rq_id r]" by simp
  have look: "LookupReadLocked q (claim_read i (sys_store s)) = LookupReadLocked q (sys_store s)" for q i
    by (simp add: claim_read_def)
  show ?thesis
    using inv distinct_partition [of "map fst (sys_promises s)" rq_id ?os ?P] set_partition [of "map fst (sys_promises s)" rq_id ?P ?os]
    unfolding reads_inv_def one
    by (simp add: open_reads_claim claim_ids look)
qed

lemma reads_inv_remove:
  assumes inv: "reads_inv s" and done': "\<forall>r\<in>set (pending_reads (sys_store s)). rq_id r = i \<longrightarrow> rq_completed r"
  shows "reads_inv (s\<lparr>sys_store := RemoveRead i (sys_store s)\<rparr>)"
proof -
  have "open_reads (RemoveRead i (sys_store s)) = open_reads (sys_store s)"
    using done' by (auto simp: open_reads_def RemoveRead_def intro: filter_cong)
  moreover have "LookupReadLocked q (RemoveRead i (sys_store s)) = LookupReadLocked q (sys_store s)" for q
    by (simp add: RemoveRead_def)
  ultimately show ?thesis using inv by (auto simp: reads_inv_def RemoveRead_def distinct_map_filter)
qed

lemma reads_inv_read:
  assumes inv: "reads_inv s" and r: "rq_id r = sys_next_id s" "\<not> rq_completed r"
    and read: "Read_request r (sys_store s) = (st, cs)"
  shows "reads_inv (CompleteReads cs (s\<lparr>sys_store := st, sys_next_id := sys_next_id s + 1\<rparr>))"
proof (cases "LookupReadLocked r (sys_store s)")
  case None
  then have "st = (sys_store s)\<lparr>pending_reads := pending_reads (sys_store s) @ [r]\<rparr>" "cs = []"
    using read by (auto simp: Read_request_def)
  then show ?thesis
    using inv r None by (auto simp: reads_inv_def CompleteReads_def open_reads_def lessThan_Suc)
next
  case (Some x)
  then have "st = sys_store s" "cs = [(r, x)]" using read by (auto simp: Read_request_def)
  then show ?thesis
    using inv r unfolding reads_inv_def CompleteReads_def by (simp add: lessThan_Suc) blast
qed

text \<open>What a collection does to the state and to the call that makes it.\<close>

definition cursor_moved :: "LocalStore \<Rightarrow> next_call \<Rightarrow> LocalStore \<Rightarrow> bool" where
  "cursor_moved st c st' \<longleftrightarrow>
     (\<exists>b. st' = st\<lparr>total_chunks_read := b\<rparr>) \<and> (must_wait st \<longrightarrow> st' = st) \<and>
     (\<forall>fs g. c = Waiting fs g \<longrightarrow> g = changed st' \<and> must_wait st')"

lemma CollectNext_moved:
  assumes "CollectNext fs limit st = (r, fs', st')"
  shows "(\<exists>b. st' = st\<lparr>total_chunks_read := b\<rparr>) \<and> (must_wait st \<longrightarrow> st' = st) \<and>
    (\<forall>g. r = MustWait g \<longrightarrow> g = changed st' \<and> must_wait st')"
proof -
  obtain b tail where st': "st' = st\<lparr>total_chunks_read := b\<rparr>"
    and "next_outcome r limit (fs @ map Some (run_of st (total_chunks_read st) b)) st' tail"
    using CollectNext_run [of fs limit st] assms by auto
  moreover have "must_wait st \<longrightarrow> st' = st"
    using CollectNext_stop [of st fs limit] assms by (auto simp: must_wait_def)
  ultimately show ?thesis by auto
qed

lemma Next_moved: "Next limit st = (c, st') \<Longrightarrow> cursor_moved st c st'"
  using CollectNext_moved [of "[]" limit st]
  by (auto simp: Next_def cursor_moved_def split: if_splits prod.splits collected.splits intro: exI [of _ "total_chunks_read st"])

lemma NextTurn_moved: "NextTurn outcome fs limit st = (c, st') \<Longrightarrow> cursor_moved st c st'"
  using CollectNext_moved [of fs limit st]
  by (auto simp: NextTurn_def cursor_moved_def split: sum.splits prod.splits collected.splits intro: exI [of _ "total_chunks_read st"])

lemma waits_inv_moved:
  assumes inv: "waits_inv s" and moved: "cursor_moved (sys_store s) c st" and ws: "set ws \<subseteq> set (sys_waiting s)"
  shows "waits_inv (s\<lparr>sys_store := st, sys_waiting := park c limit ws\<rparr>)"
proof -
  have "nw_waiter w \<le> changed st \<and> (nw_waiter w = changed st \<longrightarrow> must_wait st)" if "w \<in> set (sys_waiting s)" for w
  proof -
    have "changed st = changed (sys_store s)" using moved by (auto simp: cursor_moved_def)
    then show ?thesis using inv moved that by (auto simp: waits_inv_def cursor_moved_def)
  qed
  then show ?thesis
    using ws moved by (auto simp: waits_inv_def park_def cursor_moved_def split: next_call.splits)
qed

lemma reads_inv_moved:
  assumes "reads_inv s" and "cursor_moved (sys_store s) c st"
  shows "reads_inv (s\<lparr>sys_store := st, sys_waiting := ws\<rparr>)"
proof (rule reads_inv_keep [OF assms(1)])
  obtain b where st: "st = (sys_store s)\<lparr>total_chunks_read := b\<rparr>" using assms(2) by (auto simp: cursor_moved_def)
  show "pending_reads st = pending_reads (sys_store s)" by (simp add: st)
  show "\<And>r. LookupReadLocked r (sys_store s) = None \<Longrightarrow> LookupReadLocked r st = None"
    by (simp add: st LookupReadLocked_None cong: ReadKind.case_cong)
qed

lemma waits_inv_later: "waits_inv s \<Longrightarrow> changed (sys_store s) < changed st \<Longrightarrow> waits_inv (s\<lparr>sys_store := st\<rparr>)"
  by (fastforce simp: waits_inv_def)

lemma waits_inv_same:
  "waits_inv s \<Longrightarrow> changed st = changed (sys_store s) \<Longrightarrow> (must_wait (sys_store s) \<Longrightarrow> must_wait st) \<Longrightarrow>
   waits_inv (s\<lparr>sys_store := st\<rparr>)"
  by (auto simp: waits_inv_def)

lemma waits_inv_promises [simp]:
  "waits_inv (CompleteReads cs s) = waits_inv s"
  "waits_inv (s\<lparr>sys_promises := ps\<rparr>) = waits_inv s" "waits_inv (s\<lparr>sys_next_id := i\<rparr>) = waits_inv s"
  by (simp_all add: waits_inv_def CompleteReads_def)

lemma must_wait_pending [simp]: "must_wait (st\<lparr>pending_reads := ps\<rparr>) = must_wait st"
  by (simp add: must_wait_def final_read_def next_missing_def cong: option.case_cong)

lemma ClearData_keeps:
  assumes "ClearData n st = (x, st')"
  shows "pending_reads st' = pending_reads st" "changed st' = changed st" "must_wait st \<Longrightarrow> must_wait st'"
    "LookupReadLocked r st = None \<Longrightarrow> LookupReadLocked r st' = None"
  using assms
  by (auto simp: ClearData_def must_wait_def final_read_def next_missing_def LookupReadLocked_None update_conv'
      split: option.splits fragment_data.splits ReadKind.splits)

text \<open>The invariant of the whole system.\<close>

definition system_inv :: "StoreSystem \<Rightarrow> bool" where
  "system_inv s \<longleftrightarrow> store_inv (sys_store s) \<and> reads_inv s \<and> waits_inv s"

lemma store_step_store_inv: "store_step s s' \<Longrightarrow> store_inv (sys_store s) \<Longrightarrow> store_inv (sys_store s')"
proof (induction rule: store_step.induct)
  case (put fs s x st cs)
  then show ?case by (cases x) (auto simp: CompleteReads_def dest: PutMany_error PutMany_log(5))
next
  case (next' limit s c st)
  then show ?case
    by (auto simp: Next_def split: if_splits prod.splits collected.splits dest: CollectNext_inv)
next
  case (turn s before w after outcome c st)
  then show ?case
    by (auto simp: NextTurn_def split: sum.splits prod.splits collected.splits dest: CollectNext_inv)
qed (auto simp: CompleteReads_def Read_request_def claim_read_def RemoveRead_def split: option.splits
      dest: CloseWritesWithStatus_log(2) ClearData_log(1))

lemma CompleteReads_Nil [simp]: "CompleteReads [] s = s"
  by (simp add: CompleteReads_def)

lemma collect_step:
  assumes inv: "reads_inv s" "waits_inv s" and same: "pending_reads st1 = pending_reads (sys_store s)"
    and later: "changed (sys_store s) < changed st1" and collect: "CollectReadsLocked st1 = (st', cs)"
  shows "reads_inv (CompleteReads cs (s\<lparr>sys_store := st'\<rparr>)) \<and> waits_inv (CompleteReads cs (s\<lparr>sys_store := st'\<rparr>))"
proof -
  have "changed st' = changed st1" using CollectReadsLocked_effect(1) [OF collect] by simp
  then have "waits_inv (s\<lparr>sys_store := st'\<rparr>)" using waits_inv_later [OF inv(2)] later by simp
  then show ?thesis using reads_inv_collect [OF inv(1) same collect] by simp
qed

lemma put_step:
  assumes inv: "reads_inv s" "waits_inv s" and put: "PutMany fs (sys_store s) = (x, st, cs)"
  shows "reads_inv (CompleteReads cs (s\<lparr>sys_store := st\<rparr>)) \<and> waits_inv (CompleteReads cs (s\<lparr>sys_store := st\<rparr>))"
proof (cases x)
  case (Inl e)
  then have "st = sys_store s \<and> cs = []" using put by (auto dest: PutMany_error)
  then show ?thesis using inv by simp
next
  case (Inr ns)
  with put have "PutMany fs (sys_store s) = (Ok ns, st, cs)" by simp
  then show ?thesis
  proof (cases rule: PutMany_ok_cases)
    case 1
    then show ?thesis using inv by simp
  next
    case (2 pf)
    then show ?thesis using inv by (intro collect_step) (simp_all add: commit_def Let_def)
  qed
qed

lemma close_step:
  assumes inv: "reads_inv s" "waits_inv s" and close: "CloseWritesWithStatus e flag (sys_store s) = (x, st, cs)"
  shows "reads_inv (CompleteReads cs (s\<lparr>sys_store := st\<rparr>)) \<and> waits_inv (CompleteReads cs (s\<lparr>sys_store := st\<rparr>))"
proof (cases "write_status (sys_store s)")
  case None
  then have "CollectReadsLocked ((sys_store s)\<lparr>write_status := Some e, changed := changed (sys_store s) + 1\<rparr>) = (st, cs)"
    using close by (auto simp: CloseWritesWithStatus_def Let_def split: prod.splits)
  then show ?thesis using inv by (intro collect_step) simp_all
next
  case (Some p)
  then show ?thesis using close inv by (auto simp: CloseWritesWithStatus_def)
qed

lemma read_waits:
  assumes "waits_inv s" and "Read_request r (sys_store s) = (st, cs)"
  shows "waits_inv (CompleteReads cs (s\<lparr>sys_store := st, sys_next_id := i\<rparr>))"
proof -
  have "changed st = changed (sys_store s) \<and> must_wait st = must_wait (sys_store s)"
    using assms(2) by (cases "LookupReadLocked r (sys_store s)") (auto simp: Read_request_def)
  then have "waits_inv (s\<lparr>sys_store := st\<rparr>)" using assms(1) by (intro waits_inv_same) simp_all
  then show ?thesis by (simp add: waits_inv_def CompleteReads_def)
qed

lemma store_step_reads_waits: "store_step s s' \<Longrightarrow> reads_inv s \<Longrightarrow> waits_inv s \<Longrightarrow> reads_inv s' \<and> waits_inv s'"
proof (induction rule: store_step.induct)
  case (read s kind v st cs)
  then show ?case using reads_inv_read [OF read(2) _ _ read(1)] read_waits [OF read(3) read(1)] by simp
next
  case (give_up r s e)
  then have r: "r \<in> set (open_reads (sys_store s))" by (simp add: open_reads_def)
  have "waits_inv (s\<lparr>sys_store := claim_read (rq_id r) (sys_store s)\<rparr>)"
    using give_up(5) by (rule waits_inv_same) (simp_all add: claim_read_def)
  then show ?case using reads_inv_give_up [OF give_up(4) r] by (simp add: waits_inv_def)
next
  case (remove s i)
  then show ?case using reads_inv_remove [OF remove(2)] by (auto simp: RemoveRead_def intro: waits_inv_same)
next
  case (put fs s x st cs)
  show ?case by (rule put_step [OF put(2,3,1)])
next
  case (close e flag s x st cs)
  show ?case by (rule close_step [OF close(2,3,1)])
next
  case (clear n s x st)
  note keeps = ClearData_keeps [OF clear(1)]
  have "reads_inv (s\<lparr>sys_store := st, sys_waiting := sys_waiting s\<rparr>)"
    by (rule reads_inv_keep [OF clear(2)]) (use keeps in auto)
  then show ?case using keeps clear(3) by (auto intro: waits_inv_same)
next
  case (next' limit s c st)
  note moved = Next_moved [OF next'(1)]
  show ?case using reads_inv_moved [OF next'(2) moved] waits_inv_moved [OF next'(3) moved] by simp
next
  case (turn s before w after outcome c st)
  note moved = NextTurn_moved [OF turn(3)]
  have "set (before @ after) \<subseteq> set (sys_waiting s)" using turn(1) by auto
  then show ?case using reads_inv_moved [OF turn(4) moved] waits_inv_moved [OF turn(5) moved] by simp
qed

lemma reachable_inv: "store_reachable name s \<Longrightarrow> system_inv s"
proof (induction rule: store_reachable.induct)
  case (start st)
  then have "pending_reads st = []" by (auto simp: Create_def ok_iff)
  then show ?case using start store_inv_Create
    by (simp add: system_inv_def reads_inv_def waits_inv_def open_reads_def lessThan_0)
next
  case (step s s')
  then show ?case using store_step_store_inv store_step_reads_waits by (simp add: system_inv_def)
qed

section \<open>Sequence numbers and fragments\<close>

lemma assign_consecutive:
  assumes "\<And>i. i < n + k \<Longrightarrow> n \<le> i \<Longrightarrow> map_of cs (word_of_nat i) = None" and "n + k \<le> Suc kUint32Max"
  shows "assign_implicit cs k n = Ok (map word_of_nat [n..<n + k])"
  using assms
proof (induction k arbitrary: n)
  case (Suc k)
  have free: "next_free cs n = n" using Suc.prems(1) [of n] by (simp add: next_free.simps [of cs n])
  have "assign_implicit cs k (Suc n) = Ok (map word_of_nat [Suc n..<Suc n + k])"
    using Suc.prems by (intro Suc.IH) auto
  moreover have "[n..<n + Suc k] = n # [Suc n..<Suc n + k]" by (simp add: upt_conv_Cons del: upt_Suc)
  ultimately show ?case using Suc.prems(2) by (simp add: Let_def free del: upt_Suc)
qed simp

text \<open>A read of a sequence number just written is answered with what was written.\<close>

lemma lookup_put:
  assumes inv: "store_inv st" and put: "PutMany fs st = (Ok ns, st', cs)" and i: "i < length fs"
  shows "map_of (chunks st') (ns ! i) = Some (nf_data (fs ! i))"
    and "map_of (arrival_order_to_seq st') (total_chunks_put st + i) = Some (ns ! i)"
proof -
  note log = PutMany_log [OF inv put]
  have len: "length ns = length fs" and "distinct (keys st')" using log(2,5) by (simp_all add: store_inv_def)
  have "(ns ! i, nf_data (fs ! i)) = chunks st' ! (length (chunks st) + i)"
    using i len by (simp add: log(1))
  moreover have bound: "length (chunks st) + i < length (chunks st')" using i len by (simp add: log(1))
  ultimately have "(ns ! i, nf_data (fs ! i)) \<in> set (chunks st')" by (metis nth_mem)
  then show "map_of (chunks st') (ns ! i) = Some (nf_data (fs ! i))" using \<open>distinct (keys st')\<close> by simp
  have "total_chunks_put st = length (chunks st)" using inv by (simp add: store_inv_def)
  then show "map_of (arrival_order_to_seq st') (total_chunks_put st + i) = Some (ns ! i)"
    using arrival_lookup [OF log(5), of "total_chunks_put st + i"] bound i len by (simp add: log(1) nth_append)
qed

section \<open>Properties of the store\<close>

text \<open>C10. In every reachable state, under any interleaving of reads, cancellations, timeouts, writes,
  closes and cursor reads: each read issued so far has been answered exactly once or is still pending,
  never both; a read is pending only while the store has no answer for it; and once the store is
  closed no read is pending.\<close>

theorem reads_answered_exactly_once:
  assumes "store_reachable name s"
  shows "distinct (map fst (sys_promises s) @ map rq_id (open_reads (sys_store s))) \<and>
    set (map fst (sys_promises s)) \<union> set (map rq_id (open_reads (sys_store s))) = {..<sys_next_id s} \<and>
    (\<forall>r\<in>set (open_reads (sys_store s)). LookupReadLocked r (sys_store s) = None) \<and>
    (write_status (sys_store s) \<noteq> None \<longrightarrow> open_reads (sys_store s) = [])"
proof -
  have inv: "reads_inv s" using reachable_inv [OF assms] by (simp add: system_inv_def)
  then have "write_status (sys_store s) \<noteq> None \<longrightarrow> open_reads (sys_store s) = []"
    by (cases "open_reads (sys_store s)") (auto simp: reads_inv_def LookupReadLocked_None)
  with inv show ?thesis by (simp add: reads_inv_def)
qed

definition sample_store :: LocalStore where
  "sample_store = \<lparr>node_id = ''n'', seq_to_arrival_order = [], arrival_order_to_seq = [], chunks = [],
     final_seq = None, total_chunks_put = 0, total_chunks_read = 0, write_status = None, pending_reads = [], changed = 0\<rparr>"

definition sample_request :: ReadRequest where
  "sample_request = \<lparr>rq_id = 0, rq_kind = kSequence, rq_value = 3, rq_completed = False\<rparr>"

definition sample_wait :: next_wait where
  "sample_wait = \<lparr>nw_fragments = [], nw_limit = 2, nw_waiter = 0\<rparr>"

definition sample_system :: StoreSystem where
  "sample_system = \<lparr>sys_store = sample_store\<lparr>pending_reads := [sample_request]\<rparr>, sys_promises = [], sys_next_id = 1,
     sys_waiting = [sample_wait]\<rparr>"

lemma sample_reachable: "store_reachable ''n'' sample_system"
proof -
  let ?s0 = "\<lparr>sys_store = sample_store, sys_promises = [], sys_next_id = 0, sys_waiting = []\<rparr>"
  let ?s1 = "\<lparr>sys_store = sample_store\<lparr>pending_reads := [sample_request]\<rparr>, sys_promises = [], sys_next_id = 1, sys_waiting = []\<rparr>"
  have "Create ''n'' = Ok sample_store"
    by (simp add: Create_def sample_store_def ok_iff name_simps)
  then have "store_reachable ''n'' ?s0" by (rule store_reachable.start)
  moreover have "store_step ?s0 ?s1"
    using store_step.read [of ?s0 kSequence 3 "sample_store\<lparr>pending_reads := [sample_request]\<rparr>" "[]"]
    by (simp add: Read_request_def LookupReadLocked_def sample_store_def sample_request_def)
  moreover have "store_step ?s1 sample_system"
    using store_step.next' [of 2 ?s1 "Waiting [] 0" "sample_store\<lparr>pending_reads := [sample_request]\<rparr>"]
    by (simp add: Next_def CollectNext.simps [of _ 2] sample_store_def kUint32Max_def park_def sample_system_def sample_wait_def)
  ultimately show ?thesis by (blast intro: store_reachable.step)
qed

theorem reads_answered_exactly_once_witness:
  "open_reads (sys_store sample_system) = [sample_request] \<and> LookupReadLocked sample_request (sys_store sample_system) = None \<and>
   set (map fst (sys_promises sample_system)) \<union> set (map rq_id (open_reads (sys_store sample_system))) = {..<sys_next_id sample_system}"
proof -
  have "open_reads (sys_store sample_system) = [sample_request]"
    by (simp add: open_reads_def sample_system_def sample_request_def)
  then show ?thesis using reads_answered_exactly_once [OF sample_reachable] by simp
qed

text \<open>C11. No wake-up is lost: whenever a call of \<open>Next\<close> waits for a notification that has not fired,
  there is nothing it could return, since the next fragment in sequence is missing, the final fragment
  has not been read and the store is open.\<close>

theorem next_never_misses_wakeup:
  assumes "store_reachable name s" and "w \<in> set (sys_waiting s)" and "\<not> nw_waiter w < changed (sys_store s)"
  shows "must_wait (sys_store s)"
  using reachable_inv [OF assms(1)] assms(2,3) by (auto simp: system_inv_def waits_inv_def)

theorem next_never_misses_wakeup_witness: "sample_wait \<in> set (sys_waiting sample_system) \<and> must_wait (sys_store sample_system)"
proof -
  have "sample_wait \<in> set (sys_waiting sample_system)" "\<not> nw_waiter sample_wait < changed (sys_store sample_system)"
    by (simp_all add: sample_system_def sample_wait_def sample_store_def)
  then show ?thesis using next_never_misses_wakeup [OF sample_reachable] by blast
qed

text \<open>C12. What is written can be read: after a batch is accepted, a read of the sequence number a
  fragment was given returns that fragment's data at once, and so does a read of its arrival order.\<close>

theorem put_then_read:
  assumes "store_inv st" and "PutMany fs st = (Ok ns, st', cs)" and "i < length fs"
  shows "Read_request (Get_request k (ns ! i)) st' =
      (st', [(Get_request k (ns ! i), Ok (stored_fragment st' (ns ! i) (nf_data (fs ! i))))]) \<and>
    Read_request (GetByArrivalOrder_request k (total_chunks_put st + i)) st' =
      (st', [(GetByArrivalOrder_request k (total_chunks_put st + i), Ok (stored_fragment st' (ns ! i) (nf_data (fs ! i))))])"
  using lookup_put [OF assms]
  by (simp add: Read_request_def LookupReadLocked_def Get_request_def GetByArrivalOrder_request_def)

definition sample_chunk :: "string \<Rightarrow> fragment_data" where
  "sample_chunk bytes = FChunk \<lparr>ch_metadata = None, ch_ref = [], ch_data = bytes, ch_object = None\<rparr>"

definition sample_fragments :: "NodeFragment list" where
  "sample_fragments = [\<lparr>nf_id = [], nf_data = sample_chunk ''a'', nf_seq = None, nf_continued = True\<rparr>,
     \<lparr>nf_id = [], nf_data = sample_chunk ''b'', nf_seq = None, nf_continued = False\<rparr>]"

definition sample_written :: LocalStore where
  "sample_written = sample_store\<lparr>chunks := [(0, sample_chunk ''a''), (1, sample_chunk ''b'')],
     arrival_order_to_seq := [(0, 0), (1, 1)], seq_to_arrival_order := [(0, 0), (1, 1)],
     total_chunks_put := 2, final_seq := Some 1, changed := 1\<rparr>"

lemma sample_store_inv: "store_inv sample_store"
  by (simp add: store_inv_def sample_store_def)

lemma sample_put: "PutMany sample_fragments sample_store = (Ok [0, 1], sample_written, [])"
proof -
  have "check_batch sample_fragments False True [] = Ok (False, False)"
    by (simp add: sample_fragments_def FragmentValidate_def ValidateOptionalName_def sample_chunk_def ChunkValidate_def)
  moreover have "plan_put sample_fragments False sample_store = Ok ([0, 1], Some 1)"
    by (simp add: plan_put_def sample_fragments_def sample_store_def check_final_def r_guard_def next_free.simps
        kUint32Max_def Let_def)
  moreover have "CollectReadsLocked (commit sample_fragments [0, 1] (Some 1) sample_store) = (sample_written, [])"
    by (simp add: CollectReadsLocked_def commit_def sample_fragments_def sample_store_def sample_written_def merge_map_def
        emplace_def Let_def)
  ultimately show ?thesis by (simp add: PutMany_def sample_fragments_def sample_store_def Let_def)
qed

theorem put_then_read_witness:
  "Read_request (Get_request 7 1) sample_written =
    (sample_written, [(Get_request 7 1, Ok (stored_fragment sample_written 1 (sample_chunk ''b'')))])"
  using put_then_read [OF sample_store_inv sample_put, of 1 7] by (simp add: sample_fragments_def)

text \<open>C13. The store is an append-only log: whatever batches are written, each accepted batch appends
  its fragments under sequence numbers never used before, refused batches leave no trace, and
  everything stored earlier stays as it is.\<close>

theorem store_is_append_only:
  assumes "store_inv st" and "put_all put_log batches st = (rs, st')"
  shows "chunks st' = chunks st @ accepted batches rs \<and> distinct (map fst (chunks st @ accepted batches rs)) \<and>
    (\<forall>n d. map_of (chunks st) n = Some d \<longrightarrow> map_of (chunks st') n = Some d)"
  using local_log.put_all_log [OF assms] local_log.put_all_keeps [OF assms] by simp

theorem store_is_append_only_witness:
  "fst (put_all put_log [sample_fragments, []] sample_store) =
     [Ok [0, 1], Err kInvalidArgument ''Sequence numbers must be set on every fragment or none''] \<and>
   chunks (snd (put_all put_log [sample_fragments, []] sample_store)) = [(0, sample_chunk ''a''), (1, sample_chunk ''b'')]"
proof -
  have runs: "put_all put_log [sample_fragments, []] sample_store =
      ([Ok [0, 1], Err kInvalidArgument ''Sequence numbers must be set on every fragment or none''], sample_written)"
    by (simp add: put_log_def sample_put PutMany_def [of "[]"])
  show ?thesis using store_is_append_only [OF sample_store_inv runs] runs
    by (simp add: sample_store_def sample_fragments_def)
qed

text \<open>An empty batch is refused, although a later branch of \<open>PutMany\<close> answers one with no sequence
  numbers: no fragment is explicit, but vacuously all are.\<close>

lemma empty_batch_refused:
  "PutMany [] st = (Err kInvalidArgument ''Sequence numbers must be set on every fragment or none'', st, [])"
  by (simp add: PutMany_def)

text \<open>C14. The cursor delivers the stream in order: a call of \<open>Next\<close> that is answered returns exactly
  the stored fragments between the old and the new position of the shared cursor, in sequence and
  without a gap, at most as many as asked for, followed by an end mark only if the stream has ended
  there; it moves the cursor and changes nothing else.\<close>

theorem next_streams_in_order:
  assumes "Next limit st = (Answered (Ok fragments), st')"
  shows "\<exists>tail. fragments = map Some (run_of st (total_chunks_read st) (total_chunks_read st')) @ tail \<and>
    (tail = [] \<or> tail = [None] \<and> at_end st') \<and>
    total_chunks_read st \<le> total_chunks_read st' \<and> total_chunks_read st' - total_chunks_read st \<le> limit \<and>
    (\<forall>i. total_chunks_read st \<le> i \<and> i < total_chunks_read st' \<longrightarrow> map_of (chunks st) (word_of_nat i) \<noteq> None) \<and>
    st' = st\<lparr>total_chunks_read := total_chunks_read st'\<rparr>"
proof -
  obtain r b tail where run: "CollectNext [] limit st = (r, map Some (run_of st (total_chunks_read st) b) @ tail, st\<lparr>total_chunks_read := b\<rparr>)"
    "total_chunks_read st \<le> b" "\<forall>i. total_chunks_read st \<le> i \<and> i < b \<longrightarrow> map_of (chunks st) (word_of_nat i) \<noteq> None"
    "b - total_chunks_read st \<le> limit" "next_outcome r limit (map Some (run_of st (total_chunks_read st) b)) (st\<lparr>total_chunks_read := b\<rparr>) tail"
    using CollectNext_run [of "[]" limit st] by auto
  have "limit \<noteq> 0" using assms by (cases "limit = 0") (simp_all add: Next_def)
  then obtain u where "r = Settled (Ok u)" "fragments = map Some (run_of st (total_chunks_read st) b) @ tail"
    "st' = st\<lparr>total_chunks_read := b\<rparr>"
    using assms run(1) by (auto simp: Next_def ok_iff split: collected.splits)
  then show ?thesis using run by (intro exI [of _ tail]) auto
qed

theorem next_streams_in_order_witness:
  "\<exists>st'. Next 5 sample_written = (Answered (Ok [Some (stored_fragment sample_written 0 (sample_chunk ''a'')),
      Some (stored_fragment sample_written 1 (sample_chunk ''b'')), None]), st') \<and> total_chunks_read st' = 2 \<and> at_end st' \<and>
    [Some (stored_fragment sample_written 0 (sample_chunk ''a'')), Some (stored_fragment sample_written 1 (sample_chunk ''b'')), None] =
      map Some (run_of sample_written 0 2) @ [None]"
proof -
  have run: "Next 5 sample_written = (Answered (Ok [Some (stored_fragment sample_written 0 (sample_chunk ''a'')),
      Some (stored_fragment sample_written 1 (sample_chunk ''b'')), None]), sample_written\<lparr>total_chunks_read := 2\<rparr>)"
    by (simp add: Next_def CollectNext.simps [of _ 5] sample_written_def sample_store_def kUint32Max_def stored_fragment_def)
  obtain tail where "[Some (stored_fragment sample_written 0 (sample_chunk ''a'')), Some (stored_fragment sample_written 1 (sample_chunk ''b'')), None] =
      map Some (run_of sample_written 0 2) @ tail" "tail = [] \<or> tail = [None] \<and> at_end (sample_written\<lparr>total_chunks_read := 2\<rparr>)"
    using next_streams_in_order [OF run] by (auto simp: sample_written_def sample_store_def)
  then show ?thesis using run by (auto simp: run_of_def upt_rec)
qed

end
