(* ===== verification/Path_Mtu.thy ===== *)
theory Path_Mtu
  imports A11_Prelude
begin

text \<open>
  Path MTU discovery (\<open>cpp/a11/net/internal/path_mtu.h\<close>, \<open>path_mtu.cc\<close>).  The class's mutable fields are
  the record \<open>PathMtuDiscovery\<close>; \<open>changed_\<close>, an event replaced whenever it is notified, is the number of
  replacements so far.  The transport's callbacks (\<open>PathMtuProber\<close>) are parameters that transform a world:
  the discovery's fields, which other fibers change through \<open>Stop\<close>, \<open>ReportSendFailure\<close> and
  \<open>ReportSendSuccess\<close> while a callback blocks, and the transport's own state.  Sizes are words, so
  \<open>max_mtu + 1\<close> wraps where the source wraps.
\<close>

section \<open>Options\<close>

datatype PathMtuState = kDisabled | kBase | kSearching | kSearchComplete | kError

definition PathMtuStateName :: "PathMtuState \<Rightarrow> string" where
  "PathMtuStateName s =
     (case s of
        kDisabled \<Rightarrow> ''disabled''
      | kBase \<Rightarrow> ''base''
      | kSearching \<Rightarrow> ''searching''
      | kSearchComplete \<Rightarrow> ''search-complete''
      | kError \<Rightarrow> ''error'')"

record PathMtuOptions =
  base_mtu :: u64
  min_mtu :: u64
  max_mtu :: u64
  granularity :: u64
  probe_overhead :: u64
  max_probes :: int
  confirm_burst :: int
  probe_timeout :: int
  raise_timer :: int
  startup_retry :: int
  black_hole_threshold :: int

definition default_options :: PathMtuOptions where
  "default_options = \<lparr>base_mtu = 1280, min_mtu = 512, max_mtu = 8192, granularity = 64, probe_overhead = 108,
     max_probes = 3, confirm_burst = 4, probe_timeout = 500, raise_timer = 600000, startup_retry = 250,
     black_hole_threshold = 3\<rparr>"

definition OptionsValidate :: "PathMtuOptions \<Rightarrow> unit result" where
  "OptionsValidate opt =
     (if min_mtu opt < 2 * probe_overhead opt
      then Err kInvalidArgument (''path MTU min_mtu must leave room for '' @ dec (unat (probe_overhead opt)) @
        '' bytes of header, got '' @ dec (unat (min_mtu opt)))
      else if base_mtu opt < min_mtu opt then Err kInvalidArgument ''path MTU base_mtu must not be below min_mtu''
      else if max_mtu opt < base_mtu opt then Err kInvalidArgument ''path MTU max_mtu must not be below base_mtu''
      else if granularity opt = 0 then Err kInvalidArgument ''path MTU granularity must be positive''
      else if max_probes opt \<le> 0 then Err kInvalidArgument ''path MTU max_probes must be positive''
      else if confirm_burst opt \<le> 0 then Err kInvalidArgument ''path MTU confirm_burst must be positive''
      else if probe_timeout opt \<le> 0 then Err kInvalidArgument ''path MTU probe_timeout must be positive''
      else if black_hole_threshold opt \<le> 0 then Err kInvalidArgument ''path MTU black_hole_threshold must be positive''
      else Ok ())"

section \<open>The discovery's fields\<close>

record PathMtuDiscovery =
  pm_state :: PathMtuState
  pm_confirmed :: u64
  pm_failures :: int
  pm_probes_sent :: int
  pm_stopped :: bool
  pm_black_hole :: bool
  pm_changed :: nat

definition NewDiscovery :: PathMtuDiscovery where
  "NewDiscovery = \<lparr>pm_state = kDisabled, pm_confirmed = 0, pm_failures = 0, pm_probes_sent = 0,
     pm_stopped = False, pm_black_hole = False, pm_changed = 0\<rparr>"

text \<open>Replacing the event and notifying the old one.\<close>

definition notify :: "PathMtuDiscovery \<Rightarrow> PathMtuDiscovery" where
  "notify d = d\<lparr>pm_changed := Suc (pm_changed d)\<rparr>"

definition SetState :: "PathMtuState \<Rightarrow> PathMtuDiscovery \<Rightarrow> PathMtuDiscovery" where
  "SetState s d = (if pm_state d = s then d else notify (d\<lparr>pm_state := s\<rparr>))"

definition Stop :: "PathMtuDiscovery \<Rightarrow> PathMtuDiscovery" where
  "Stop d = notify (d\<lparr>pm_stopped := True\<rparr>)"

definition ReportSendFailure :: "PathMtuOptions \<Rightarrow> PathMtuDiscovery \<Rightarrow> PathMtuDiscovery" where
  "ReportSendFailure opt d =
     (if pm_state d = kDisabled \<or> pm_state d = kError then d
      else if pm_failures d + 1 < black_hole_threshold opt then d\<lparr>pm_failures := pm_failures d + 1\<rparr>
      else if pm_black_hole d then d\<lparr>pm_failures := 0\<rparr>
      else notify (d\<lparr>pm_failures := 0, pm_black_hole := True\<rparr>))"

definition ReportSendSuccess :: "PathMtuDiscovery \<Rightarrow> PathMtuDiscovery" where
  "ReportSendSuccess d = d\<lparr>pm_failures := 0\<rparr>"

section \<open>The transport\<close>

type_synonym 'e world = "PathMtuDiscovery \<times> 'e"

text \<open>
  \<open>apply\<close> tells whether the stack took the size.  \<open>probe_burst\<close> returns how many of the probes came back and
  \<open>probe\<close> whether the one did, \<open>None\<close> when nothing could be sent; their last argument before the world is the
  time until the deadline.  An empty \<open>std::function\<close> is \<open>None\<close>.
\<close>

record 'e PathMtuProber =
  apply_size :: "u64 \<Rightarrow> 'e world \<Rightarrow> bool \<times> 'e world"
  probe_one :: "(u64 \<Rightarrow> int \<Rightarrow> 'e world \<Rightarrow> bool option \<times> 'e world) option"
  probe_burst :: "(u64 \<Rightarrow> int \<Rightarrow> int \<Rightarrow> 'e world \<Rightarrow> int option \<times> 'e world) option"

definition on_discovery :: "(PathMtuDiscovery \<Rightarrow> PathMtuDiscovery) \<Rightarrow> 'e world \<Rightarrow> 'e world" where
  "on_discovery f w = (f (fst w), snd w)"

definition RestoreConfirmed :: "'e PathMtuProber \<Rightarrow> 'e world \<Rightarrow> 'e world" where
  "RestoreConfirmed p w =
     (if pm_confirmed (fst w) \<noteq> 0 then snd (apply_size p (pm_confirmed (fst w)) w) else w)"

text \<open>One probe or burst for a candidate: \<open>answered\<close> in the source.\<close>

definition send_probe :: "PathMtuOptions \<Rightarrow> 'e PathMtuProber \<Rightarrow> u64 \<Rightarrow> 'e world \<Rightarrow> bool option \<times> 'e world" where
  "send_probe opt p candidate w =
     (let payload = candidate - probe_overhead opt in
      case probe_burst p of
        Some burst \<Rightarrow>
          (case burst payload (confirm_burst opt) (probe_timeout opt) w of
             (returned, w') \<Rightarrow> (map_option (\<lambda>n. confirm_burst opt \<le> n) returned, w'))
      | None \<Rightarrow>
          (case probe_one p of
             Some probe \<Rightarrow> probe payload (probe_timeout opt) w
           | None \<Rightarrow> (None, w)))"

section \<open>The search\<close>

text \<open>The attempts at one candidate; the results are \<open>acknowledged\<close> and \<open>*indeterminate\<close>.\<close>

fun probe_attempts :: "nat \<Rightarrow> PathMtuOptions \<Rightarrow> 'e PathMtuProber \<Rightarrow> u64 \<Rightarrow> 'e world \<Rightarrow> bool \<times> bool \<times> 'e world" where
  "probe_attempts 0 opt p candidate w = (False, False, w)"
| "probe_attempts (Suc n) opt p candidate w =
     (case apply_size p candidate w of
        (False, w1) \<Rightarrow> (False, True, w1)
      | (True, w1) \<Rightarrow>
          (case send_probe opt p candidate (on_discovery (\<lambda>d. d\<lparr>pm_probes_sent := pm_probes_sent d + 1\<rparr>) w1) of
             (None, w2) \<Rightarrow> (False, True, w2)
           | (Some True, w2) \<Rightarrow> (True, False, w2)
           | (Some False, w2) \<Rightarrow>
               let w3 = RestoreConfirmed p w2 in
               if pm_stopped (fst w3) then (False, False, w3) else probe_attempts n opt p candidate w3))"

definition ProbeCandidate :: "PathMtuOptions \<Rightarrow> 'e PathMtuProber \<Rightarrow> u64 \<Rightarrow> 'e world \<Rightarrow> bool \<times> bool \<times> 'e world" where
  "ProbeCandidate opt p candidate w =
     (case probe_attempts (nat (max_probes opt)) opt p candidate w of
        (acknowledged, indeterminate, w') \<Rightarrow>
          (acknowledged, indeterminate, if acknowledged then w' else RestoreConfirmed p w'))"

text \<open>Recording a confirmed size and leaving it applied.\<close>

definition confirm :: "'e PathMtuProber \<Rightarrow> u64 \<Rightarrow> 'e world \<Rightarrow> 'e world" where
  "confirm p s w = snd (apply_size p s (on_discovery (\<lambda>d. d\<lparr>pm_confirmed := s\<rparr>) w))"

text \<open>The binary search: \<open>low\<close> has answered, \<open>ceiling\<close> has not (or is one past the maximum).\<close>

function search_loop :: "PathMtuOptions \<Rightarrow> 'e PathMtuProber \<Rightarrow> u64 \<Rightarrow> u64 \<Rightarrow> 'e world \<Rightarrow> 'e world" where
  "search_loop opt p low ceiling w =
     (if \<not> granularity opt < ceiling - low \<or> pm_stopped (fst w) then w
      else
        let candidate = low + (ceiling - low) div 2 in
        if candidate \<le> low then w
        else case ProbeCandidate opt p candidate w of
          (True, _, w') \<Rightarrow> search_loop opt p candidate ceiling (confirm p candidate w')
        | (False, True, w') \<Rightarrow> w'
        | (False, False, w') \<Rightarrow> search_loop opt p low candidate w')"
  by pat_completeness auto

lemma half_gap: "unat ((gap :: u64) div 2) = unat gap div 2"
  by (simp add: unat_div)

lemma search_gap_up:
  assumes "\<not> (low :: u64) + (ceiling - low) div 2 \<le> low"
  shows "unat (ceiling - (low + (ceiling - low) div 2)) = unat (ceiling - low) - unat (ceiling - low) div 2"
    and "1 < unat (ceiling - low)"
proof -
  let ?g = "ceiling - low"
  have le: "?g div 2 \<le> ?g" by (simp add: word_le_nat_alt half_gap)
  have eq: "ceiling - (low + ?g div 2) = ?g - ?g div 2" by simp
  show "unat (ceiling - (low + ?g div 2)) = unat ?g - unat ?g div 2"
    unfolding eq unat_sub [OF le] half_gap by (rule refl)
  show "1 < unat ?g"
  proof (rule ccontr)
    assume "\<not> 1 < unat ?g"
    then have "unat (?g div 2) = 0" by (simp add: half_gap)
    then have "?g div 2 = 0" by (simp only: unat_eq_zero)
    then show False using assms by simp
  qed
qed

termination search_loop
proof (relation "measure (\<lambda>(opt, p, low, ceiling, w). unat (ceiling - low))"; clarsimp)
  fix low ceiling :: u64
  assume a: "\<not> low + (ceiling - low) div 2 \<le> low"
  show "unat (ceiling - (low + (ceiling - low) div 2)) < unat (ceiling - low)"
    and "unat ((ceiling - low) div 2) < unat (ceiling - low)"
    using search_gap_up [OF a] by (simp_all add: half_gap)
qed

declare search_loop.simps [simp del]

definition Search :: "PathMtuOptions \<Rightarrow> 'e PathMtuProber \<Rightarrow> 'e world \<Rightarrow> u64 \<times> 'e world" where
  "Search opt p w =
     (if pm_stopped (fst w) \<or> pm_state (fst w) = kError then (pm_confirmed (fst w), w)
      else
        let w1 = on_discovery (\<lambda>d. SetState kBase (d\<lparr>pm_black_hole := False, pm_failures := 0, pm_confirmed := 0\<rparr>)) w in
        case ProbeCandidate opt p (base_mtu opt) w1 of
          (False, True, w2) \<Rightarrow> (0, w2)
        | (False, False, w2) \<Rightarrow> (0, on_discovery (SetState kError) w2)
        | (True, _, w2) \<Rightarrow>
            let w3 = on_discovery (SetState kSearching) (confirm p (base_mtu opt) w2);
                w4 = RestoreConfirmed p (search_loop opt p (base_mtu opt) (max_mtu opt + 1) w3);
                w5 = on_discovery (SetState kSearchComplete) w4
            in (pm_confirmed (fst w5), w5))"

section \<open>The run loop\<close>

text \<open>
  \<open>Run\<close> as a step relation.  The phases are the points at which the loop takes the mutex or sleeps:
  \<open>RTop\<close> the head of the outer loop, \<open>RSearched\<close> after a search, \<open>RRetrySleep\<close> and \<open>RSleep\<close> the two calls of
  \<open>SelectUntil\<close> with the event they hold, \<open>RRetry\<close> and \<open>RWait\<close> before the event is read, \<open>RWake\<close> after the
  inner loop, \<open>RDone\<close> a return.  \<open>SelectUntil\<close> returns 0 when the fiber is cancelled, 1 once the event held
  has been notified, and a negative number when the time is over; when a time is over or a cancellation
  arrives is up to the environment.
\<close>

datatype run_phase = RTop | RSearched u64 | RRetry | RRetrySleep nat | RWait | RSleep nat | RWake | RDone

definition fall_back :: "PathMtuOptions \<Rightarrow> 'e PathMtuProber \<Rightarrow> 'e world \<Rightarrow> 'e world" where
  "fall_back opt p w = on_discovery (\<lambda>d. d\<lparr>pm_confirmed := base_mtu opt\<rparr>) (snd (apply_size p (base_mtu opt) w))"

inductive run_step :: "PathMtuOptions \<Rightarrow> 'e PathMtuProber \<Rightarrow> run_phase \<times> 'e world \<Rightarrow> run_phase \<times> 'e world \<Rightarrow> bool"
  for opt p where
  top_stopped: "pm_stopped (fst w) \<Longrightarrow> run_step opt p (RTop, w) (RDone, w)"
| top_search: "\<not> pm_stopped (fst w) \<Longrightarrow> Search opt p w = (c, w') \<Longrightarrow> run_step opt p (RTop, w) (RSearched c, w')"
| searched: "run_step opt p (RSearched c, w)
    (if pm_stopped (fst w) \<or> pm_state (fst w) = kError then RDone else if c = 0 then RRetry else RWait, w)"
| retry: "run_step opt p (RRetry, w) (RRetrySleep (pm_changed (fst w)), w)"
| retry_cancelled: "run_step opt p (RRetrySleep g, w) (RDone, w)"
| retry_timeout: "run_step opt p (RRetrySleep g, w) (RTop, w)"
| retry_notified: "g \<noteq> pm_changed (fst w) \<Longrightarrow> run_step opt p (RRetrySleep g, w) (RTop, w)"
| wait: "run_step opt p (RWait, w)
    (if pm_stopped (fst w) then RDone else if pm_black_hole (fst w) then RWake else RSleep (pm_changed (fst w)), w)"
| sleep_cancelled: "run_step opt p (RSleep g, w) (RDone, w)"
| sleep_timeout: "run_step opt p (RSleep g, w) (RWake, w)"
| sleep_notified: "g \<noteq> pm_changed (fst w) \<Longrightarrow> run_step opt p (RSleep g, w) (RWait, w)"
| wake: "run_step opt p (RWake, w) (RTop, if pm_black_hole (fst w) then fall_back opt p w else w)"
| other_stop: "run_step opt p (ph, w) (ph, on_discovery Stop w)"
| other_failure: "run_step opt p (ph, w) (ph, on_discovery (ReportSendFailure opt) w)"
| other_success: "run_step opt p (ph, w) (ph, on_discovery ReportSendSuccess w)"

inductive run_reachable :: "PathMtuOptions \<Rightarrow> 'e PathMtuProber \<Rightarrow> 'e \<Rightarrow> run_phase \<times> 'e world \<Rightarrow> bool"
  for opt p e where
  run_start: "run_reachable opt p e (RTop, (NewDiscovery, e))"
| run_next: "run_reachable opt p e s \<Longrightarrow> run_step opt p s s' \<Longrightarrow> run_reachable opt p e s'"

end
