(* ===== verification/Path_Mtu_Properties.thy ===== *)
theory Path_Mtu_Properties
  imports Path_Mtu
begin

text \<open>
  What path MTU discovery promises: a search confirms only sizes the path carried, between the configured
  bounds, whatever is lost and whatever other fibers do meanwhile; on a path with a fixed capacity it settles
  within the granularity of the best size; it sends a bounded number of probes; and its run loop never sleeps
  through a stop or a black-hole report.
\<close>

declare split_paired_All [simp del] split_paired_Ex [simp del]

section \<open>Interference\<close>

text \<open>What other fibers may do to the discovery's fields while a callback blocks.\<close>

inductive others :: "PathMtuOptions \<Rightarrow> PathMtuDiscovery \<Rightarrow> PathMtuDiscovery \<Rightarrow> bool" for opt where
  others_none: "others opt d d"
| others_stop: "others opt d d' \<Longrightarrow> others opt d (Stop d')"
| others_failure: "others opt d d' \<Longrightarrow> others opt d (ReportSendFailure opt d')"
| others_success: "others opt d d' \<Longrightarrow> others opt d (ReportSendSuccess d')"

definition failures_ok :: "PathMtuOptions \<Rightarrow> PathMtuDiscovery \<Rightarrow> bool" where
  "failures_ok opt d \<longleftrightarrow> 0 \<le> pm_failures d \<and> pm_failures d < black_hole_threshold opt"

text \<open>The callbacks do not re-enter the engine.\<close>

definition polite :: "PathMtuOptions \<Rightarrow> 'e PathMtuProber \<Rightarrow> bool" where
  "polite opt p \<longleftrightarrow>
     (\<forall>s w. others opt (fst w) (fst (snd (apply_size p s w)))) \<and>
     (\<forall>f s t w. probe_one p = Some f \<longrightarrow> others opt (fst w) (fst (snd (f s t w)))) \<and>
     (\<forall>f s n t w. probe_burst p = Some f \<longrightarrow> others opt (fst w) (fst (snd (f s n t w))))"

named_theorems mtu_defs

lemmas [mtu_defs] = Stop_def ReportSendFailure_def ReportSendSuccess_def notify_def SetState_def on_discovery_def

text \<open>What a stretch of at most \<open>n\<close> probes and interference keeps.\<close>

definition quiet :: "PathMtuOptions \<Rightarrow> int \<Rightarrow> PathMtuDiscovery \<Rightarrow> PathMtuDiscovery \<Rightarrow> bool" where
  "quiet opt n d d' \<longleftrightarrow>
     pm_state d' = pm_state d \<and> pm_confirmed d' = pm_confirmed d \<and>
     pm_probes_sent d \<le> pm_probes_sent d' \<and> pm_probes_sent d' \<le> pm_probes_sent d + n \<and>
     (pm_stopped d \<longrightarrow> pm_stopped d') \<and> (pm_black_hole d \<longrightarrow> pm_black_hole d') \<and>
     (0 < black_hole_threshold opt \<and> failures_ok opt d \<longrightarrow> failures_ok opt d')"

lemma quiet_refl [simp]: "0 \<le> n \<Longrightarrow> quiet opt n d d"
  by (simp add: quiet_def)

lemma quiet_trans: "quiet opt m d d' \<Longrightarrow> quiet opt n d' d'' \<Longrightarrow> quiet opt (m + n) d d''"
  by (auto simp: quiet_def)

lemma quiet_mono: "quiet opt m d d' \<Longrightarrow> m \<le> n \<Longrightarrow> quiet opt n d d'"
  by (auto simp: quiet_def)

lemma others_quiet: "others opt d d' \<Longrightarrow> quiet opt 0 d d'"
  by (induction rule: others.induct) (auto simp: quiet_def failures_ok_def mtu_defs)

lemma apply_quiet: "polite opt p \<Longrightarrow> quiet opt 0 (fst w) (fst (snd (apply_size p s w)))"
  by (simp add: polite_def others_quiet)

lemma RestoreConfirmed_quiet: "polite opt p \<Longrightarrow> quiet opt 0 (fst w) (fst (RestoreConfirmed p w))"
  by (simp add: RestoreConfirmed_def apply_quiet)

lemma send_probe_quiet: "polite opt p \<Longrightarrow> quiet opt 0 (fst w) (fst (snd (send_probe opt p s w)))"
  by (auto simp: send_probe_def Let_def polite_def case_prod_unfold split: option.split intro!: others_quiet)

lemma count_quiet: "quiet opt 1 (fst w) (fst (on_discovery (\<lambda>d. d\<lparr>pm_probes_sent := pm_probes_sent d + 1\<rparr>) w))"
  by (simp add: quiet_def on_discovery_def failures_ok_def)

lemma probe_attempts_quiet:
  assumes "polite opt p"
  shows "quiet opt (int n) (fst w) (fst (snd (snd (probe_attempts n opt p s w))))"
proof (induction n arbitrary: w)
  case (Suc n)
  obtain ok w1 where w1: "apply_size p s w = (ok, w1)" by (rule prod.exhaust)
  have q1: "quiet opt 0 (fst w) (fst w1)" using apply_quiet [OF assms, of w s] w1 by simp
  show ?case
  proof (cases ok)
    case True
    let ?w = "on_discovery (\<lambda>d. d\<lparr>pm_probes_sent := pm_probes_sent d + 1\<rparr>) w1"
    obtain r w2 where w2: "send_probe opt p s ?w = (r, w2)" by (rule prod.exhaust)
    have q2: "quiet opt 1 (fst w) (fst w2)"
      using quiet_trans [OF quiet_trans [OF q1 count_quiet] send_probe_quiet [OF assms, of ?w s]] w2 by simp
    have q3: "quiet opt 1 (fst w) (fst (RestoreConfirmed p w2))"
      using quiet_trans [OF q2 RestoreConfirmed_quiet [OF assms]] by simp
    have "quiet opt (1 + int n) (fst w) (fst (snd (snd (probe_attempts n opt p s (RestoreConfirmed p w2)))))"
      by (rule quiet_trans [OF q3 Suc])
    then show ?thesis
      using w1 w2 True quiet_mono [OF q2, of "1 + int n"] quiet_mono [OF q3, of "1 + int n"]
      by (cases r) (auto simp: Let_def split: bool.split)
  qed (use w1 quiet_mono [OF q1, of "1 + int n"] in simp)
qed simp

lemma ProbeCandidate_quiet:
  assumes "polite opt p" and "ProbeCandidate opt p s w = (a, i, w')"
  shows "quiet opt (max 0 (max_probes opt)) (fst w) (fst w')"
proof -
  obtain w1 where w1: "probe_attempts (nat (max_probes opt)) opt p s w = (a, i, w1)" and w': "w' = (if a then w1 else RestoreConfirmed p w1)"
    using assms(2) by (auto simp: ProbeCandidate_def split: prod.splits)
  have q: "quiet opt (max 0 (max_probes opt)) (fst w) (fst w1)"
    using probe_attempts_quiet [OF assms(1), of "nat (max_probes opt)" w s] w1 by (simp add: max_def split: if_splits)
  show ?thesis using q quiet_trans [OF q RestoreConfirmed_quiet [OF assms(1)]] by (simp add: w')
qed

text \<open>A candidate is acknowledged only when a probe of its size was.\<close>

lemma probe_attempts_acknowledged:
  "probe_attempts n opt p s w = (True, i, w') \<Longrightarrow> \<exists>v. send_probe opt p s v = (Some True, w')"
  by (induction n opt p s w rule: probe_attempts.induct)
    (auto simp: Let_def split: prod.splits bool.splits option.splits if_splits)

lemma ProbeCandidate_acknowledged:
  "ProbeCandidate opt p s w = (True, i, w') \<Longrightarrow> \<exists>v. send_probe opt p s v = (Some True, w')"
  by (auto simp: ProbeCandidate_def split: prod.splits dest: probe_attempts_acknowledged)

section \<open>The binary search over natural numbers\<close>

lemma gap_half:
  assumes "unat low + unat (ceiling - low) \<le> 2 ^ 64" and "1 < unat (ceiling - low)"
  shows "unat (low + (ceiling - low) div 2) = unat low + unat (ceiling - low) div 2"
    and "\<not> (low :: u64) + (ceiling - low) div 2 \<le> low"
proof -
  have "unat low + unat (ceiling - low) div 2 < 2 ^ 64" using assms by linarith
  then show *: "unat (low + (ceiling - low) div 2) = unat low + unat (ceiling - low) div 2"
    by (simp add: unat_word_ariths half_gap)
  show "\<not> low + (ceiling - low) div 2 \<le> low" using assms(2) by (simp add: word_le_nat_alt *)
qed

text \<open>
  The loop keeps \<open>I lo hi\<close> of the size \<open>lo\<close> that answered and the size \<open>hi\<close> that did not, where \<open>hi\<close> may
  be 2^64, and ends in \<open>Q\<close>.
\<close>

lemma search_loop_rule:
  assumes "I (unat low) hi w" and "unat low < hi" and "hi \<le> 2 ^ 64" and "unat (ceiling - low) = hi - unat low" and gran: "0 < granularity opt"
    and up: "\<And>lo hi w c i w'. I lo hi w \<Longrightarrow> lo < unat c \<Longrightarrow> unat c < hi \<Longrightarrow> unat c = lo + (hi - lo) div 2 \<Longrightarrow>
      ProbeCandidate opt p c w = (True, i, w') \<Longrightarrow> I (unat c) hi (confirm p c w')"
    and down: "\<And>lo hi w c w'. I lo hi w \<Longrightarrow> lo < unat c \<Longrightarrow> unat c < hi \<Longrightarrow> unat c = lo + (hi - lo) div 2 \<Longrightarrow>
      ProbeCandidate opt p c w = (False, False, w') \<Longrightarrow> I lo (unat c) w'"
    and finish: "\<And>lo hi w. I lo hi w \<Longrightarrow> lo < hi \<Longrightarrow> hi - lo \<le> unat (granularity opt) \<or> pm_stopped (fst w) \<Longrightarrow> Q w"
    and unknown: "\<And>lo hi w c w'. I lo hi w \<Longrightarrow> lo < unat c \<Longrightarrow> unat c < hi \<Longrightarrow> ProbeCandidate opt p c w = (False, True, w') \<Longrightarrow> Q w'"
  shows "Q (search_loop opt p low ceiling w)"
  using assms(1-4)
proof (induction "unat (ceiling - low)" arbitrary: low hi ceiling w rule: less_induct)
  case less
  let ?c = "low + (ceiling - low) div 2"
  show ?case
  proof (cases "\<not> granularity opt < ceiling - low \<or> pm_stopped (fst w)")
    case True
    then have "hi - unat low \<le> unat (granularity opt) \<or> pm_stopped (fst w)" using less.prems(4) by (simp add: word_less_nat_alt not_less)
    then show ?thesis using True finish [OF less.prems(1,2)] by (simp add: search_loop.simps [of opt p low])
  next
    case False
    then have big: "1 < unat (ceiling - low)" using gran by (auto simp: word_less_nat_alt)
    have sum: "unat low + unat (ceiling - low) = hi" using less.prems(2,4) by simp
    then have c: "unat ?c = unat low + (hi - unat low) div 2" and low: "\<not> ?c \<le> low"
      using gap_half [OF _ big] less.prems(3,4) by simp_all
    have range: "unat low < unat ?c" "unat ?c < hi" using big less.prems(2,4) by (simp_all add: c)
    have gap: "unat (ceiling - ?c) = hi - unat ?c" "unat (?c - low) = unat ?c - unat low"
      using search_gap_up(1) [OF low] less.prems(4) by (simp_all add: c half_gap)
    obtain a i w' where pc: "ProbeCandidate opt p ?c w = (a, i, w')" by (metis prod.exhaust)
    have step: "search_loop opt p low ceiling w =
        (if a then search_loop opt p ?c ceiling (confirm p ?c w') else if i then w' else search_loop opt p low ?c w')"
      using False low pc by (subst search_loop.simps) (simp add: Let_def)
    show ?thesis
    proof (cases a)
      case True
      have "I (unat ?c) hi (confirm p ?c w')" using up [OF less.prems(1) range c] pc True by simp
      then show ?thesis using True step less.hyps [of ceiling ?c hi] gap(1) range less.prems by simp
    next
      case no: False
      show ?thesis
      proof (cases i)
        case True
        then show ?thesis using no step unknown [OF less.prems(1) range] pc by simp
      next
        case False
        have "I (unat low) (unat ?c) w'" using down [OF less.prems(1) range c] pc no False by simp
        then show ?thesis using no False step less.hyps [of ?c low "unat ?c"] gap(2) range less.prems by simp
      qed
    qed
  qed
qed

section \<open>Bounds\<close>

lemma OptionsValidate_ok [ok_iff]:
  "OptionsValidate opt = Ok () \<longleftrightarrow>
     2 * probe_overhead opt \<le> min_mtu opt \<and> min_mtu opt \<le> base_mtu opt \<and> base_mtu opt \<le> max_mtu opt \<and>
     0 < granularity opt \<and> 0 < max_probes opt \<and> 0 < confirm_burst opt \<and> 0 < probe_timeout opt \<and> 0 < black_hole_threshold opt"
  by (auto simp: OptionsValidate_def not_less word_gt_0)

text \<open>The confirmed size is none or between the base and the limit; the failure count is below its threshold.\<close>

definition mtu_ok :: "PathMtuOptions \<Rightarrow> u64 \<Rightarrow> PathMtuDiscovery \<Rightarrow> bool" where
  "mtu_ok opt limit d \<longleftrightarrow>
     (pm_confirmed d = 0 \<or> base_mtu opt \<le> pm_confirmed d \<and> pm_confirmed d \<le> max_mtu opt \<and> pm_confirmed d \<le> limit) \<and>
     failures_ok opt d"

text \<open>A probe or a full burst comes back only from sizes up to the path's capacity, the largest size at which what the
  prober sends comes back: bursts where it has them, which is what a stream needs, and single probes where it has not.\<close>

definition carries :: "PathMtuOptions \<Rightarrow> 'e PathMtuProber \<Rightarrow> u64 \<Rightarrow> bool" where
  "carries opt p limit \<longleftrightarrow>
     (\<forall>f s t w. probe_one p = Some f \<and> fst (f s t w) = Some True \<longrightarrow> s + probe_overhead opt \<le> limit) \<and>
     (\<forall>f s n t w r. probe_burst p = Some f \<and> fst (f s n t w) = Some r \<and> n \<le> r \<longrightarrow> s + probe_overhead opt \<le> limit)"

lemma carries_acknowledged:
  assumes "carries opt p limit" and "ProbeCandidate opt p c w = (True, i, w')"
  shows "c \<le> limit"
proof -
  obtain v where v: "send_probe opt p c v = (Some True, w')" using ProbeCandidate_acknowledged [OF assms(2)] by blast
  show ?thesis
  proof (cases "probe_burst p")
    case (Some f)
    then obtain r where "fst (f (c - probe_overhead opt) (confirm_burst opt) (probe_timeout opt) v) = Some r" "confirm_burst opt \<le> r"
      using v by (auto simp: send_probe_def Let_def split: prod.splits)
    then have "c - probe_overhead opt + probe_overhead opt \<le> limit" using assms(1) Some unfolding carries_def by blast
    then show ?thesis by simp
  next
    case None
    then obtain f where "probe_one p = Some f" "fst (f (c - probe_overhead opt) (probe_timeout opt) v) = Some True"
      using v by (cases "probe_one p") (auto simp: send_probe_def Let_def)
    then have "c - probe_overhead opt + probe_overhead opt \<le> limit" using assms(1) unfolding carries_def by blast
    then show ?thesis by simp
  qed
qed

lemma mtu_ok_quiet: "0 < black_hole_threshold opt \<Longrightarrow> quiet opt n d d' \<Longrightarrow> mtu_ok opt limit d \<Longrightarrow> mtu_ok opt limit d'"
  by (simp add: mtu_ok_def quiet_def)

text \<open>Confirming a size: the callback may let others in, so the record is compared up to that.\<close>

lemma confirm_quiet:
  "polite opt p \<Longrightarrow> quiet opt 0 ((fst w)\<lparr>pm_confirmed := c\<rparr>) (fst (confirm p c w))"
  using apply_quiet [of opt p "on_discovery (\<lambda>d. d\<lparr>pm_confirmed := c\<rparr>) w" c] by (simp add: confirm_def on_discovery_def)

lemma search_gap:
  assumes "base_mtu opt \<le> max_mtu opt" and "0 < base_mtu opt"
  shows "unat (max_mtu opt + 1 - base_mtu opt) = Suc (unat (max_mtu opt)) - unat (base_mtu opt)"
proof -
  have "unat (max_mtu opt - base_mtu opt) = unat (max_mtu opt) - unat (base_mtu opt)" using assms(1) by (rule unat_sub)
  moreover have "unat (base_mtu opt) \<le> unat (max_mtu opt)" "0 < unat (base_mtu opt)" "unat (max_mtu opt) < 2 ^ 64"
    using assms unsigned_less [of "max_mtu opt", where ?'a = nat] by (simp_all add: word_le_nat_alt word_less_nat_alt)
  moreover have "unat (max_mtu opt - base_mtu opt + 1) = Suc (unat (max_mtu opt - base_mtu opt))"
    using calculation by (simp add: unat_word_ariths)
  ultimately show ?thesis by (simp add: algebra_simps)
qed

text \<open>The search from the base size, as a rule over the sizes between the bounds.\<close>

lemma base_search_rule:
  assumes "base_mtu opt \<le> max_mtu opt" and "0 < base_mtu opt" and "0 < granularity opt"
    and "I (unat (base_mtu opt)) (Suc (unat (max_mtu opt))) w"
    and "\<And>lo hi w c i w'. I lo hi w \<Longrightarrow> lo < unat c \<Longrightarrow> unat c < hi \<Longrightarrow> unat c = lo + (hi - lo) div 2 \<Longrightarrow>
      ProbeCandidate opt p c w = (True, i, w') \<Longrightarrow> I (unat c) hi (confirm p c w')"
    and "\<And>lo hi w c w'. I lo hi w \<Longrightarrow> lo < unat c \<Longrightarrow> unat c < hi \<Longrightarrow> unat c = lo + (hi - lo) div 2 \<Longrightarrow>
      ProbeCandidate opt p c w = (False, False, w') \<Longrightarrow> I lo (unat c) w'"
    and "\<And>lo hi w. I lo hi w \<Longrightarrow> lo < hi \<Longrightarrow> hi - lo \<le> unat (granularity opt) \<or> pm_stopped (fst w) \<Longrightarrow> Q w"
    and "\<And>lo hi w c w'. I lo hi w \<Longrightarrow> lo < unat c \<Longrightarrow> unat c < hi \<Longrightarrow> ProbeCandidate opt p c w = (False, True, w') \<Longrightarrow> Q w'"
  shows "Q (search_loop opt p (base_mtu opt) (max_mtu opt + 1) w)"
proof -
  have lt: "unat (base_mtu opt) < Suc (unat (max_mtu opt))" using assms(1) by (simp add: word_le_nat_alt)
  have le: "Suc (unat (max_mtu opt)) \<le> 2 ^ 64" using unsigned_less [of "max_mtu opt", where ?'a = nat] by simp
  show ?thesis
    apply (rule search_loop_rule [where I = I and Q = Q and p = p, OF assms(4) lt le search_gap [OF assms(1,2)] assms(3)])
    subgoal by (rule assms(5))
    subgoal by (rule assms(6))
    subgoal by (rule assms(7))
    subgoal by (rule assms(8))
    done
qed

text \<open>How a search goes.\<close>

definition search_start :: "'e world \<Rightarrow> 'e world" where
  "search_start w = on_discovery (\<lambda>d. SetState kBase (d\<lparr>pm_black_hole := False, pm_failures := 0, pm_confirmed := 0\<rparr>)) w"

definition search_above :: "PathMtuOptions \<Rightarrow> 'e PathMtuProber \<Rightarrow> 'e world \<Rightarrow> 'e world" where
  "search_above opt p w = on_discovery (SetState kSearchComplete) (RestoreConfirmed p
     (search_loop opt p (base_mtu opt) (max_mtu opt + 1) (on_discovery (SetState kSearching) (confirm p (base_mtu opt) w))))"

lemma Search_idle: "pm_stopped (fst w) \<or> pm_state (fst w) = kError \<Longrightarrow> Search opt p w = (pm_confirmed (fst w), w)"
  unfolding Search_def by (rule if_P)

lemma Search_goes:
  assumes "\<not> (pm_stopped (fst w) \<or> pm_state (fst w) = kError)" and "ProbeCandidate opt p (base_mtu opt) (search_start w) = (a, i, w2)"
  shows "Search opt p w =
    (if a then (pm_confirmed (fst (search_above opt p w2)), search_above opt p w2)
     else if i then (0, w2) else (0, on_discovery (SetState kError) w2))"
proof -
  have "Search opt p w = (case ProbeCandidate opt p (base_mtu opt) (search_start w) of
      (False, True, w2) \<Rightarrow> (0, w2) | (False, False, w2) \<Rightarrow> (0, on_discovery (SetState kError) w2)
    | (True, _, w2) \<Rightarrow> (pm_confirmed (fst (search_above opt p w2)), search_above opt p w2))"
    unfolding Search_def search_start_def search_above_def Let_def using assms(1) by (rule if_not_P)
  then show ?thesis using assms(2) by (cases a; cases i) simp_all
qed

lemma SetState_fields [simp]:
  "pm_state (SetState s d) = s" "pm_confirmed (SetState s d) = pm_confirmed d" "pm_failures (SetState s d) = pm_failures d"
  "pm_probes_sent (SetState s d) = pm_probes_sent d" "pm_stopped (SetState s d) = pm_stopped d"
  "pm_black_hole (SetState s d) = pm_black_hole d"
  by (simp_all add: SetState_def notify_def)

lemma on_discovery_fst [simp]: "fst (on_discovery f w) = f (fst w)" "snd (on_discovery f w) = snd w"
  by (simp_all add: on_discovery_def)

lemma mtu_ok_SetState [simp]:
  "failures_ok opt (SetState s d) = failures_ok opt d" "mtu_ok opt limit (SetState s d) = mtu_ok opt limit d"
  by (simp_all add: mtu_ok_def failures_ok_def)

lemma mtu_ok_start: "0 < black_hole_threshold opt \<Longrightarrow> mtu_ok opt limit (fst (search_start w))"
  by (simp add: search_start_def mtu_ok_def failures_ok_def)

lemma confirm_ok:
  assumes "polite opt p" and "0 < black_hole_threshold opt" and "mtu_ok opt limit (fst w)"
    and "base_mtu opt \<le> c" and "c \<le> max_mtu opt" and "c \<le> limit"
  shows "mtu_ok opt limit (fst (confirm p c w))"
proof (rule mtu_ok_quiet [OF assms(2) confirm_quiet [OF assms(1)]])
  show "mtu_ok opt limit ((fst w)\<lparr>pm_confirmed := c\<rparr>)" using assms(3-6) by (simp add: mtu_ok_def failures_ok_def)
qed

lemma probe_ok:
  "polite opt p \<Longrightarrow> 0 < black_hole_threshold opt \<Longrightarrow> mtu_ok opt limit (fst w) \<Longrightarrow> ProbeCandidate opt p c w = (a, i, w') \<Longrightarrow> mtu_ok opt limit (fst w')"
  using mtu_ok_quiet ProbeCandidate_quiet by blast

lemma search_above_ok:
  assumes "polite opt p" and "carries opt p limit" and valid: "OptionsValidate opt = Ok ()" and pos: "0 < base_mtu opt"
    and "base_mtu opt \<le> limit" and "mtu_ok opt limit (fst w)"
  shows "mtu_ok opt limit (fst (search_above opt p w))"
proof -
  have opts: "base_mtu opt \<le> max_mtu opt" "0 < granularity opt" "0 < black_hole_threshold opt"
    using valid by (simp_all add: OptionsValidate_ok)
  let ?w = "on_discovery (SetState kSearching) (confirm p (base_mtu opt) w)"
  have "mtu_ok opt limit (fst (search_loop opt p (base_mtu opt) (max_mtu opt + 1) ?w))"
  proof (rule base_search_rule [where Q = "\<lambda>w. mtu_ok opt limit (fst w)" and p = p
        and I = "\<lambda>lo hi w. mtu_ok opt limit (fst w) \<and> unat (base_mtu opt) \<le> lo \<and> hi \<le> Suc (unat (max_mtu opt))", OF opts(1) pos opts(2)])
    show "mtu_ok opt limit (fst ?w) \<and> unat (base_mtu opt) \<le> unat (base_mtu opt) \<and> Suc (unat (max_mtu opt)) \<le> Suc (unat (max_mtu opt))"
      using confirm_ok [OF assms(1) opts(3) assms(6)] opts(1) assms(5) by simp
  next
    fix lo hi w c i w'
    assume I: "mtu_ok opt limit (fst w) \<and> unat (base_mtu opt) \<le> lo \<and> hi \<le> Suc (unat (max_mtu opt))" and c: "lo < unat c" "unat c < hi"
      and pc: "ProbeCandidate opt p c w = (True, i, w')"
    have "base_mtu opt \<le> c" "c \<le> max_mtu opt" using I c by (simp_all add: word_le_nat_alt)
    then show "mtu_ok opt limit (fst (confirm p c w')) \<and> unat (base_mtu opt) \<le> unat c \<and> hi \<le> Suc (unat (max_mtu opt))"
      using confirm_ok [OF assms(1) opts(3) probe_ok [OF assms(1) opts(3) _ pc]] carries_acknowledged [OF assms(2) pc] I
      by (simp add: word_le_nat_alt)
  qed (use probe_ok [OF assms(1) opts(3)] in auto)
  then show ?thesis
    using mtu_ok_quiet [OF opts(3) RestoreConfirmed_quiet [OF assms(1)]] by (simp add: search_above_def)
qed

lemma Search_ok:
  assumes "OptionsValidate opt = Ok ()" and "0 < base_mtu opt" and "polite opt p" and "carries opt p limit"
    and "mtu_ok opt limit (fst w)" and "Search opt p w = (c, w')"
  shows "mtu_ok opt limit (fst w')" and "c = 0 \<or> c = pm_confirmed (fst w')"
proof -
  have "mtu_ok opt limit (fst w') \<and> (c = 0 \<or> c = pm_confirmed (fst w'))"
  proof (cases "pm_stopped (fst w) \<or> pm_state (fst w) = kError")
  case True
  then show ?thesis using assms(5,6) Search_idle [OF True, of opt p] by (auto simp: mtu_ok_def)
next
  case False
  have thr: "0 < black_hole_threshold opt" using assms(1) by (simp add: OptionsValidate_ok)
  obtain a i w2 where pc: "ProbeCandidate opt p (base_mtu opt) (search_start w) = (a, i, w2)" by (metis prod.exhaust)
  have w2: "mtu_ok opt limit (fst w2)" using probe_ok [OF assms(3) thr mtu_ok_start [OF thr] pc] .
  have above: "mtu_ok opt limit (fst (search_above opt p w2))" if a
    using search_above_ok [OF assms(3,4,1,2) _ w2] carries_acknowledged [OF assms(4), of "base_mtu opt" "search_start w" i w2] pc that by simp
  then show ?thesis using assms(6) w2 above unfolding Search_goes [OF False pc] by (auto simp: mtu_ok_def split: if_splits)
qed
  then show "mtu_ok opt limit (fst w')" and "c = 0 \<or> c = pm_confirmed (fst w')" by blast+
qed

section \<open>Convergence\<close>

text \<open>A transport over a path of a fixed capacity: every size is taken and becomes the association's, a full
  burst comes back exactly up to the capacity, and nobody interferes.\<close>

definition steady_path :: "PathMtuOptions \<Rightarrow> 'e PathMtuProber \<Rightarrow> u64 \<Rightarrow> ('e \<Rightarrow> u64) \<Rightarrow> bool" where
  "steady_path opt p limit mtu \<longleftrightarrow>
     (\<forall>s w. \<exists>e. apply_size p s w = (True, fst w, e) \<and> mtu e = s) \<and>
     (\<exists>f. probe_burst p = Some f \<and>
       (\<forall>s n t w. \<exists>r e. f s n t w = (Some r, fst w, e) \<and> (n \<le> r \<longleftrightarrow> s + probe_overhead opt \<le> limit)))"

lemma steady_apply:
  assumes "steady_path opt p limit mtu"
  obtains e where "apply_size p s w = (True, fst w, e)" "mtu e = s"
  using assms unfolding steady_path_def by blast

lemma steady_send:
  assumes "steady_path opt p limit mtu"
  obtains e where "send_probe opt p c w = (Some (c \<le> limit), fst w, e)"
proof -
  obtain f where f: "probe_burst p = Some f" and
    law: "\<forall>s n t w. \<exists>r e. f s n t w = (Some r, fst w, e) \<and> (n \<le> r \<longleftrightarrow> s + probe_overhead opt \<le> limit)"
    using assms unfolding steady_path_def by blast
  obtain r e where "f (c - probe_overhead opt) (confirm_burst opt) (probe_timeout opt) w = (Some r, fst w, e)"
    "confirm_burst opt \<le> r \<longleftrightarrow> c - probe_overhead opt + probe_overhead opt \<le> limit"
    using law by blast
  then show ?thesis using that f by (simp add: send_probe_def Let_def)
qed

lemma steady_restore:
  assumes "steady_path opt p limit mtu"
  shows "fst (RestoreConfirmed p w) = fst w" and "pm_confirmed (fst w) \<noteq> 0 \<Longrightarrow> mtu (snd (RestoreConfirmed p w)) = pm_confirmed (fst w)"
  by (rule steady_apply [OF assms, of "pm_confirmed (fst w)" w]; simp add: RestoreConfirmed_def)+

lemma steady_confirm:
  assumes "steady_path opt p limit mtu"
  shows "fst (confirm p c w) = (fst w)\<lparr>pm_confirmed := c\<rparr>"
  by (rule steady_apply [OF assms, of c "on_discovery (\<lambda>d. d\<lparr>pm_confirmed := c\<rparr>) w"]) (simp add: confirm_def)

lemma steady_attempts:
  assumes "steady_path opt p limit mtu" and "\<not> pm_stopped (fst w)"
  shows "\<exists>w' k. probe_attempts (Suc n) opt p c w = (c \<le> limit, False, w') \<and> fst w' = (fst w)\<lparr>pm_probes_sent := k\<rparr>"
  using assms(2)
proof (induction n arbitrary: w)
  case (Suc n)
  obtain e where e: "apply_size p c w = (True, fst w, e)" by (rule steady_apply [OF assms(1)])
  let ?w = "on_discovery (\<lambda>d. d\<lparr>pm_probes_sent := pm_probes_sent d + 1\<rparr>) (fst w, e)"
  obtain e' where e': "send_probe opt p c ?w = (Some (c \<le> limit), fst ?w, e')" by (rule steady_send [OF assms(1)])
  let ?r = "RestoreConfirmed p (fst ?w, e')"
  have r: "fst ?r = fst ?w" using steady_restore(1) [OF assms(1), of "(fst ?w, e')"] by simp
  then have "\<not> pm_stopped (fst ?r)" using Suc.prems by simp
  from Suc.IH [OF this] obtain w' k where "probe_attempts (Suc n) opt p c ?r = (c \<le> limit, False, w')" "fst w' = (fst ?r)\<lparr>pm_probes_sent := k\<rparr>"
    by blast
  then show ?case using e e' r Suc.prems by (cases "c \<le> limit") (auto simp del: probe_attempts.simps(2) simp: probe_attempts.simps(2) [of "Suc n"])
next
  case 0
  obtain e where e: "apply_size p c w = (True, fst w, e)" by (rule steady_apply [OF assms(1)])
  let ?w = "on_discovery (\<lambda>d. d\<lparr>pm_probes_sent := pm_probes_sent d + 1\<rparr>) (fst w, e)"
  obtain e' where e': "send_probe opt p c ?w = (Some (c \<le> limit), fst ?w, e')" by (rule steady_send [OF assms(1)])
  then show ?case using e 0 steady_restore(1) [OF assms(1), of "(fst ?w, e')"] by (cases "c \<le> limit") (auto simp: Let_def)
qed

lemma steady_probe:
  assumes "steady_path opt p limit mtu" and "\<not> pm_stopped (fst w)" and "0 < max_probes opt"
    and "ProbeCandidate opt p c w = (a, i, w')"
  shows "a \<longleftrightarrow> c \<le> limit" and "\<not> i" and "\<exists>k. fst w' = (fst w)\<lparr>pm_probes_sent := k\<rparr>"
proof -
  obtain n where n: "nat (max_probes opt) = Suc n" using assms(3) by (metis gr0_implies_Suc zero_less_nat_eq)
  obtain w1 k where w1: "probe_attempts (Suc n) opt p c w = (c \<le> limit, False, w1)" "fst w1 = (fst w)\<lparr>pm_probes_sent := k\<rparr>"
    using steady_attempts [OF assms(1,2)] by blast
  have "ProbeCandidate opt p c w = (c \<le> limit, False, if c \<le> limit then w1 else RestoreConfirmed p w1)"
    unfolding ProbeCandidate_def n w1(1) by simp
  then have "(a, i, w') = (c \<le> limit, False, if c \<le> limit then w1 else RestoreConfirmed p w1)" unfolding assms(4) .
  then show "a \<longleftrightarrow> c \<le> limit" "\<not> i" "\<exists>k. fst w' = (fst w)\<lparr>pm_probes_sent := k\<rparr>"
    using w1(2) steady_restore(1) [OF assms(1), of w1] by auto
qed

text \<open>\<open>c\<close> is within the granularity of the best size for the path.\<close>

definition near_best :: "PathMtuOptions \<Rightarrow> u64 \<Rightarrow> u64 \<Rightarrow> bool" where
  "near_best opt limit c \<longleftrightarrow>
     base_mtu opt \<le> c \<and> c \<le> max_mtu opt \<and> c \<le> limit \<and>
     min (unat (max_mtu opt)) (unat limit) - unat c < unat (granularity opt)"

lemma steady_search_above:
  assumes path: "steady_path opt p limit mtu" and valid: "OptionsValidate opt = Ok ()" and pos: "0 < base_mtu opt"
    and base: "base_mtu opt \<le> limit" and go: "\<not> pm_stopped (fst w)"
  shows "near_best opt limit (pm_confirmed (fst (search_above opt p w)))"
    and "mtu (snd (search_above opt p w)) = pm_confirmed (fst (search_above opt p w))"
proof -
  have opts: "base_mtu opt \<le> max_mtu opt" "0 < granularity opt" "0 < max_probes opt"
    using valid by (simp_all add: OptionsValidate_ok)
  let ?w = "on_discovery (SetState kSearching) (confirm p (base_mtu opt) w)"
  let ?I = "\<lambda>lo hi w. unat (pm_confirmed (fst w)) = lo \<and> \<not> pm_stopped (fst w) \<and> unat (base_mtu opt) \<le> lo \<and> lo \<le> unat limit \<and>
    hi \<le> Suc (unat (max_mtu opt)) \<and> (hi = Suc (unat (max_mtu opt)) \<or> unat limit < hi)"
  have loop: "near_best opt limit (pm_confirmed (fst (search_loop opt p (base_mtu opt) (max_mtu opt + 1) ?w)))"
  proof (rule base_search_rule [where I = ?I and Q = "\<lambda>w. near_best opt limit (pm_confirmed (fst w))" and p = p, OF opts(1) pos opts(2)])
    show "?I (unat (base_mtu opt)) (Suc (unat (max_mtu opt))) ?w"
      using go base by (simp add: steady_confirm [OF path] word_le_nat_alt)
  next
    fix lo hi w c i w'
    assume I: "?I lo hi w" and c: "lo < unat c" "unat c < hi" and pc: "ProbeCandidate opt p c w = (True, i, w')"
    note sp = steady_probe [OF path conjunct1 [OF conjunct2 [OF I]] opts(3) pc]
    show "?I (unat c) hi (confirm p c w')"
      using I c sp by (auto simp: steady_confirm [OF path] word_le_nat_alt)
  next
    fix lo hi w c w'
    assume I: "?I lo hi w" and c: "lo < unat c" "unat c < hi" and pc: "ProbeCandidate opt p c w = (False, False, w')"
    note sp = steady_probe [OF path conjunct1 [OF conjunct2 [OF I]] opts(3) pc]
    show "?I lo (unat c) w'" using I c sp by (auto simp: word_le_nat_alt)
  next
    fix lo hi w
    assume "?I lo hi w" "lo < hi" "hi - lo \<le> unat (granularity opt) \<or> pm_stopped (fst w)"
    then show "near_best opt limit (pm_confirmed (fst w))" by (auto simp: near_best_def word_le_nat_alt)
  next
    fix lo hi w c w'
    assume I: "?I lo hi w" and pc: "ProbeCandidate opt p c w = (False, True, w')"
    show "near_best opt limit (pm_confirmed (fst w'))"
      using steady_probe(2) [OF path conjunct1 [OF conjunct2 [OF I]] opts(3) pc] by simp
  qed
  show "near_best opt limit (pm_confirmed (fst (search_above opt p w)))"
    using loop by (simp add: search_above_def steady_restore(1) [OF path])
  have "pm_confirmed (fst (search_loop opt p (base_mtu opt) (max_mtu opt + 1) ?w)) \<noteq> 0"
    using loop pos by (auto simp: near_best_def)
  then show "mtu (snd (search_above opt p w)) = pm_confirmed (fst (search_above opt p w))"
    by (simp add: search_above_def steady_restore [OF path])
qed

section \<open>The number of probes\<close>

definition budget :: "PathMtuOptions \<Rightarrow> int \<Rightarrow> nat \<Rightarrow> nat \<Rightarrow> 'e world \<Rightarrow> bool" where
  "budget opt limit lo hi w \<longleftrightarrow> (\<exists>k. hi - lo \<le> 2 ^ k \<and> pm_probes_sent (fst w) + max_probes opt * int k \<le> limit)"

lemma budget_step:
  assumes "budget opt limit lo hi w" and "pm_probes_sent (fst w') \<le> pm_probes_sent (fst w) + max_probes opt"
    and "2 \<le> hi - lo" and "hi' - lo' \<le> hi - lo - (hi - lo) div 2"
  shows "budget opt limit lo' hi' w'"
proof -
  obtain k where k: "hi - lo \<le> 2 ^ k" "pm_probes_sent (fst w) + max_probes opt * int k \<le> limit"
    using assms(1) by (auto simp: budget_def)
  then obtain j where j: "k = Suc j" using assms(3) by (cases k) auto
  have "hi' - lo' \<le> 2 ^ j" using assms(4) k(1) by (simp add: j)
  moreover have "pm_probes_sent (fst w') + max_probes opt * int j \<le> limit"
    using k(2) assms(2) by (simp add: j distrib_left)
  ultimately show ?thesis by (auto simp: budget_def)
qed

lemma budget_spent: "budget opt limit lo hi w \<Longrightarrow> 0 < max_probes opt \<Longrightarrow> pm_probes_sent (fst w) \<le> limit"
  by (auto simp: budget_def) (smt (verit) mult_nonneg_nonneg of_nat_0_le_iff)

lemma confirm_probes: "polite opt p \<Longrightarrow> pm_probes_sent (fst (confirm p c w)) = pm_probes_sent (fst w)"
  using confirm_quiet [of opt p c w] by (simp add: quiet_def)

lemma restore_probes: "polite opt p \<Longrightarrow> pm_probes_sent (fst (RestoreConfirmed p w)) = pm_probes_sent (fst w)"
  using RestoreConfirmed_quiet [of opt p w] by (simp add: quiet_def)

lemma probe_probes:
  assumes "polite opt p" and "0 < max_probes opt" and "ProbeCandidate opt p c w = (a, i, w')"
  shows "pm_probes_sent (fst w') \<le> pm_probes_sent (fst w) + max_probes opt"
  using ProbeCandidate_quiet [OF assms(1,3)] assms(2) by (simp add: quiet_def)

lemma search_above_probes:
  assumes polite: "polite opt p" and valid: "OptionsValidate opt = Ok ()" and pos: "0 < base_mtu opt"
    and k: "unat (max_mtu opt) - unat (base_mtu opt) < 2 ^ k"
  shows "pm_probes_sent (fst (search_above opt p w)) \<le> pm_probes_sent (fst w) + max_probes opt * int k"
proof -
  have opts: "base_mtu opt \<le> max_mtu opt" "0 < granularity opt" "0 < max_probes opt"
    using valid by (simp_all add: OptionsValidate_ok)
  let ?w = "on_discovery (SetState kSearching) (confirm p (base_mtu opt) w)"
  let ?B = "pm_probes_sent (fst w) + max_probes opt * int k"
  have "pm_probes_sent (fst (search_loop opt p (base_mtu opt) (max_mtu opt + 1) ?w)) \<le> ?B"
  proof (rule base_search_rule [where I = "budget opt ?B" and Q = "\<lambda>w. pm_probes_sent (fst w) \<le> ?B" and p = p, OF opts(1) pos opts(2)])
    have "Suc (unat (max_mtu opt)) - unat (base_mtu opt) \<le> 2 ^ k" using k by linarith
    then show "budget opt ?B (unat (base_mtu opt)) (Suc (unat (max_mtu opt))) ?w"
      unfolding budget_def using confirm_probes [OF polite, of "base_mtu opt" w] by (intro exI [of _ k]) simp
  next
    fix lo hi w c i w'
    assume I: "budget opt ?B lo hi w" and c: "lo < unat c" "unat c < hi" "unat c = lo + (hi - lo) div 2"
      and pc: "ProbeCandidate opt p c w = (True, i, w')"
    show "budget opt ?B (unat c) hi (confirm p c w')"
      by (rule budget_step [OF I]) (use c probe_probes [OF polite opts(3) pc] confirm_probes [OF polite, of c w'] in simp_all)
  next
    fix lo hi w c w'
    assume I: "budget opt ?B lo hi w" and c: "lo < unat c" "unat c < hi" "unat c = lo + (hi - lo) div 2"
      and pc: "ProbeCandidate opt p c w = (False, False, w')"
    have "unat c - lo \<le> hi - lo - (hi - lo) div 2" using c by linarith
    then show "budget opt ?B lo (unat c) w'" by (rule budget_step [OF I probe_probes [OF polite opts(3) pc], rotated]) (use c in linarith)
  next
    fix lo hi w c w'
    assume I: "budget opt ?B lo hi w" and c: "lo < unat c" "unat c < hi" and pc: "ProbeCandidate opt p c w = (False, True, w')"
    have "budget opt ?B (Suc 0) 0 w'" by (rule budget_step [OF I probe_probes [OF polite opts(3) pc]]) (use c in simp_all)
    then show "pm_probes_sent (fst w') \<le> ?B" using budget_spent opts(3) by blast
  qed (use budget_spent opts(3) in blast)
  then show ?thesis
    by (simp add: search_above_def restore_probes [OF polite])
qed

section \<open>The run loop\<close>








section \<open>A sample path\<close>

text \<open>A path of 4096 bytes; the transport's state is the association's size.\<close>

definition sample_path :: "u64 PathMtuProber" where
  "sample_path = \<lparr>apply_size = (\<lambda>s w. (True, fst w, s)), probe_one = None,
     probe_burst = Some (\<lambda>payload n t w. (Some (if payload + 108 \<le> 4096 then n else n - 1), w))\<rparr>"

lemma sample_options: "OptionsValidate default_options = Ok ()" "0 < base_mtu default_options"
  by (simp_all add: OptionsValidate_ok default_options_def)

lemma sample_steady: "steady_path default_options sample_path 4096 (\<lambda>e. e)"
  by (auto simp: steady_path_def sample_path_def default_options_def)

lemma sample_polite: "polite default_options sample_path" "carries default_options sample_path 4096"
  by (auto simp: polite_def carries_def sample_path_def default_options_def others_none split: if_splits)

definition sample_settled :: "u64 world" where
  "sample_settled = (\<lparr>pm_state = kSearchComplete, pm_confirmed = 4088, pm_failures = 0, pm_probes_sent = 16,
     pm_stopped = False, pm_black_hole = False, pm_changed = 3\<rparr>, 4088)"

lemma sample_search: "Search default_options sample_path (NewDiscovery, 0) = (4088, sample_settled)"
  by code_simp

lemma sample_new: "mtu_ok default_options limit NewDiscovery"
  by (simp add: mtu_ok_def failures_ok_def NewDiscovery_def default_options_def)

section \<open>Properties of path MTU discovery\<close>

text \<open>C31. Whatever the path loses, whatever the transport refuses and whatever other fibers report meanwhile,
  a search ends with no confirmed size or with one the path carries, between the base and the maximum, and
  returns it; the count of failures stays below its threshold.  The callbacks do not re-enter the engine
  and probes come back only from sizes the path carries.\<close>

theorem search_confirms_only_carried:
  assumes "OptionsValidate opt = Ok ()" and "0 < base_mtu opt" and "polite opt p" and "carries opt p limit"
    and "mtu_ok opt limit (fst w)" and "Search opt p w = (c, w')"
  shows "mtu_ok opt limit (fst w') \<and> (c = 0 \<or> c = pm_confirmed (fst w') \<and> base_mtu opt \<le> c \<and> c \<le> max_mtu opt \<and> c \<le> limit)"
  using Search_ok [OF assms] by (auto simp: mtu_ok_def)

theorem search_confirms_only_carried_witness:
  "OptionsValidate default_options = Ok () \<and> 0 < base_mtu default_options \<and> polite default_options sample_path \<and>
   carries default_options sample_path 4096 \<and> mtu_ok default_options 4096 NewDiscovery \<and>
   Search default_options sample_path (NewDiscovery, 0) = (4088, sample_settled) \<and>
   mtu_ok default_options 4096 (fst sample_settled) \<and> base_mtu default_options \<le> 4088 \<and> (4088 :: u64) \<le> 4096"
  using search_confirms_only_carried [OF sample_options sample_polite, of "(NewDiscovery, 0)"] sample_search sample_new
    sample_options sample_polite by simp

text \<open>C32. On a path of a fixed capacity of at least the base size, a search settles: it returns a size the path
  carries, less than the granularity below the best one within the maximum, and leaves the association at it.\<close>

theorem search_converges:
  assumes "OptionsValidate opt = Ok ()" and "0 < base_mtu opt" and "steady_path opt p limit mtu" and "base_mtu opt \<le> limit"
    and "\<not> pm_stopped (fst w)" and "pm_state (fst w) \<noteq> kError"
  shows "case Search opt p w of (c, w') \<Rightarrow>
    near_best opt limit c \<and> mtu (snd w') = c \<and> pm_confirmed (fst w') = c \<and> pm_state (fst w') = kSearchComplete"
proof -
  obtain a i w2 where pc: "ProbeCandidate opt p (base_mtu opt) (search_start w) = (a, i, w2)" by (metis prod.exhaust)
  have start: "\<not> pm_stopped (fst (search_start w))" using assms(5) by (simp add: search_start_def)
  have probes: "0 < max_probes opt" using assms(1) by (simp add: OptionsValidate_ok)
  note sp = steady_probe [OF assms(3) start probes pc]
  have a and go: "\<not> pm_stopped (fst w2)" using sp assms(4) start by auto
  note above = steady_search_above [OF assms(3,1,2,4) go]
  have "pm_state (fst (search_above opt p w2)) = kSearchComplete" by (simp add: search_above_def)
  then show ?thesis using above \<open>a\<close> Search_goes [OF _ pc] assms(5,6) by simp
qed

theorem search_converges_witness:
  "OptionsValidate default_options = Ok () \<and> steady_path default_options sample_path 4096 (\<lambda>e. e) \<and> base_mtu default_options \<le> 4096 \<and>
   \<not> pm_stopped NewDiscovery \<and> pm_state NewDiscovery \<noteq> kError \<and>
   Search default_options sample_path (NewDiscovery, 0) = (4088, sample_settled) \<and>
   near_best default_options 4096 4088 \<and> pm_state (fst sample_settled) = kSearchComplete"
  using search_converges [OF sample_options sample_steady, of "(NewDiscovery, 0)"] sample_options sample_steady
  by (simp add: sample_search) (simp add: default_options_def NewDiscovery_def)

text \<open>C33. A search sends a bounded number of probes: with \<open>max_mtu - base_mtu < 2^k\<close> at most \<open>max_probes\<close>
  attempts at each of \<open>k + 1\<close> candidates, whatever the transport answers.\<close>

theorem search_probe_bound:
  assumes "OptionsValidate opt = Ok ()" and "0 < base_mtu opt" and "polite opt p"
    and "unat (max_mtu opt) - unat (base_mtu opt) < 2 ^ k" and "Search opt p w = (c, w')"
  shows "pm_probes_sent (fst w') \<le> pm_probes_sent (fst w) + max_probes opt * int (Suc k)"
proof (cases "pm_stopped (fst w) \<or> pm_state (fst w) = kError")
  case True
  then show ?thesis using assms(1,5) Search_idle [OF True, of opt p] by (simp add: OptionsValidate_ok)
next
  case False
  have mp: "0 < max_probes opt" using assms(1) by (simp add: OptionsValidate_ok)
  obtain a i w2 where pc: "ProbeCandidate opt p (base_mtu opt) (search_start w) = (a, i, w2)" by (metis prod.exhaust)
  have w2: "pm_probes_sent (fst w2) \<le> pm_probes_sent (fst w) + max_probes opt"
    using probe_probes [OF assms(3) mp pc] by (simp add: search_start_def)
  have k: "0 \<le> max_probes opt * int k" using mp by simp
  have "w' = (if a then search_above opt p w2 else if i then w2 else on_discovery (SetState kError) w2)"
    using assms(5) unfolding Search_goes [OF False pc] by (auto split: if_splits)
  then show ?thesis using w2 k search_above_probes [OF assms(3,1,2,4), of w2] by (simp add: distrib_left)
qed

theorem search_probe_bound_witness:
  "OptionsValidate default_options = Ok () \<and> polite default_options sample_path \<and>
   unat (max_mtu default_options) - unat (base_mtu default_options) < 2 ^ 13 \<and>
   Search default_options sample_path (NewDiscovery, 0) = (4088, sample_settled) \<and> pm_probes_sent (fst sample_settled) \<le> 42"
  using search_probe_bound [OF sample_options sample_polite(1) _ sample_search, of 13] sample_options sample_polite sample_search
  by (simp add: NewDiscovery_def) (simp add: default_options_def)






text \<open>A path whose transport is not ready: no size can be applied.\<close>

definition unready_path :: "u64 PathMtuProber" where
  "unready_path = \<lparr>apply_size = (\<lambda>s w. (False, w)), probe_one = None, probe_burst = Some (\<lambda>payload n t w. (None, w))\<rparr>"

definition unready :: "u64 world" where
  "unready = (NewDiscovery\<lparr>pm_state := kBase, pm_changed := 1\<rparr>, 0)"


lemma unready_search: "Search default_options unready_path (NewDiscovery, 0) = (0, unready)"
  by code_simp

lemma unready_retry: "run_reachable default_options unready_path 0 (RRetry, unready)"
proof -
  have "run_step default_options unready_path (RTop, NewDiscovery, 0) (RSearched 0, unready)"
    by (rule top_search) (simp_all add: NewDiscovery_def unready_search [unfolded NewDiscovery_def])
  then have "run_reachable default_options unready_path 0 (RSearched 0, unready)" using run_start run_next by fast
  then show ?thesis
    using run_next [OF _ searched [of default_options unready_path 0 unready]] by (simp add: unready_def NewDiscovery_def)
qed

text \<open>A stop between the check after a search and the reading of the event is not noticed before the retry: the loop
  sleeps with the stop pending, on an event that nobody has notified.\<close>

lemma retry_can_miss_stop:
  "run_reachable default_options unready_path 0 (RRetrySleep (pm_changed (Stop (fst unready))), on_discovery Stop unready) \<and>
   pm_stopped (fst (on_discovery Stop unready))"
proof -
  have "run_reachable default_options unready_path 0 (RRetry, on_discovery Stop unready)"
    using run_next [OF unready_retry other_stop] .
  then show ?thesis using run_next [OF _ retry] by (fastforce simp: mtu_defs)
qed


end
