(* ===== verification/Absl_Text.thy ===== *)
theory Absl_Text
  imports A11_Prelude
begin

text \<open>
  The text functions of Abseil the transports call, as a record of parameters with the laws the code relies
  on, and \<open>std::string_view\<close> searches, which are definitions.  \<open>sample_text\<close> is an instance of the record
  that satisfies the laws.
\<close>

record absl_text =
  AsciiStrToLower :: "string \<Rightarrow> string"
  AsciiStrToUpper :: "string \<Rightarrow> string"
  StripAsciiWhitespace :: "string \<Rightarrow> string"
  EqualsIgnoreCase :: "string \<Rightarrow> string \<Rightarrow> bool"
  StrSplit :: "string \<Rightarrow> char \<Rightarrow> string list"
  StrSplitMax :: "string \<Rightarrow> char \<Rightarrow> nat \<Rightarrow> string list"
  SimpleAtoi :: "string \<Rightarrow> int option"
  SimpleAtoU32 :: "string \<Rightarrow> u32 option"
  SimpleAtoU64 :: "string \<Rightarrow> u64 option"
  SimpleHexAtoi :: "string \<Rightarrow> u64 option"
  Hex :: "u64 \<Rightarrow> string"

abbreviation CR :: char where "CR \<equiv> CHR 0x0D"
abbreviation LF :: char where "LF \<equiv> CHR 0x0A"
abbreviation TAB :: char where "TAB \<equiv> CHR 0x09"

definition is_space :: "char \<Rightarrow> bool" where
  "is_space c \<longleftrightarrow> c \<in> {CHR '' '', TAB, LF, CHR 0x0B, CHR 0x0C, CR}"

definition is_upper :: "char \<Rightarrow> bool" where
  "is_upper c \<longleftrightarrow> 65 \<le> (of_char c :: nat) \<and> (of_char c :: nat) \<le> 90"

definition is_lower :: "char \<Rightarrow> bool" where
  "is_lower c \<longleftrightarrow> 97 \<le> (of_char c :: nat) \<and> (of_char c :: nat) \<le> 122"

definition is_digit :: "char \<Rightarrow> bool" where
  "is_digit c \<longleftrightarrow> 48 \<le> (of_char c :: nat) \<and> (of_char c :: nat) \<le> 57"

definition is_hex :: "char \<Rightarrow> bool" where
  "is_hex c \<longleftrightarrow> is_digit c \<or> 97 \<le> (of_char c :: nat) \<and> (of_char c :: nat) \<le> 102"

section \<open>Laws\<close>

text \<open>A text with no whitespace at either end.\<close>

definition trimmed :: "string \<Rightarrow> bool" where
  "trimmed s \<longleftrightarrow> s = [] \<or> \<not> is_space (hd s) \<and> \<not> is_space (last s)"

definition case_laws :: "absl_text \<Rightarrow> bool" where
  "case_laws tx \<longleftrightarrow>
     (\<forall>s. (\<forall>c\<in>set s. \<not> is_upper c) \<longrightarrow> AsciiStrToLower tx s = s) \<and>
     (\<forall>s. (\<forall>c\<in>set s. \<not> is_lower c) \<longrightarrow> AsciiStrToUpper tx s = s)"

definition strip_laws :: "absl_text \<Rightarrow> bool" where
  "strip_laws tx \<longleftrightarrow>
     (\<forall>a s b. (\<forall>c\<in>set a \<union> set b. is_space c) \<and> trimmed s \<longrightarrow> StripAsciiWhitespace tx (a @ s @ b) = s)"

definition split_laws :: "absl_text \<Rightarrow> bool" where
  "split_laws tx \<longleftrightarrow>
     (\<forall>a c n. c \<notin> set a \<or> n = 0 \<longrightarrow> StrSplitMax tx a c n = [a]) \<and>
     (\<forall>a b c n. c \<notin> set a \<longrightarrow> StrSplitMax tx (a @ c # b) c (Suc n) = a # StrSplitMax tx b c n)"

definition number_laws :: "absl_text \<Rightarrow> bool" where
  "number_laws tx \<longleftrightarrow>
     (\<forall>n. n < 2 ^ 31 \<longrightarrow> SimpleAtoi tx (dec n) = Some (int n)) \<and>
     (\<forall>n. SimpleHexAtoi tx (Hex tx n) = Some n) \<and> SimpleHexAtoi tx ''0'' = Some 0 \<and>
     (\<forall>n. Hex tx n \<noteq> [] \<and> (\<forall>c\<in>set (Hex tx n). is_hex c)) \<and>
     (\<forall>n. n < 2 ^ 32 \<longrightarrow> SimpleAtoU32 tx (dec n) = Some (of_nat n))"

section \<open>Searches in a \<open>string_view\<close>\<close>

text \<open>The text before the first \<open>c\<close> and the text after it, when there is one.\<close>

fun cut_at :: "char \<Rightarrow> string \<Rightarrow> (string \<times> string) option" where
  "cut_at c [] = None"
| "cut_at c (x # xs) = (if x = c then Some ([], xs) else map_option (\<lambda>(a, b). (x # a, b)) (cut_at c xs))"

lemma cut_at_None: "cut_at c s = None \<longleftrightarrow> c \<notin> set s"
  by (induction s) auto

lemma cut_at_append [simp]: "c \<notin> set a \<Longrightarrow> cut_at c (a @ c # b) = Some (a, b)"
  by (induction a) auto

lemma cut_at_Some: "cut_at c s = Some (a, b) \<longleftrightarrow> s = a @ c # b \<and> c \<notin> set a"
proof (induction s arbitrary: a)
  case (Cons x s)
  show ?case by (cases "x = c"; cases a) (auto simp: Cons.IH)
qed simp

lemma cut_at_shorter: "cut_at c s = Some (a, b) \<Longrightarrow> length b < length s"
  by (simp add: cut_at_Some)

text \<open>The position of the first occurrence of a text.\<close>

fun find_sub :: "string \<Rightarrow> string \<Rightarrow> nat option" where
  "find_sub p [] = (if p = [] then Some 0 else None)"
| "find_sub p (c # cs) = (if take (length p) (c # cs) = p then Some 0 else map_option Suc (find_sub p cs))"

section \<open>An instance\<close>

fun val_of :: "nat \<Rightarrow> nat \<Rightarrow> string \<Rightarrow> nat" where
  "val_of b acc [] = acc"
| "val_of b acc (c # cs) =
     val_of b (b * acc + (if is_digit c then of_char c - 48 else of_char c - 87)) cs"

fun hex_text :: "nat \<Rightarrow> string" where
  "hex_text n = (if n < 16 then [digit n] else hex_text (n div 16) @ [digit (n mod 16)])"

declare hex_text.simps [simp del]

fun split_max :: "string \<Rightarrow> char \<Rightarrow> nat \<Rightarrow> string list" where
  "split_max s c 0 = [s]"
| "split_max s c (Suc n) = (case cut_at c s of None \<Rightarrow> [s] | Some (a, b) \<Rightarrow> a # split_max b c n)"

definition lower_char :: "char \<Rightarrow> char" where
  "lower_char c = (if is_upper c then char_of (of_char c + 32 :: nat) else c)"

definition upper_char :: "char \<Rightarrow> char" where
  "upper_char c = (if is_lower c then char_of (of_char c - 32 :: nat) else c)"

definition sample_text :: absl_text where
  "sample_text = \<lparr>AsciiStrToLower = map lower_char, AsciiStrToUpper = map upper_char,
     StripAsciiWhitespace = (\<lambda>s. rev (dropWhile is_space (rev (dropWhile is_space s)))),
     EqualsIgnoreCase = (\<lambda>a b. map lower_char a = map lower_char b),
     StrSplit = (\<lambda>s c. split_max s c (length s)), StrSplitMax = split_max,
     SimpleAtoi = (\<lambda>s. Some (int (val_of 10 0 s))), SimpleAtoU32 = (\<lambda>s. Some (of_nat (val_of 10 0 s))), SimpleAtoU64 = (\<lambda>s. Some (of_nat (val_of 10 0 s))),
     SimpleHexAtoi = (\<lambda>s. Some (of_nat (val_of 16 0 s))), Hex = (\<lambda>n. hex_text (unat n))\<rparr>"

lemma val_of_snoc: "val_of b acc (s @ [c]) = b * val_of b acc s + (if is_digit c then of_char c - 48 else of_char c - 87)"
  by (induction b acc s rule: val_of.induct) simp_all

lemma digit_value: "n < 16 \<Longrightarrow> (if is_digit (digit n) then of_char (digit n) - 48 else of_char (digit n) - 87) = n"
  by (simp add: digit_def is_digit_def)

lemma digit_is_hex: "n < 16 \<Longrightarrow> is_hex (digit n)"
  by (simp add: digit_def is_digit_def is_hex_def)

lemma val_of_dec: "val_of 10 0 (dec n) = n"
proof (induction n rule: dec.induct)
  case (1 n)
  show ?case
  proof (cases "n < 10")
    case True
    then show ?thesis using digit_value [of n] by (subst dec.simps) simp
  next
    case False
    then show ?thesis using 1 digit_value [of "n mod 10"] by (subst dec.simps) (simp add: val_of_snoc)
  qed
qed

lemma val_of_hex_text: "val_of 16 0 (hex_text n) = n"
proof (induction n rule: hex_text.induct)
  case (1 n)
  show ?case
  proof (cases "n < 16")
    case True
    then show ?thesis using digit_value [of n] by (subst hex_text.simps) simp
  next
    case False
    then show ?thesis using 1 digit_value [of "n mod 16"] by (subst hex_text.simps) (simp add: val_of_snoc)
  qed
qed

lemma hex_text_hex: "hex_text n \<noteq> [] \<and> (\<forall>c\<in>set (hex_text n). is_hex c)"
proof (induction n rule: hex_text.induct)
  case (1 n)
  then show ?case by (cases "n < 16") (simp_all add: hex_text.simps [of n] digit_is_hex)
qed

lemma sample_number_laws: "number_laws sample_text"
  using hex_text_hex by (simp add: number_laws_def sample_text_def val_of_dec val_of_hex_text is_digit_def)

lemma sample_case_laws: "case_laws sample_text"
  by (auto simp: case_laws_def sample_text_def lower_char_def upper_char_def intro: map_idI)

lemma sample_split_laws: "split_laws sample_text"
proof -
  have "split_max a c n = [a]" if "c \<notin> set a \<or> n = 0" for a c n
  proof (cases n)
    case (Suc m)
    then have "cut_at c a = None" using that by (simp add: cut_at_None)
    then show ?thesis using Suc by simp
  qed simp
  then show ?thesis by (simp add: split_laws_def sample_text_def)
qed

lemma sample_strip_laws: "strip_laws sample_text"
proof -
  have "rev (dropWhile is_space (rev (dropWhile is_space (a @ s @ b)))) = s"
    if "\<forall>c\<in>set a \<union> set b. is_space c" "trimmed s" for a s b
  proof (cases "s = []")
    case True
    have "dropWhile is_space (a @ b) = []" using that(1) by (subst dropWhile_eq_Nil_conv) auto
    then show ?thesis unfolding True append_Nil by (simp only: rev.simps dropWhile.simps)
  next
    case False
    have "dropWhile is_space (a @ s @ b) = dropWhile is_space (s @ b)" using that(1) by (intro dropWhile_append2) auto
    then have "dropWhile is_space (a @ s @ b) = s @ b" using that(2) False by (cases s) (simp_all add: trimmed_def)
    moreover have "dropWhile is_space (rev b @ rev s) = dropWhile is_space (rev s)" using that(1) by (intro dropWhile_append2) auto
    then have "dropWhile is_space (rev b @ rev s) = rev s"
      using that(2) False by (cases s rule: rev_cases) (simp_all add: trimmed_def)
    ultimately show ?thesis by simp
  qed
  then show ?thesis unfolding strip_laws_def sample_text_def absl_text.select_convs by blast
qed

end
