(* ===== verification/Http1_Codec.thy ===== *)
theory Http1_Codec
  imports Absl_Text
begin

text \<open>
  HTTP header lists (\<open>cpp/a11/net/http2.cc\<close>) and the HTTP/1.1 codec (\<open>cpp/a11/net/internal/http1_codec.cc\<close>):
  message heads, body framing and the chunked transfer coding.  A header list is the source's vector of
  pairs.  Abseil's text functions are the parameter \<open>tx\<close>; SHA-1 and base64 are parameters of the handshake.
\<close>

section \<open>Header lists\<close>

type_synonym HttpHeaders = "(string \<times> string) list"

definition IsLowercaseToken :: "string \<Rightarrow> bool" where
  "IsLowercaseToken text' \<longleftrightarrow>
     list_all (\<lambda>c. c = CHR ''-'' \<or> c = CHR ''_'' \<or> c = CHR ''.'' \<or> is_digit c \<or> is_lower c) text'"

definition NormalizeHttpHeaders :: "absl_text \<Rightarrow> HttpHeaders \<Rightarrow> HttpHeaders" where
  "NormalizeHttpHeaders tx headers = map (\<lambda>(name, v). (AsciiStrToLower tx name, v)) headers"

definition GetHttpHeader :: "absl_text \<Rightarrow> HttpHeaders \<Rightarrow> string \<Rightarrow> string option" where
  "GetHttpHeader tx headers name = map_of headers (AsciiStrToLower tx name)"

definition EraseHttpHeader :: "absl_text \<Rightarrow> HttpHeaders \<Rightarrow> string \<Rightarrow> HttpHeaders" where
  "EraseHttpHeader tx headers name = filter (\<lambda>header. fst header \<noteq> AsciiStrToLower tx name) headers"

definition SetHttpHeader :: "absl_text \<Rightarrow> HttpHeaders \<Rightarrow> string \<Rightarrow> string \<Rightarrow> HttpHeaders" where
  "SetHttpHeader tx headers name v =
     (let name' = AsciiStrToLower tx name in EraseHttpHeader tx headers name' @ [(name', v)])"

definition ValidateHttpHeaders :: "HttpHeaders \<Rightarrow> unit result" where
  "ValidateHttpHeaders headers =
     r_forall (\<lambda>(name, v).
       if name = [] \<or> hd name = CHR '':''
       then Err kInvalidArgument ''Application HTTP headers must have non-pseudo field names''
       else if \<not> IsLowercaseToken name
       then Err kInvalidArgument (''Invalid lowercase HTTP/2 field name: '' @ name)
       else if CHR 0x00 \<in> set v \<or> CR \<in> set v \<or> LF \<in> set v
       then Err kInvalidArgument (''Invalid HTTP/2 field value for '' @ name)
       else Ok ()) headers"

section \<open>Message heads\<close>

record Http1RequestHead =
  rq_method :: string
  rq_target :: string
  rq_version :: string
  rq_headers :: HttpHeaders

record Http1ResponseHead =
  rs_status :: int
  rs_reason :: string
  rs_version :: string
  rs_headers :: HttpHeaders

definition remove_last :: "char \<Rightarrow> string \<Rightarrow> string" where
  "remove_last c line = (if line \<noteq> [] \<and> last line = c then butlast line else line)"

text \<open>The lines of a head from a position on; blank lines are skipped.\<close>

function lines_from :: "string \<Rightarrow> string list" where
  "lines_from s =
     (case cut_at LF s of
        None \<Rightarrow> (let line = remove_last CR s in if line = [] then [] else [line])
      | Some (l, rest) \<Rightarrow> (let line = remove_last CR l in (if line = [] then [] else [line]) @ lines_from rest))"
  by pat_completeness auto

termination lines_from
  by (relation "measure length") (auto dest: cut_at_shorter)

declare lines_from.simps [simp del]

definition SplitLines :: "string \<Rightarrow> string list result" where
  "SplitLines head_block =
     (let lines = lines_from head_block in
      if lines = [] then Err kInvalidArgument ''Empty HTTP/1.1 message head'' else Ok lines)"

definition header_line :: "absl_text \<Rightarrow> string \<Rightarrow> (string \<times> string) result" where
  "header_line tx line =
     (case cut_at (CHR '':'') line of
        None \<Rightarrow> Err kInvalidArgument (''Malformed HTTP/1.1 header line: '' @ line)
      | Some (name, v) \<Rightarrow>
          if name = [] then Err kInvalidArgument (''Malformed HTTP/1.1 header line: '' @ line)
          else if CHR '' '' \<in> set name \<or> TAB \<in> set name
          then Err kInvalidArgument (''Invalid whitespace in HTTP/1.1 header name: '' @ name)
          else Ok (AsciiStrToLower tx name, StripAsciiWhitespace tx v))"

definition ParseHeaderLines :: "absl_text \<Rightarrow> string list \<Rightarrow> HttpHeaders result" where
  "ParseHeaderLines tx lines = r_map (header_line tx) lines"

definition HeaderContainsToken :: "absl_text \<Rightarrow> HttpHeaders \<Rightarrow> string \<Rightarrow> string \<Rightarrow> bool" where
  "HeaderContainsToken tx headers name token =
     (case GetHttpHeader tx headers name of
        None \<Rightarrow> False
      | Some v \<Rightarrow> list_ex (\<lambda>piece. EqualsIgnoreCase tx (StripAsciiWhitespace tx piece) token) (StrSplit tx v (CHR '','')))"

definition FindHeaderBlockEnd :: "string \<Rightarrow> nat option" where
  "FindHeaderBlockEnd data =
     (case (find_sub [CR, LF, CR, LF] data, find_sub [LF, LF] data) of
        (None, None) \<Rightarrow> None
      | (Some crlf, None) \<Rightarrow> Some (crlf + 4)
      | (None, Some lf) \<Rightarrow> Some (lf + 2)
      | (Some crlf, Some lf) \<Rightarrow> Some (if lf < crlf then lf + 2 else crlf + 4))"

definition ParseRequestHead :: "absl_text \<Rightarrow> string \<Rightarrow> Http1RequestHead result" where
  "ParseRequestHead tx head_block =
     r_bind (SplitLines head_block) (\<lambda>lines.
       let malformed = Err kInvalidArgument (''Malformed HTTP/1.1 request line: '' @ hd lines) in
       case StrSplitMax tx (hd lines) (CHR '' '') 2 of
         [method, target, version] \<Rightarrow>
           if method = [] \<or> target = [] then malformed
           else if version \<noteq> ''HTTP/1.1'' \<and> version \<noteq> ''HTTP/1.0''
           then Err kInvalidArgument (''Unsupported HTTP version: '' @ version)
           else r_bind (ParseHeaderLines tx (tl lines)) (\<lambda>headers.
             Ok \<lparr>rq_method = AsciiStrToUpper tx method, rq_target = target, rq_version = version, rq_headers = headers\<rparr>)
       | _ \<Rightarrow> malformed)"

definition ParseResponseHead :: "absl_text \<Rightarrow> string \<Rightarrow> Http1ResponseHead result" where
  "ParseResponseHead tx head_block =
     r_bind (SplitLines head_block) (\<lambda>lines.
       case StrSplitMax tx (hd lines) (CHR '' '') 2 of
         version # code # phrase \<Rightarrow>
           if version \<noteq> ''HTTP/1.1'' \<and> version \<noteq> ''HTTP/1.0''
           then Err kInvalidArgument (''Unsupported HTTP version: '' @ version)
           else
             let bad = Err kInvalidArgument (''Invalid HTTP/1.1 status code: '' @ code) in
             (case SimpleAtoi tx code of
                None \<Rightarrow> bad
              | Some status \<Rightarrow>
                  if status < 100 \<or> status > 599 then bad
                  else r_bind (ParseHeaderLines tx (tl lines)) (\<lambda>headers.
                    Ok \<lparr>rs_status = status, rs_reason = (case phrase of [reason] \<Rightarrow> reason | _ \<Rightarrow> []),
                      rs_version = version, rs_headers = headers\<rparr>))
       | _ \<Rightarrow> Err kInvalidArgument (''Malformed HTTP/1.1 status line: '' @ hd lines))"

section \<open>Body framing\<close>

datatype BodyFraming = kNone | kContentLength | kChunked | kUntilClose

record BodyPlan =
  bp_framing :: BodyFraming
  bp_content_length :: u64

definition PlanBody :: "absl_text \<Rightarrow> HttpHeaders \<Rightarrow> bool \<Rightarrow> BodyPlan result" where
  "PlanBody tx headers allow_until_close =
     (if HeaderContainsToken tx headers ''transfer-encoding'' ''chunked''
      then Ok \<lparr>bp_framing = kChunked, bp_content_length = 0\<rparr>
      else case GetHttpHeader tx headers ''content-length'' of
        Some length_header \<Rightarrow>
          (case SimpleAtoU64 tx length_header of
             None \<Rightarrow> Err kInvalidArgument (''Invalid Content-Length: '' @ length_header)
           | Some len \<Rightarrow> Ok \<lparr>bp_framing = kContentLength, bp_content_length = len\<rparr>)
      | None \<Rightarrow> Ok \<lparr>bp_framing = (if allow_until_close then kUntilClose else kNone), bp_content_length = 0\<rparr>)"

definition PlanRequestBody :: "absl_text \<Rightarrow> HttpHeaders \<Rightarrow> BodyPlan result" where
  "PlanRequestBody tx headers = PlanBody tx headers False"

definition PlanResponseBody :: "absl_text \<Rightarrow> string \<Rightarrow> int \<Rightarrow> HttpHeaders \<Rightarrow> BodyPlan result" where
  "PlanResponseBody tx request_method status headers =
     (if AsciiStrToUpper tx request_method = ''HEAD'' \<or> 100 \<le> status \<and> status < 200 \<or> status = 204 \<or> status = 304
      then Ok \<lparr>bp_framing = kNone, bp_content_length = 0\<rparr>
      else PlanBody tx headers True)"

section \<open>Chunked transfer coding\<close>

datatype ChunkState = kSize | kData | kDataCrlf | kTrailer | kComplete

record ChunkedDecoder =
  cd_state :: ChunkState
  cd_pending :: string
  cd_remaining :: nat
  cd_trailers :: HttpHeaders

definition new_decoder :: ChunkedDecoder where
  "new_decoder = \<lparr>cd_state = kSize, cd_pending = [], cd_remaining = 0, cd_trailers = []\<rparr>"

text \<open>A complete size line, without its line end.\<close>

definition size_line :: "absl_text \<Rightarrow> string \<Rightarrow> ChunkedDecoder \<Rightarrow> ChunkedDecoder result" where
  "size_line tx line d =
     (let line = StripAsciiWhitespace tx (case cut_at (CHR '';'') line of None \<Rightarrow> line | Some (before, _) \<Rightarrow> before);
          invalid = Err kInvalidArgument (''Invalid chunk size: '' @ line)
      in if line = [] then invalid
         else case SimpleHexAtoi tx line of
           None \<Rightarrow> invalid
         | Some n \<Rightarrow> Ok (if n = 0 then d\<lparr>cd_pending := [], cd_state := kTrailer\<rparr>
                         else d\<lparr>cd_pending := [], cd_remaining := unat n, cd_state := kData\<rparr>))"

text \<open>A complete trailer line; one without a colon is dropped.\<close>

definition trailer_line :: "absl_text \<Rightarrow> string \<Rightarrow> ChunkedDecoder \<Rightarrow> ChunkedDecoder" where
  "trailer_line tx line d =
     (if line = [] then d\<lparr>cd_state := kComplete, cd_pending := []\<rparr>
      else case cut_at (CHR '':'') line of
        None \<Rightarrow> d\<lparr>cd_pending := []\<rparr>
      | Some (name, v) \<Rightarrow>
          d\<lparr>cd_trailers := cd_trailers d @ [(AsciiStrToLower tx name, StripAsciiWhitespace tx v)], cd_pending := []\<rparr>)"

text \<open>
  The loop of \<open>Feed\<close> over the unread bytes.  It returns the status, the decoder and the output; the
  flag tells whether the loop ran to its end, which is when \<open>*complete\<close> is written.
\<close>

function feed_chunked :: "absl_text \<Rightarrow> ChunkedDecoder \<Rightarrow> string \<Rightarrow> string \<Rightarrow> unit result \<times> bool \<times> ChunkedDecoder \<times> string" where
  "feed_chunked tx d out data =
     (if data = [] \<or> cd_state d = kComplete then (Ok (), True, d, out)
      else if cd_state d = kData then
        let taken = min (cd_remaining d) (length data);
            d' = d\<lparr>cd_remaining := cd_remaining d - taken\<rparr>
        in feed_chunked tx (if cd_remaining d' = 0 then d'\<lparr>cd_state := kDataCrlf\<rparr> else d') (out @ take taken data) (drop taken data)
      else if cd_state d = kDataCrlf then
        if hd data = LF then feed_chunked tx (d\<lparr>cd_pending := [], cd_state := kSize\<rparr>) out (tl data)
        else
          let d' = d\<lparr>cd_pending := cd_pending d @ [hd data]\<rparr> in
          if length (cd_pending d') > 2 then (Err kInvalidArgument ''Missing CRLF after chunk data'', False, d', out)
          else feed_chunked tx d' out (tl data)
      else
        case cut_at LF data of
          None \<Rightarrow> (Ok (), False, d\<lparr>cd_pending := cd_pending d @ data\<rparr>, out)
        | Some (part, rest) \<Rightarrow>
            let line = remove_last CR (cd_pending d @ part) in
            if cd_state d = kSize
            then (case size_line tx line d of
                    Inl e \<Rightarrow> (Inl e, False, d\<lparr>cd_pending := cd_pending d @ part @ [LF]\<rparr>, out)
                  | Inr d' \<Rightarrow> feed_chunked tx d' out rest)
            else feed_chunked tx (trailer_line tx line d) out rest)"
  by pat_completeness auto

termination feed_chunked
  by (relation "measures [\<lambda>(tx, d, out, data). length data, \<lambda>(tx, d, out, data). if cd_state d = kData then 1 else 0]")
    (auto dest: cut_at_shorter)

declare feed_chunked.simps [simp del]

text \<open>\<open>Feed\<close>: the status, the new decoder and output, and what is written to \<open>*complete\<close>.\<close>

definition ChunkedFeed :: "absl_text \<Rightarrow> string \<Rightarrow> ChunkedDecoder \<times> string \<Rightarrow> unit result \<times> bool option \<times> ChunkedDecoder \<times> string" where
  "ChunkedFeed tx data s =
     (case feed_chunked tx (fst s) (snd s) data of
        (status, ended, d, out) \<Rightarrow> (status, if ended then Some (cd_state d = kComplete) else None, d, out))"

section \<open>Serialization\<close>

definition kCrlf :: string where
  "kCrlf = [CR, LF]"

definition AppendHeaderBlock :: "HttpHeaders \<Rightarrow> string \<Rightarrow> string" where
  "AppendHeaderBlock headers out = fold (\<lambda>(name, v) out. out @ name @ '': '' @ v @ kCrlf) headers out"

definition EncodeHttpChunk :: "absl_text \<Rightarrow> string \<Rightarrow> string" where
  "EncodeHttpChunk tx data = (if data = [] then [] else Hex tx (of_nat (length data)) @ kCrlf @ data @ kCrlf)"

definition EncodeLastChunk :: "HttpHeaders \<Rightarrow> string" where
  "EncodeLastChunk trailers =
     (if trailers = [] then ''0'' @ kCrlf @ kCrlf else AppendHeaderBlock trailers (''0'' @ kCrlf) @ kCrlf)"

definition DefaultReasonPhrase :: "int \<Rightarrow> string" where
  "DefaultReasonPhrase status =
     (if status = 101 then ''Switching Protocols''
      else if status = 200 then ''OK''
      else if status = 204 then ''No Content''
      else if status = 400 then ''Bad Request''
      else if status = 404 then ''Not Found''
      else if status = 426 then ''Upgrade Required''
      else if status = 500 then ''Internal Server Error''
      else [])"

definition SerializeRequest :: "string \<Rightarrow> string \<Rightarrow> HttpHeaders \<Rightarrow> string" where
  "SerializeRequest method target headers =
     AppendHeaderBlock headers (method @ '' '' @ target @ '' HTTP/1.1'' @ kCrlf) @ kCrlf"

text \<open>\<open>absl::StrCat\<close> of an \<open>int\<close>.\<close>

definition dec_int :: "int \<Rightarrow> string" where
  "dec_int i = (if i < 0 then CHR ''-'' # dec (nat (- i)) else dec (nat i))"

definition SerializeResponse :: "int \<Rightarrow> HttpHeaders \<Rightarrow> string \<Rightarrow> string" where
  "SerializeResponse status headers reason =
     (let phrase = if reason = [] then DefaultReasonPhrase status else reason
      in AppendHeaderBlock headers (''HTTP/1.1 '' @ dec_int status @ '' '' @ phrase @ kCrlf) @ kCrlf)"

section \<open>The WebSocket handshake\<close>

definition kWebSocketGuid :: string where
  "kWebSocketGuid = ''258EAFA5-E914-47DA-95CA-C5AB0DC85B11''"

definition ComputeWebSocketAccept :: "(string \<Rightarrow> string) \<Rightarrow> (string \<Rightarrow> string) \<Rightarrow> string \<Rightarrow> string" where
  "ComputeWebSocketAccept sha1 base64 key = base64 (sha1 (key @ kWebSocketGuid))"

definition GenerateWebSocketKey :: "string \<Rightarrow> (string \<Rightarrow> string) \<Rightarrow> string" where
  "GenerateWebSocketKey nonce base64 = base64 nonce"

end
