(* ===== verification/Http1_Properties.thy ===== *)
theory Http1_Properties
  imports Http1_Codec
begin

text \<open>
  Properties of the HTTP/1.1 codec: chunked decoding does not depend on how the bytes arrive and undoes
  chunked encoding, and a serialized request head is framed and parsed back exactly.
\<close>

declare split_paired_All [simp del] split_paired_Ex [simp del]

section \<open>Chunked decoding, piece by piece\<close>

text \<open>What a run of the loop leaves: the status, the decoder and the output.\<close>

definition fed :: "unit result \<times> bool \<times> ChunkedDecoder \<times> string \<Rightarrow> unit result \<times> ChunkedDecoder \<times> string" where
  "fed r = (fst r, snd (snd r))"

lemma fed_eq [simp]: "fed (st, e, d, out) = (st, d, out)"
  by (simp add: fed_def)

lemma cut_at_append_Some: "cut_at c a = Some (p, rest) \<Longrightarrow> cut_at c (a @ b) = Some (p, rest @ b)"
  by (simp add: cut_at_Some)

lemma cut_at_append_None: "c \<notin> set a \<Longrightarrow> cut_at c (a @ b) = map_option (\<lambda>(p, rest). (a @ p, rest)) (cut_at c b)"
  by (induction a) (auto simp: option.map_comp case_prod_unfold o_def option.map_ident)

lemma feed_done [simp]:
  "feed_chunked tx d out [] = (Ok (), True, d, out)"
  "cd_state d = kComplete \<Longrightarrow> feed_chunked tx d out data = (Ok (), True, d, out)"
  by (simp_all add: feed_chunked.simps)

lemma feed_kData:
  "cd_state d = kData \<Longrightarrow> data \<noteq> [] \<Longrightarrow> feed_chunked tx d out data =
     (let taken = min (cd_remaining d) (length data); d' = d\<lparr>cd_remaining := cd_remaining d - taken\<rparr>
      in feed_chunked tx (if cd_remaining d' = 0 then d'\<lparr>cd_state := kDataCrlf\<rparr> else d') (out @ take taken data) (drop taken data))"
  by (subst feed_chunked.simps) simp

lemma feed_kDataCrlf:
  "cd_state d = kDataCrlf \<Longrightarrow> feed_chunked tx d out (c # data) =
     (if c = LF then feed_chunked tx (d\<lparr>cd_pending := [], cd_state := kSize\<rparr>) out data
      else if length (cd_pending d) > 1 then (Err kInvalidArgument ''Missing CRLF after chunk data'', False, d\<lparr>cd_pending := cd_pending d @ [c]\<rparr>, out)
      else feed_chunked tx (d\<lparr>cd_pending := cd_pending d @ [c]\<rparr>) out data)"
  by (subst feed_chunked.simps) (simp add: Let_def)

text \<open>A whole line in the states that read lines.\<close>

definition feed_line :: "absl_text \<Rightarrow> ChunkedDecoder \<Rightarrow> string \<Rightarrow> string \<Rightarrow> string \<Rightarrow> unit result \<times> bool \<times> ChunkedDecoder \<times> string" where
  "feed_line tx d out l rest =
     (if cd_state d = kSize
      then (case size_line tx (remove_last CR l) d of
              Inl e \<Rightarrow> (Inl e, False, d\<lparr>cd_pending := l @ [LF]\<rparr>, out)
            | Inr d' \<Rightarrow> feed_chunked tx d' out rest)
      else feed_chunked tx (trailer_line tx (remove_last CR l) d) out rest)"

lemma feed_lines:
  "cd_state d = kSize \<or> cd_state d = kTrailer \<Longrightarrow> data \<noteq> [] \<Longrightarrow> feed_chunked tx d out data =
     (case cut_at LF data of None \<Rightarrow> (Ok (), False, d\<lparr>cd_pending := cd_pending d @ data\<rparr>, out)
      | Some (l, rest) \<Rightarrow> feed_line tx d out (cd_pending d @ l) rest)"
  by (subst feed_chunked.simps, cases "cut_at LF data") (auto simp: feed_line_def Let_def split: sum.split)

lemma feed_line_pending: "feed_line tx (d\<lparr>cd_pending := x\<rparr>) out l rest = feed_line tx d out l rest"
proof -
  have "size_line tx k (d\<lparr>cd_pending := x\<rparr>) = size_line tx k d" "trailer_line tx k (d\<lparr>cd_pending := x\<rparr>) = trailer_line tx k d" for k
    by (simp_all add: size_line_def trailer_line_def Let_def split: option.split)
  then show ?thesis by (simp add: feed_line_def split: sum.split)
qed

lemma feed_append_data:
  assumes "cd_state d = kData" and "length a < cd_remaining d" and "a \<noteq> []"
  shows "feed_chunked tx d out a = (Ok (), True, d\<lparr>cd_remaining := cd_remaining d - length a\<rparr>, out @ a)"
    and "fed (feed_chunked tx d out (a @ b)) = fed (feed_chunked tx (d\<lparr>cd_remaining := cd_remaining d - length a\<rparr>) (out @ a) b)"
proof -
  show one: "feed_chunked tx d out a = (Ok (), True, d\<lparr>cd_remaining := cd_remaining d - length a\<rparr>, out @ a)"
    using assms by (simp add: feed_kData Let_def min_def)
  show "fed (feed_chunked tx d out (a @ b)) = fed (feed_chunked tx (d\<lparr>cd_remaining := cd_remaining d - length a\<rparr>) (out @ a) b)"
  proof (cases "b = []")
    case True
    then show ?thesis by (simp add: one)
  next
    case False
    have "min (cd_remaining d) (length a + length b) = length a + min (cd_remaining d - length a) (length b)" using assms(2) by simp
    then show ?thesis using assms False by (simp add: feed_kData Let_def)
  qed
qed

lemma feed_append:
  "fed (feed_chunked tx d out (a @ b)) =
     (case feed_chunked tx d out a of
        (Inl e, _, d', out') \<Rightarrow> (Inl e, d', out')
      | (Inr _, _, d', out') \<Rightarrow> fed (feed_chunked tx d' out' b))"
proof (induction tx d out a rule: feed_chunked.induct)
  case (1 tx d out a)
  note IH = this
  show ?case
  proof (cases "a = [] \<or> cd_state d = kComplete")
    case False
    then have a: "a \<noteq> []" by simp
    consider (data) "cd_state d = kData" | (crlf) "cd_state d = kDataCrlf" | (line) "cd_state d = kSize \<or> cd_state d = kTrailer"
      using False by (cases "cd_state d") auto
    then show ?thesis
    proof cases
      case data
      show ?thesis
      proof (cases "length a < cd_remaining d")
        case True
        then show ?thesis using feed_append_data [OF data True a] by simp
      next
        case fits: False
        then have m: "min (cd_remaining d) (length a) = cd_remaining d" "min (cd_remaining d) (length (a @ b)) = cd_remaining d" by simp_all
        show ?thesis using IH(1) [OF False data refl refl] fits a by (simp add: feed_kData [OF data] m Let_def)
      qed
    next
      case crlf
      obtain c a' where c: "a = c # a'" using a by (cases a) auto
      show ?thesis using IH(2) [OF False] IH(3) [OF False] crlf by (simp add: c feed_kDataCrlf)
    next
      case line
      show ?thesis
      proof (cases "cut_at LF a")
        case None
        then have nl: "LF \<notin> set a" by (simp add: cut_at_None)
        let ?d = "d\<lparr>cd_pending := cd_pending d @ a\<rparr>"
        have l: "cd_state ?d = kSize \<or> cd_state ?d = kTrailer" using line by simp
        show ?thesis
          using a nl None by (cases "b = []"; cases "cut_at LF b")
            (auto simp: feed_lines [OF line] feed_lines [OF l] cut_at_append_None feed_line_pending)
      next
        case (Some pr)
        obtain p rest where pr: "cut_at LF a = Some (p, rest)" using Some by (cases pr) simp
        show ?thesis
        proof (cases "cd_state d = kSize")
          case size: True
          show ?thesis
            using a IH(4) [OF False _ _ pr refl refl size] size
            by (cases "size_line tx (remove_last CR (cd_pending d @ p)) d")
              (simp_all add: feed_lines [OF line] pr cut_at_append_Some [OF pr] feed_line_def)
        next
          case trailer: False
          then show ?thesis
            using a line IH(5) [OF False _ _ pr refl refl trailer]
            by (simp add: feed_lines [OF line] pr cut_at_append_Some [OF pr] feed_line_def)
        qed
      qed
    qed
  qed auto
qed

text \<open>Feeding pieces one after another, up to the first error.\<close>

fun feed_all :: "absl_text \<Rightarrow> string list \<Rightarrow> ChunkedDecoder \<times> string \<Rightarrow> unit result \<times> ChunkedDecoder \<times> string" where
  "feed_all tx [] s = (Ok (), s)"
| "feed_all tx (p # ps) s =
     (case ChunkedFeed tx p s of
        (Inl e, _, s') \<Rightarrow> (Inl e, s')
      | (Inr _, _, s') \<Rightarrow> feed_all tx ps s')"

lemma feed_all_concat: "feed_all tx ps s = fed (feed_chunked tx (fst s) (snd s) (concat ps))"
proof (induction ps arbitrary: s)
  case (Cons p ps)
  obtain st e d out where "feed_chunked tx (fst s) (snd s) p = (st, e, d, out)" by (metis prod.exhaust)
  then show ?case using Cons by (cases st) (simp_all add: ChunkedFeed_def feed_append)
qed (simp add: fed_def)

section \<open>Chunked encoding\<close>

lemma hex_plain: "is_hex c \<Longrightarrow> c \<noteq> LF \<and> c \<noteq> CR \<and> c \<noteq> CHR '';'' \<and> \<not> is_space c"
  by (auto simp: is_hex_def is_digit_def is_space_def)

lemma remove_last_snoc [simp]: "remove_last c (l @ [c]) = l"
  by (simp add: remove_last_def)

text \<open>The decoder between two chunks.\<close>

definition between_chunks :: "HttpHeaders \<Rightarrow> ChunkedDecoder" where
  "between_chunks ts = \<lparr>cd_state = kSize, cd_pending = [], cd_remaining = 0, cd_trailers = ts\<rparr>"

lemma size_line_hex:
  assumes "number_laws tx" and "strip_laws tx" and "l \<noteq> []" and "\<forall>c\<in>set l. is_hex c" and "SimpleHexAtoi tx l = Some n"
  shows "size_line tx l d = Ok (if n = 0 then d\<lparr>cd_pending := [], cd_state := kTrailer\<rparr>
    else d\<lparr>cd_pending := [], cd_remaining := unat n, cd_state := kData\<rparr>)"
proof -
  have "trimmed l" using assms(3,4) hex_plain by (simp add: trimmed_def)
  then have "(\<forall>c\<in>set [] \<union> set []. is_space c) \<and> trimmed l" by simp
  then have "StripAsciiWhitespace tx ([] @ l @ []) = l" using assms(2) unfolding strip_laws_def by blast
  moreover have "cut_at (CHR '';'') l = None" using assms(4) hex_plain by (auto simp: cut_at_None)
  ultimately show ?thesis using assms(3,5) by (simp add: size_line_def)
qed

lemma feed_chunk:
  assumes "number_laws tx" and "strip_laws tx" and "length p < 2 ^ 64"
  shows "feed_chunked tx (between_chunks ts) out (EncodeHttpChunk tx p @ rest) = feed_chunked tx (between_chunks ts) (out @ p) rest"
proof (cases "p = []")
  case False
  let ?n = "of_nat (length p) :: u64"
  let ?h = "Hex tx ?n"
  let ?d = "\<lparr>cd_state = kData, cd_pending = [], cd_remaining = length p, cd_trailers = ts\<rparr>"
  have n: "unat ?n = length p" using assms(3) by (simp add: unsigned_of_nat take_bit_nat_eq_self)
  then have nz: "?n \<noteq> 0" using False by auto
  have h: "?h \<noteq> []" "\<forall>c\<in>set ?h. is_hex c" "SimpleHexAtoi tx ?h = Some ?n" using assms(1) by (simp_all add: number_laws_def)
  have cut: "cut_at LF ((?h @ [CR]) @ LF # p @ kCrlf @ rest) = Some (?h @ [CR], p @ kCrlf @ rest)"
    using h(2) hex_plain by (intro cut_at_append) auto
  have "feed_chunked tx (between_chunks ts) out (EncodeHttpChunk tx p @ rest) = feed_chunked tx ?d out (p @ kCrlf @ rest)"
    using False cut size_line_hex [OF assms(1,2) h, of "between_chunks ts"] nz n
    by (simp add: EncodeHttpChunk_def kCrlf_def feed_lines feed_line_def between_chunks_def)
  also have "\<dots> = feed_chunked tx (?d\<lparr>cd_remaining := 0, cd_state := kDataCrlf\<rparr>) (out @ p) (kCrlf @ rest)"
    using False by (simp add: feed_kData kCrlf_def)
  finally show ?thesis by (simp add: kCrlf_def feed_kDataCrlf between_chunks_def)
qed (simp add: EncodeHttpChunk_def)

lemma feed_chunks:
  assumes "number_laws tx" and "strip_laws tx" and "\<forall>p\<in>set ps. length p < 2 ^ 64"
  shows "feed_chunked tx (between_chunks ts) out (concat (map (EncodeHttpChunk tx) ps) @ rest) =
    feed_chunked tx (between_chunks ts) (out @ concat ps) rest"
  using assms(3) by (induction ps arbitrary: out) (simp_all add: feed_chunk [OF assms(1,2)])

section \<open>Header blocks\<close>

text \<open>Headers that passed \<open>ValidateHttpHeaders\<close> and whose values have no surrounding whitespace.\<close>

definition clean_headers :: "HttpHeaders \<Rightarrow> bool" where
  "clean_headers hs \<longleftrightarrow> ValidateHttpHeaders hs = Ok () \<and> (\<forall>h\<in>set hs. trimmed (snd h))"

definition clean_header :: "string \<times> string \<Rightarrow> bool" where
  "clean_header h \<longleftrightarrow> fst h \<noteq> [] \<and> IsLowercaseToken (fst h) \<and> CR \<notin> set (snd h) \<and> LF \<notin> set (snd h) \<and> trimmed (snd h)"

lemma clean_headers_each: "clean_headers hs \<Longrightarrow> \<forall>h\<in>set hs. clean_header h"
  by (auto simp: clean_headers_def clean_header_def ValidateHttpHeaders_def ok_iff case_prod_unfold split: if_splits)

definition header_text :: "string \<times> string \<Rightarrow> string" where
  "header_text h = fst h @ '': '' @ snd h"

lemma AppendHeaderBlock_concat: "AppendHeaderBlock hs out = out @ concat (map (\<lambda>h. header_text h @ kCrlf) hs)"
  by (induction hs arbitrary: out) (simp_all add: AppendHeaderBlock_def header_text_def case_prod_unfold)

lemma token_plain:
  assumes "IsLowercaseToken n" and "c \<in> set n"
  shows "c \<notin> {LF, CR, CHR '':'', CHR '' '', TAB}" and "\<not> is_upper c"
proof -
  have "c = CHR ''-'' \<or> c = CHR ''_'' \<or> c = CHR ''.'' \<or> is_digit c \<or> is_lower c"
    using assms by (simp add: IsLowercaseToken_def list_all_iff)
  moreover have "c \<notin> {LF, CR, CHR '':'', CHR '' '', TAB} \<and> \<not> is_upper c" if "is_digit c \<or> is_lower c"
    using that by (auto simp: is_digit_def is_lower_def is_upper_def)
  ultimately have "c \<notin> {LF, CR, CHR '':'', CHR '' '', TAB} \<and> \<not> is_upper c" by (auto simp: is_upper_def)
  then show "c \<notin> {LF, CR, CHR '':'', CHR '' '', TAB}" "\<not> is_upper c" by blast+
qed

lemma header_text_plain:
  assumes "clean_header h"
  shows "LF \<notin> set (header_text h)" "CR \<notin> set (header_text h)" "header_text h \<noteq> []"
    "cut_at (CHR '':'') (header_text h) = Some (fst h, CHR '' '' # snd h)"
proof -
  have "c \<notin> {LF, CR, CHR '':''}" if "c \<in> set (fst h)" for c
    using token_plain(1) [OF _ that] assms by (simp add: clean_header_def)
  then have c: "LF \<notin> set (fst h)" "CR \<notin> set (fst h)" "CHR '':'' \<notin> set (fst h)" by blast+
  then show "LF \<notin> set (header_text h)" "CR \<notin> set (header_text h)" "header_text h \<noteq> []"
    "cut_at (CHR '':'') (header_text h) = Some (fst h, CHR '' '' # snd h)"
    using assms by (simp_all add: clean_header_def header_text_def)
qed

lemma header_text_fields:
  assumes "clean_header h" and "case_laws tx" and "strip_laws tx"
  shows "(AsciiStrToLower tx (fst h), StripAsciiWhitespace tx (CHR '' '' # snd h)) = h"
proof -
  have "AsciiStrToLower tx (fst h) = fst h"
    using assms(1,2) token_plain(2) [of "fst h"] by (simp add: clean_header_def case_laws_def)
  moreover have "(\<forall>c\<in>set '' '' \<union> set []. is_space c) \<and> trimmed (snd h)" using assms(1) by (simp add: clean_header_def is_space_def)
  then have "StripAsciiWhitespace tx ('' '' @ snd h @ []) = snd h" using assms(3) unfolding strip_laws_def by blast
  ultimately show ?thesis by simp
qed

lemma header_line_text:
  assumes "clean_header h" and "case_laws tx" and "strip_laws tx"
  shows "header_line tx (header_text h) = Ok h"
proof -
  have "CHR '' '' \<notin> set (fst h)" "TAB \<notin> set (fst h)" "fst h \<noteq> []"
    using assms(1) token_plain(1) [of "fst h"] by (auto simp: clean_header_def)
  then show ?thesis using header_text_plain(4) [OF assms(1)] header_text_fields [OF assms] by (simp add: header_line_def)
qed

section \<open>Trailers\<close>

definition in_trailers :: "HttpHeaders \<Rightarrow> ChunkedDecoder" where
  "in_trailers ts = \<lparr>cd_state = kTrailer, cd_pending = [], cd_remaining = 0, cd_trailers = ts\<rparr>"

lemma feed_trailer:
  assumes "clean_header h" and "case_laws tx" and "strip_laws tx"
  shows "feed_chunked tx (in_trailers ts) out (header_text h @ kCrlf @ rest) = feed_chunked tx (in_trailers (ts @ [h])) out rest"
proof -
  have "cut_at LF ((header_text h @ [CR]) @ LF # rest) = Some (header_text h @ [CR], rest)"
    using header_text_plain(1) [OF assms(1)] by (intro cut_at_append) auto
  then show ?thesis
    using header_text_plain(3,4) [OF assms(1)] header_text_fields [OF assms]
    by (simp add: kCrlf_def feed_lines feed_line_def in_trailers_def trailer_line_def)
qed

lemma feed_trailers:
  assumes "\<forall>h\<in>set hs. clean_header h" and "case_laws tx" and "strip_laws tx"
  shows "feed_chunked tx (in_trailers ts) out (concat (map (\<lambda>h. header_text h @ kCrlf) hs) @ rest) =
    feed_chunked tx (in_trailers (ts @ hs)) out rest"
  using assms(1) by (induction hs arbitrary: ts) (simp_all add: feed_trailer [OF _ assms(2,3)])

lemma feed_last:
  assumes "clean_headers ts" and laws: "number_laws tx" "strip_laws tx" "case_laws tx"
  shows "fed (feed_chunked tx (between_chunks []) out (EncodeLastChunk ts @ rest)) =
    (Ok (), \<lparr>cd_state = kComplete, cd_pending = [], cd_remaining = 0, cd_trailers = ts\<rparr>, out)"
proof -
  have e: "EncodeLastChunk ts @ rest = (''0'' @ [CR]) @ LF # concat (map (\<lambda>h. header_text h @ kCrlf) ts) @ kCrlf @ rest"
    by (simp add: EncodeLastChunk_def AppendHeaderBlock_concat kCrlf_def)
  have zero: "SimpleHexAtoi tx ''0'' = Some 0" using laws(1) by (simp add: number_laws_def)
  have "cut_at LF ((''0'' @ [CR]) @ LF # x) = Some (''0'' @ [CR], x)" for x by (intro cut_at_append) simp
  then have "feed_chunked tx (between_chunks []) out (EncodeLastChunk ts @ rest) =
      feed_chunked tx (in_trailers []) out (concat (map (\<lambda>h. header_text h @ kCrlf) ts) @ kCrlf @ rest)"
    using size_line_hex [OF laws(1,2) _ _ zero, of "between_chunks []"] unfolding e
    by (simp add: feed_lines feed_line_def between_chunks_def in_trailers_def is_hex_def is_digit_def remove_last_def)
  also have "\<dots> = feed_chunked tx (in_trailers ts) out (kCrlf @ rest)"
    using feed_trailers [OF clean_headers_each [OF assms(1)] laws(3,2)] by simp
  also have "\<dots> = feed_chunked tx \<lparr>cd_state = kComplete, cd_pending = [], cd_remaining = 0, cd_trailers = ts\<rparr> out rest"
    by (simp add: kCrlf_def feed_lines feed_line_def in_trailers_def trailer_line_def remove_last_def)
  finally show ?thesis by simp
qed

section \<open>Message heads\<close>

lemma lines_from_line:
  assumes "l \<noteq> []" and "LF \<notin> set l"
  shows "lines_from (l @ kCrlf @ rest) = l # lines_from rest"
proof -
  have "cut_at LF ((l @ [CR]) @ LF # rest) = Some (l @ [CR], rest)" using assms(2) by (intro cut_at_append) simp
  then show ?thesis using assms(1) by (subst lines_from.simps) (simp add: kCrlf_def)
qed

lemma lines_from_end: "lines_from kCrlf = []"
proof -
  have "lines_from [] = []" by (subst lines_from.simps) (simp add: remove_last_def)
  then show ?thesis by (subst lines_from.simps) (simp add: kCrlf_def remove_last_def)
qed

lemma lines_from_block:
  assumes "\<forall>l\<in>set ls. l \<noteq> [] \<and> LF \<notin> set l"
  shows "lines_from (concat (map (\<lambda>l. l @ kCrlf) ls) @ kCrlf) = ls"
  using assms by (induction ls) (simp_all add: lines_from_line lines_from_end)

lemma find_sub_skip: "p \<noteq> [] \<Longrightarrow> hd p \<notin> set l \<Longrightarrow> find_sub p (l @ s) = map_option ((+) (length l)) (find_sub p s)"
proof (induction l)
  case (Cons c l)
  then have "take (length p) (c # l @ s) \<noteq> p" by (cases p) auto
  then show ?case using Cons by (simp add: option.map_comp o_def)
next
  case Nil
  show ?case by (cases "find_sub p s") simp_all
qed

text \<open>Where a block of plain lines ends: at its empty line, whatever follows.\<close>

definition plain_line :: "string \<Rightarrow> bool" where
  "plain_line l \<longleftrightarrow> l \<noteq> [] \<and> CR \<notin> set l \<and> LF \<notin> set l"

lemma find_block_end:
  assumes "\<forall>l\<in>set ls. plain_line l" and "plain_line l"
  shows "find_sub [CR, LF, CR, LF] (l @ kCrlf @ concat (map (\<lambda>l. l @ kCrlf) ls) @ kCrlf @ rest) =
      Some (length (l @ kCrlf @ concat (map (\<lambda>l. l @ kCrlf) ls)) - 2)"
    and "find_sub [LF, LF] (l @ kCrlf @ concat (map (\<lambda>l. l @ kCrlf) ls) @ kCrlf @ rest) =
      map_option ((+) (length (l @ kCrlf @ concat (map (\<lambda>l. l @ kCrlf) ls)) + 1)) (find_sub [LF, LF] (LF # rest))"
  using assms
proof (induction ls arbitrary: l)
  case Nil
  {
    case 1
    then show ?case using find_sub_skip [of "[CR, LF, CR, LF]" l] by (simp add: plain_line_def kCrlf_def)
  next
    case 2
    then show ?case using find_sub_skip [of "[LF, LF]" l] by (simp add: plain_line_def kCrlf_def option.map_comp o_def add.commute)
  }
next
  case (Cons k ls)
  have k: "plain_line k" "\<forall>l\<in>set ls. plain_line l" if "\<forall>l\<in>set (k # ls). plain_line l" using that by simp_all
  obtain c k' where c: "k = c # k'" "c \<noteq> CR" "c \<noteq> LF" if "plain_line k" by (cases k) (auto simp: plain_line_def)
  {
    case 1
    note ck = c [OF k(1) [OF 1(1)]]
    have "find_sub [CR, LF, CR, LF] (l @ kCrlf @ k @ s) = map_option ((+) (length l + 2)) (find_sub [CR, LF, CR, LF] (k @ s))" for s
      using 1(2) find_sub_skip [of "[CR, LF, CR, LF]" l] ck by (simp add: plain_line_def kCrlf_def option.map_comp o_def)
    then show ?case using Cons.IH(1) [OF k(2) [OF 1(1)] k(1) [OF 1(1)]] by (simp add: kCrlf_def)
  next
    case 2
    note ck = c [OF k(1) [OF 2(1)]]
    have "find_sub [LF, LF] (l @ kCrlf @ k @ s) = map_option ((+) (length l + 2)) (find_sub [LF, LF] (k @ s))" for s
      using 2(2) find_sub_skip [of "[LF, LF]" l] ck by (simp add: plain_line_def kCrlf_def option.map_comp o_def)
    then show ?case using Cons.IH(2) [OF k(2) [OF 2(1)] k(1) [OF 2(1)]] by (simp add: kCrlf_def option.map_comp o_def add.assoc)
  }
qed

definition clean_request :: "string \<Rightarrow> string \<Rightarrow> bool" where
  "clean_request method target \<longleftrightarrow>
     method \<noteq> [] \<and> (\<forall>c\<in>set method. \<not> is_lower c \<and> c \<notin> {CHR '' '', CR, LF}) \<and>
     target \<noteq> [] \<and> (\<forall>c\<in>set target. c \<notin> {CHR '' '', CR, LF})"

definition request_line :: "string \<Rightarrow> string \<Rightarrow> string" where
  "request_line method target = method @ '' '' @ target @ '' HTTP/1.1''"

lemma SerializeRequest_lines:
  "SerializeRequest method target hs = request_line method target @ kCrlf @ concat (map (\<lambda>l. l @ kCrlf) (map header_text hs)) @ kCrlf"
  by (simp add: SerializeRequest_def AppendHeaderBlock_concat request_line_def o_def)

lemma plain_head:
  assumes "clean_headers hs" and "clean_request method target"
  shows "plain_line (request_line method target)" and "\<forall>l\<in>set (map header_text hs). plain_line l"
  using assms clean_headers_each [OF assms(1)] header_text_plain
  by (auto simp: plain_line_def request_line_def clean_request_def)

lemma parse_header_lines:
  assumes "\<forall>h\<in>set hs. clean_header h" and "case_laws tx" and "strip_laws tx"
  shows "ParseHeaderLines tx (map header_text hs) = Ok hs"
  using assms(1) by (induction hs) (simp_all add: ParseHeaderLines_def header_line_text [OF _ assms(2,3)])

lemma split_request_line:
  assumes "split_laws tx" and "clean_request method target"
  shows "StrSplitMax tx (request_line method target) (CHR '' '') 2 = [method, target, ''HTTP/1.1'']"
proof -
  have m: "CHR '' '' \<notin> set method" and t: "CHR '' '' \<notin> set target" using assms(2) by (auto simp: clean_request_def)
  have "StrSplitMax tx (method @ CHR '' '' # target @ CHR '' '' # ''HTTP/1.1'') (CHR '' '') (Suc (Suc 0)) = [method, target, ''HTTP/1.1'']"
    using assms(1) m t by (simp add: split_laws_def)
  then show ?thesis by (simp add: request_line_def numeral_2_eq_2)
qed

section \<open>Properties of the HTTP/1.1 codec\<close>

text \<open>C35. Chunked decoding does not depend on how the bytes arrive: feeding pieces one after another ends with
  the same status, the same decoder and the same output as feeding all of them at once.\<close>

theorem chunked_any_fragmentation:
  "feed_all tx pieces (d, out) = (case ChunkedFeed tx (concat pieces) (d, out) of (status, _, d', out') \<Rightarrow> (status, d', out'))"
  by (simp add: feed_all_concat ChunkedFeed_def fed_def case_prod_unfold)

text \<open>C36. What the chunked encoder writes, the decoder reads back: the chunks of a body followed by the last
  chunk with its trailers, arriving in any pieces and followed by anything, give the body, complete, with the
  trailers.  The trailers have passed \<open>ValidateHttpHeaders\<close> and their values have no surrounding whitespace.\<close>

theorem chunked_roundtrip:
  assumes "number_laws tx" and "strip_laws tx" and "case_laws tx" and "clean_headers ts" and "\<forall>p\<in>set ps. length p < 2 ^ 64"
    and "concat pieces = concat (map (EncodeHttpChunk tx) ps) @ EncodeLastChunk ts @ rest"
  shows "\<exists>d. feed_all tx pieces (new_decoder, []) = (Ok (), d, concat ps) \<and> cd_state d = kComplete \<and> cd_trailers d = ts"
proof -
  have start: "new_decoder = between_chunks []" by (simp add: new_decoder_def between_chunks_def)
  show ?thesis
    unfolding start by (simp add: feed_all_concat assms(6) feed_chunks [OF assms(1,2,5)] feed_last [OF assms(4,1-3)])
qed

theorem chunked_roundtrip_witness:
  "\<exists>d. feed_all sample_text (map (\<lambda>c. [c]) (concat (map (EncodeHttpChunk sample_text) [''hello '', [], ''world'']) @ EncodeLastChunk [(''etag'', ''x y'')]))
     (new_decoder, []) = (Ok (), d, ''hello world'') \<and> cd_state d = kComplete \<and> cd_trailers d = [(''etag'', ''x y'')]"
proof -
  have "clean_headers [(''etag'', ''x y'')]"
    by (simp add: clean_headers_def ValidateHttpHeaders_def IsLowercaseToken_def is_lower_def trimmed_def is_space_def)
  then show ?thesis
    using chunked_roundtrip [OF sample_number_laws sample_strip_laws sample_case_laws, of "[(''etag'', ''x y'')]" "[''hello '', [], ''world'']"
      "map (\<lambda>c. [c]) (concat (map (EncodeHttpChunk sample_text) [''hello '', [], ''world'']) @ EncodeLastChunk [(''etag'', ''x y'')])" "[]"] by simp
qed

text \<open>C37. A serialized request head is found and parsed back exactly: \<open>FindHeaderBlockEnd\<close> ends it at its last
  byte, whatever body follows, and \<open>ParseRequestHead\<close> returns the method, the target and the headers, none
  added.  The headers have passed \<open>ValidateHttpHeaders\<close> and their values have no surrounding whitespace; the
  method is upper case and neither it nor the target holds a space or a line break.\<close>

theorem request_head_roundtrip:
  assumes "case_laws tx" and "strip_laws tx" and "split_laws tx" and "clean_headers hs" and "clean_request method target"
  shows "ParseRequestHead tx (SerializeRequest method target hs) =
      Ok \<lparr>rq_method = method, rq_target = target, rq_version = ''HTTP/1.1'', rq_headers = hs\<rparr> \<and>
    FindHeaderBlockEnd (SerializeRequest method target hs @ rest) = Some (length (SerializeRequest method target hs))"
proof
  note plain = plain_head [OF assms(4,5)]
  have "lines_from (SerializeRequest method target hs) = request_line method target # map header_text hs"
    using lines_from_block [of "request_line method target # map header_text hs"] plain
    by (simp add: SerializeRequest_lines plain_line_def)
  moreover have "AsciiStrToUpper tx method = method" using assms(1,5) by (simp add: case_laws_def clean_request_def)
  moreover have "method \<noteq> []" "target \<noteq> []" using assms(5) by (simp_all add: clean_request_def)
  ultimately show "ParseRequestHead tx (SerializeRequest method target hs) =
      Ok \<lparr>rq_method = method, rq_target = target, rq_version = ''HTTP/1.1'', rq_headers = hs\<rparr>"
    using split_request_line [OF assms(3,5)] parse_header_lines [OF clean_headers_each [OF assms(4)] assms(1,2)]
    by (simp add: ParseRequestHead_def SplitLines_def Let_def)
  show "FindHeaderBlockEnd (SerializeRequest method target hs @ rest) = Some (length (SerializeRequest method target hs))"
    using find_block_end [OF plain(2,1), of rest]
    by (cases "find_sub [LF, LF] (LF # rest)") (simp_all add: FindHeaderBlockEnd_def SerializeRequest_lines kCrlf_def)
qed

theorem request_head_roundtrip_witness:
  "ParseRequestHead sample_text (SerializeRequest ''GET'' ''/a?b'' [(''host'', ''x''), (''accept'', ''*/*'')]) =
      Ok \<lparr>rq_method = ''GET'', rq_target = ''/a?b'', rq_version = ''HTTP/1.1'', rq_headers = [(''host'', ''x''), (''accept'', ''*/*'')]\<rparr> \<and>
    FindHeaderBlockEnd (SerializeRequest ''GET'' ''/a?b'' [(''host'', ''x''), (''accept'', ''*/*'')] @ ''body'') =
      Some (length (SerializeRequest ''GET'' ''/a?b'' [(''host'', ''x''), (''accept'', ''*/*'')]))"
proof (rule request_head_roundtrip [OF sample_case_laws sample_strip_laws sample_split_laws])
  show "clean_headers [(''host'', ''x''), (''accept'', ''*/*'')]"
    by (simp add: clean_headers_def ValidateHttpHeaders_def IsLowercaseToken_def is_lower_def trimmed_def is_space_def)
  show "clean_request ''GET'' ''/a?b''" by (simp add: clean_request_def is_lower_def)
qed

end
