(* ===== verification/Authorization_Glob.thy ===== *)
theory Authorization_Glob
  imports A11_Prelude
begin

text \<open>
  The pattern matcher of action restrictions (\<open>GlobMatches\<close> of \<open>cpp/a11/actions/authorization.cc\<close>) and its
  equivalence with the usual meaning of \<open>*\<close> and \<open>?\<close>.  The loop backtracks to the last star only; it is a
  partial function, and that it ends is part of the theorem.
\<close>

abbreviation STAR :: char where "STAR \<equiv> CHR ''*''"

partial_function (option) glob_loop :: "string \<Rightarrow> string \<Rightarrow> nat \<Rightarrow> nat \<Rightarrow> nat option \<Rightarrow> nat \<Rightarrow> bool option" where
  "glob_loop pattern v pattern_at value_at star retry =
     (if value_at < length v then
        if pattern_at < length pattern \<and> (pattern ! pattern_at = CHR ''?'' \<or> pattern ! pattern_at = v ! value_at)
        then glob_loop pattern v (pattern_at + 1) (value_at + 1) star retry
        else if pattern_at < length pattern \<and> pattern ! pattern_at = STAR
        then glob_loop pattern v (pattern_at + 1) value_at (Some pattern_at) value_at
        else (case star of
                Some s \<Rightarrow> glob_loop pattern v (s + 1) (retry + 1) star (retry + 1)
              | None \<Rightarrow> Some False)
      else Some (list_all (\<lambda>c. c = STAR) (drop pattern_at pattern)))"

definition GlobMatches :: "string \<Rightarrow> string \<Rightarrow> bool" where
  "GlobMatches pattern v \<longleftrightarrow> glob_loop pattern v 0 0 None 0 = Some True"

section \<open>What a pattern means\<close>

text \<open>A star stands for any text, a question mark for any character, every other character for itself.\<close>

fun glob :: "string \<Rightarrow> string \<Rightarrow> bool" where
  "glob [] v = (v = [])"
| "glob (x # p) v =
     (if x = STAR then glob p v \<or> (case v of [] \<Rightarrow> False | _ # v' \<Rightarrow> glob (x # p) v')
      else (case v of [] \<Rightarrow> False | c # v' \<Rightarrow> (x = CHR ''?'' \<or> x = c) \<and> glob p v'))"

definition seg :: "string \<Rightarrow> string \<Rightarrow> bool" where
  "seg s u \<longleftrightarrow> STAR \<notin> set s \<and> list_all2 (\<lambda>x c. x = CHR ''?'' \<or> x = c) s u"

lemma seg_snoc: "seg s u \<Longrightarrow> x \<noteq> STAR \<Longrightarrow> x = CHR ''?'' \<or> x = c \<Longrightarrow> seg (s @ [x]) (u @ [c])"
  by (auto simp: seg_def list_all2_appendI)

lemma seg_Nil [simp]: "seg [] []"
  by (simp add: seg_def)

lemma seg_length: "seg s u \<Longrightarrow> length u = length s"
  by (auto simp: seg_def dest: list_all2_lengthD)

declare glob.simps(2) [simp del]

lemma glob_star_Cons: "glob (STAR # p) (c # v) \<longleftrightarrow> glob p (c # v) \<or> glob (STAR # p) v"
  by (simp add: glob.simps(2) [of _ _ "c # v"])

lemma ex_le_Suc: "(\<exists>k\<le>Suc n. P k) \<longleftrightarrow> P 0 \<or> (\<exists>k\<le>n. P (Suc k))"
proof
  assume "\<exists>k\<le>Suc n. P k"
  then obtain k where "k \<le> Suc n" "P k" by blast
  then show "P 0 \<or> (\<exists>k\<le>n. P (Suc k))" by (cases k) auto
qed auto

lemma glob_star: "glob (STAR # p) v \<longleftrightarrow> (\<exists>k\<le>length v. glob p (drop k v))"
proof (induction v)
  case Nil
  then show ?case by (simp add: glob.simps(2))
next
  case (Cons c v)
  then show ?case by (simp add: glob_star_Cons ex_le_Suc)
qed

lemma glob_star_append: "glob (STAR # p) v \<Longrightarrow> glob (STAR # p) (u @ v)"
  by (induction u) (auto simp: glob_star_Cons)

lemma glob_star_drop: "glob (STAR # p) (drop k v) \<Longrightarrow> glob (STAR # p) v"
  using glob_star_append [of p "drop k v" "take k v"] by simp

lemma glob_Nil: "glob p [] \<longleftrightarrow> list_all (\<lambda>c. c = STAR) p"
  by (induction p) (auto simp: glob.simps(2))

lemma glob_seg:
  assumes "STAR \<notin> set s"
  shows "glob (s @ q) w \<longleftrightarrow> length s \<le> length w \<and> seg s (take (length s) w) \<and> glob q (drop (length s) w)"
  using assms
proof (induction s arbitrary: w)
  case (Cons x s)
  then show ?case by (cases w) (auto simp: glob.simps(2) seg_def)
qed simp

section \<open>The loop\<close>

text \<open>The pattern's part after the last star is \<open>S @ R\<close>, of which \<open>S\<close> has been matched with \<open>U\<close>; \<open>X\<close> is
  left of the value.\<close>

lemma seg_star:
  assumes "seg S U"
  shows "glob (STAR # S @ STAR # R) (U @ X) \<longleftrightarrow> glob (STAR # R) X"
proof
  assume "glob (STAR # S @ STAR # R) (U @ X)"
  then obtain k where "glob (S @ STAR # R) (drop k (U @ X))" unfolding glob_star by blast
  then have "glob (STAR # R) (drop (length S) (drop k (U @ X)))" using assms by (simp add: glob_seg seg_def)
  moreover have "drop (length S) (drop k (U @ X)) = drop k (drop (length S) (U @ X))" by (simp only: drop_drop add.commute)
  then have "drop (length S) (drop k (U @ X)) = drop k X" using seg_length [OF assms] by simp
  ultimately show "glob (STAR # R) X" by (metis glob_star_drop)
next
  assume "glob (STAR # R) X"
  then have "glob (S @ STAR # R) (U @ X)" using assms seg_length [OF assms] by (simp add: glob_seg seg_def)
  then show "glob (STAR # S @ STAR # R) (U @ X)" unfolding glob_star by (intro exI [of _ 0]) simp
qed

lemma seg_mismatch:
  assumes "seg S U" and "\<not> glob R X" and "U @ X = c # W"
  shows "glob (STAR # S @ R) (U @ X) \<longleftrightarrow> glob (STAR # S @ R) W"
proof -
  have "\<not> glob (S @ R) (U @ X)" using assms(1,2) seg_length [OF assms(1)] by (simp add: glob_seg seg_def)
  then show ?thesis unfolding assms(3) by (simp add: glob_star_Cons)
qed

lemma seg_end:
  assumes "seg S U"
  shows "glob (STAR # S @ R) U \<longleftrightarrow> list_all (\<lambda>c. c = STAR) R"
proof -
  have "glob (S @ R) (drop k U) \<longleftrightarrow> k = 0 \<and> glob R []" if "k \<le> length U" for k
    using assms seg_length [OF assms] that by (auto simp: glob_seg seg_def)
  then show ?thesis unfolding glob_star glob_Nil [symmetric] by auto
qed

lemma glob_loop_star:
  assumes "STAR \<notin> set (B @ U @ X)" and "seg S U"
  shows "glob_loop (A @ STAR # S @ R) (B @ U @ X) (length A + 1 + length S) (length B + length U) (Some (length A)) (length B) =
    Some (glob (STAR # S @ R) (U @ X))"
  using assms
proof (induction "(length (U @ X), length R + length X)" arbitrary: A B S U R X
    rule: wf_induct_rule [OF wf_lex_prod [OF wf_less_than wf_less_than]])
  case 1
  show ?case
  proof (cases X)
    case Nil
    then show ?thesis using seg_end [OF 1(3)] by (subst glob_loop.simps) simp
  next
    case (Cons c X')
    let ?P = "A @ STAR # S @ R" and ?V = "B @ U @ X"
    have v: "length B + length U < length ?V" "?V ! (length B + length U) = c" "c \<noteq> STAR"
      using Cons 1(2) by (auto simp: nth_append)
    obtain w W where W: "U @ X = w # W" using Cons by (cases U) auto
    have retry: "glob_loop ?P ?V (length A + 1) (length B + 1) (Some (length A)) (length B + 1) = Some (glob (STAR # S @ R) W)"
      using 1(1) [where ?U = "[]" and ?X = W and ?R = "S @ R" and ?S = "[]" and ?B = "B @ [w]" and ?A = A] 1(2) by (simp add: W)
    show ?thesis
    proof (cases R)
      case Nil
      then have "\<not> glob R X" using Cons by simp
      from seg_mismatch [OF 1(3) this W] show ?thesis using v Nil retry by (subst glob_loop.simps) simp
    next
      case R: (Cons x R')
      have p: "length A + 1 + length S < length ?P" "?P ! (length A + 1 + length S) = x" by (simp_all add: R nth_append)
      consider (same) "x = CHR ''?'' \<or> x = c" | (star) "x = STAR" | (other) "\<not> (x = CHR ''?'' \<or> x = c)" "x \<noteq> STAR" by blast
      then show ?thesis
      proof cases
        case same
        then have "x \<noteq> STAR" using v(3) by auto
        then have "seg (S @ [x]) (U @ [c])" using seg_snoc [OF 1(3)] same by blast
        then show ?thesis
          using 1(1) [where ?U = "U @ [c]" and ?X = X' and ?R = R' and ?S = "S @ [x]" and ?B = B and ?A = A] 1(2) v p same
          by (subst glob_loop.simps) (simp add: Cons R)
      next
        case star
        have "glob_loop ?P ?V (length A + 1 + length S + 1) (length B + length U) (Some (length A + 1 + length S)) (length B + length U) =
            Some (glob (STAR # R') X)"
          using 1(1) [where ?U = "[]" and ?X = X and ?R = R' and ?S = "[]" and ?B = "B @ U" and ?A = "A @ STAR # S"] 1(2) star
          by (simp add: R Cons)
        then show ?thesis using seg_star [OF 1(3)] v p star by (subst glob_loop.simps) (simp add: R)
      next
        case other
        then have "\<not> glob R X" by (simp add: R Cons glob.simps(2))
        from seg_mismatch [OF 1(3) this W] show ?thesis using v p other retry by (subst glob_loop.simps) simp
      qed
    qed
  qed
qed

lemma glob_loop_plain:
  assumes "STAR \<notin> set (U @ X)" and "seg S U"
  shows "glob_loop (S @ R) (U @ X) (length S) (length U) None 0 = Some (glob (S @ R) (U @ X))"
  using assms
proof (induction X arbitrary: S U R)
  case Nil
  then show ?case using seg_length [OF Nil(2)] by (subst glob_loop.simps) (simp add: glob_seg seg_def glob_Nil)
next
  case (Cons c X)
  note len = seg_length [OF Cons.prems(2)]
  have spec: "glob (S @ R) (U @ c # X) \<longleftrightarrow> glob R (c # X)" using Cons.prems(2) len by (simp add: glob_seg seg_def)
  have c: "c \<noteq> STAR" "STAR \<notin> set U" "STAR \<notin> set X" using Cons.prems(1) by auto
  show ?case
  proof (cases R)
    case Nil
    then show ?thesis using spec by (subst glob_loop.simps) simp
  next
    case R: (Cons x R')
    consider (same) "x = CHR ''?'' \<or> x = c" | (star) "x = STAR" | (other) "\<not> (x = CHR ''?'' \<or> x = c)" "x \<noteq> STAR" by blast
    then show ?thesis
    proof cases
      case same
      then have "seg (S @ [x]) (U @ [c])" using seg_snoc [OF Cons.prems(2)] c(1) by auto
      then show ?thesis using Cons.IH [of "U @ [c]" "S @ [x]" R'] same c by (subst glob_loop.simps) (simp add: R)
    next
      case star
      then show ?thesis
        using glob_loop_star [of U "[]" "c # X" "[]" S R'] c spec by (subst glob_loop.simps) (simp add: R)
    next
      case other
      then show ?thesis using spec by (subst glob_loop.simps) (simp add: R glob.simps(2))
    qed
  qed
qed

section \<open>Properties of the matcher\<close>

text \<open>C30. On a text without a star (no action name has one) the matcher returns, and what it returns is
  whether the pattern matches the text, a star standing for any text and a question mark for any character.\<close>

theorem glob_matches_meaning:
  assumes "STAR \<notin> set v"
  shows "glob_loop pattern v 0 0 None 0 = Some (glob pattern v) \<and> (GlobMatches pattern v \<longleftrightarrow> glob pattern v)"
  using glob_loop_plain [of "[]" v "[]" pattern] assms by (simp add: GlobMatches_def)

theorem glob_matches_meaning_witness:
  "GlobMatches ''flow/*/r?n*'' ''flow/x/y/run'' \<longleftrightarrow> glob ''flow/*/r?n*'' ''flow/x/y/run''"
  using glob_matches_meaning [of "''flow/x/y/run''" "''flow/*/r?n*''"] by simp

text \<open>A star of the text itself is compared as a literal before the pattern's star is tried.\<close>

lemma glob_literal_star: "glob ''*'' ''*a'' \<and> \<not> GlobMatches ''*'' ''*a''"
  by (simp add: GlobMatches_def glob_loop.simps glob.simps)

end
