(* ===== verification/Authorization.thy ===== *)
theory Authorization
  imports Authorization_Glob Absl_Text Msgpack Names Status_Codec
begin

text \<open>
  Authorization envelopes and connection contexts (\<open>cpp/a11/actions/authorization_codec.cc\<close>,
  \<open>cpp/a11/actions/authorization.cc\<close>, and the header functions of \<open>cpp/a11/actions/action.cc\<close> they use).
  A shared pointer that may be null is an option.  A session object has an identity, so that the owner a
  context store remembers through a weak pointer can be compared with the session of an action; an
  identity is never used for two objects.  Times are numbers; each call of \<open>absl::Now()\<close> is an argument, as
  are the 128-bit strings drawn from the random generator.  Base64, SHA-256 and the verifier are parameters.
\<close>

section \<open>Envelopes\<close>

definition kAuthorizationVersion :: int where
  "kAuthorizationVersion = 1"

definition kMaxAuthorizationBytes :: nat where
  "kMaxAuthorizationBytes = 16 * 1024"

definition kMaxAuthorizationHops :: nat where
  "kMaxAuthorizationHops = 8"

record AuthorizationEnvelope =
  ae_version :: int
  ae_chain :: "string list"

definition ValidateEnvelope :: "AuthorizationEnvelope \<Rightarrow> unit result" where
  "ValidateEnvelope envelope =
     (if ae_version envelope \<noteq> kAuthorizationVersion
      then Err kInvalidArgument (''Authorization version '' @
        (if ae_version envelope < 0 then CHR ''-'' # dec (nat (- ae_version envelope)) else dec (nat (ae_version envelope))) @
        '' is not supported'')
      else if ae_chain envelope = [] \<or> length (ae_chain envelope) > kMaxAuthorizationHops
      then Err kInvalidArgument ''An authorization chain must contain between one and eight statements''
      else r_forall (\<lambda>statement.
        r_guard (statement = [] \<or> count_list statement (CHR ''.'') \<noteq> 2 \<or> list_ex (\<lambda>c. (of_char c :: nat) > 0x7f) statement)
          kInvalidArgument ''Every authorization statement must be an ASCII compact JWS'') (ae_chain envelope))"

definition EncodeAuthorization :: "msgpack_encoder \<Rightarrow> AuthorizationEnvelope \<Rightarrow> string result" where
  "EncodeAuthorization tm envelope =
     r_then (ValidateEnvelope envelope)
       (r_bind (Pack tm (JArray [JInt (of_int (ae_version envelope)), JArray (map JString (ae_chain envelope))]) []) (\<lambda>encoded.
         r_then (r_guard (length encoded > kMaxAuthorizationBytes) kInvalidArgument
             ''An authorization value may contain at most 16384 bytes'')
           (Ok encoded)))"

definition chain_statement :: "json \<Rightarrow> string result" where
  "chain_statement v =
     (case v of
        JString s \<Rightarrow> Ok s
      | _ \<Rightarrow> Err kInvalidArgument ''The authorization chain must contain JWS strings'')"

text \<open>The decoded value as an envelope, checked to be the canonical encoding of it.\<close>

definition envelope_of :: "msgpack_encoder \<Rightarrow> string \<Rightarrow> json \<Rightarrow> AuthorizationEnvelope result" where
  "envelope_of tm v decoded =
     (case decoded of
        JArray [number, JArray statements] \<Rightarrow>
          if \<not> is_number_integer number
          then Err kInvalidArgument ''The authorization envelope must be [version, chain]''
          else if sint (get_bits number) \<noteq> kAuthorizationVersion
          then Err kInvalidArgument ''The authorization version is not supported''
          else
            r_bind (r_map chain_statement statements) (\<lambda>chain.
            let envelope = \<lparr>ae_version = kAuthorizationVersion, ae_chain = chain\<rparr> in
            r_bind (EncodeAuthorization tm envelope) (\<lambda>canonical.
            r_then (r_guard (canonical \<noteq> v) kInvalidArgument ''The authorization envelope is not canonically encoded'')
              (Ok envelope)))
      | _ \<Rightarrow> Err kInvalidArgument ''The authorization envelope must be [version, chain]'')"

definition DecodeAuthorization :: "msgpack_encoder \<Rightarrow> string \<Rightarrow> AuthorizationEnvelope result" where
  "DecodeAuthorization tm v =
     r_then (r_guard (length v > kMaxAuthorizationBytes) kInvalidArgument
         ''An authorization value may contain at most 16384 bytes'')
       (r_bind (Read v) (\<lambda>(decoded, rest). r_then (EnsureFullyConsumed rest) (envelope_of tm v decoded)))"

section \<open>The textual form\<close>

record base64_url =
  WebSafeBase64Escape :: "string \<Rightarrow> string"
  WebSafeBase64Unescape :: "string \<Rightarrow> string option"

definition UnpaddedWebSafeBase64 :: "base64_url \<Rightarrow> string \<Rightarrow> string" where
  "UnpaddedWebSafeBase64 b v = rev (dropWhile (\<lambda>c. c = CHR ''='') (rev (WebSafeBase64Escape b v)))"

definition kTextPrefix :: string where
  "kTextPrefix = ''a11-auth/1.''"

definition AuthorizationToText :: "msgpack_encoder \<Rightarrow> base64_url \<Rightarrow> AuthorizationEnvelope \<Rightarrow> string result" where
  "AuthorizationToText tm b envelope =
     r_bind (EncodeAuthorization tm envelope) (\<lambda>encoded. Ok (kTextPrefix @ UnpaddedWebSafeBase64 b encoded))"

definition is_base64_url :: "char \<Rightarrow> bool" where
  "is_base64_url c \<longleftrightarrow> is_digit c \<or> is_upper c \<or> is_lower c \<or> c = CHR ''-'' \<or> c = CHR ''_''"

definition AuthorizationFromText :: "msgpack_encoder \<Rightarrow> base64_url \<Rightarrow> string \<Rightarrow> AuthorizationEnvelope result" where
  "AuthorizationFromText tm b v =
     (if take (length kTextPrefix) v \<noteq> kTextPrefix
      then Err kInvalidArgument (''The authorization value must start with '' @ [CHR 0x27] @ kTextPrefix @ [CHR 0x27])
      else
        let body = drop (length kTextPrefix) v in
        if \<not> list_all is_base64_url body then Err kInvalidArgument ''The textual authorization value is not base64url''
        else case WebSafeBase64Unescape b body of
          None \<Rightarrow> Err kInvalidArgument ''The textual authorization value is not base64url''
        | Some decoded \<Rightarrow> DecodeAuthorization tm decoded)"

definition AuthorizationFingerprint :: "msgpack_encoder \<Rightarrow> base64_url \<Rightarrow> (string \<Rightarrow> string) \<Rightarrow> AuthorizationEnvelope \<Rightarrow> string result" where
  "AuthorizationFingerprint tm b sha256 envelope =
     r_bind (EncodeAuthorization tm envelope) (\<lambda>encoded. Ok (UnpaddedWebSafeBase64 b (sha256 encoded)))"

section \<open>Actions\<close>

record VerifiedAuthorization =
  va_envelope :: AuthorizationEnvelope
  va_subject :: string
  va_subject_kind :: string
  va_actors :: "string list"
  va_provenance :: "string list"
  va_assurance :: string
  va_audience :: string
  va_expires_at :: int
  va_grants :: json
  va_restrictions :: json
  va_authorization_epoch :: int

text \<open>The fields of an action that authorization uses: \<open>ac_session\<close> is the identity and the id of its session.\<close>

record Action =
  ac_id :: string
  ac_name :: string
  ac_headers :: "(string \<times> string) list"
  ac_session :: "(nat \<times> string) option"
  ac_stream :: "string option"
  ac_verified :: "VerifiedAuthorization option"

definition GetHeader :: "absl_text \<Rightarrow> Action \<Rightarrow> string \<Rightarrow> string option result" where
  "GetHeader tx action name = r_then (ValidateName name) (Ok (map_of (ac_headers action) (AsciiStrToLower tx name)))"

definition HasHeader :: "absl_text \<Rightarrow> Action \<Rightarrow> string \<Rightarrow> bool" where
  "HasHeader tx action name \<longleftrightarrow>
     ValidateName name = Ok () \<and> map_of (ac_headers action) (AsciiStrToLower tx name) \<noteq> None"

definition SetHeader :: "absl_text \<Rightarrow> string \<Rightarrow> string \<Rightarrow> Action \<Rightarrow> Action result" where
  "SetHeader tx name v action =
     r_then (ValidateName name) (Ok (action\<lparr>ac_headers := AList.update (AsciiStrToLower tx name) v (ac_headers action)\<rparr>))"

definition RemoveHeader :: "absl_text \<Rightarrow> string \<Rightarrow> Action \<Rightarrow> Action result" where
  "RemoveHeader tx name action =
     r_then (ValidateName name) (Ok (action\<lparr>ac_headers := AList.delete (AsciiStrToLower tx name) (ac_headers action)\<rparr>))"

definition kAuthorizationHeader :: string where
  "kAuthorizationHeader = ''x-a11-auth''"

definition kAuthorizationReferenceHeader :: string where
  "kAuthorizationReferenceHeader = ''x-a11-auth-ref''"

definition kAuthorizationDefaultHeader :: string where
  "kAuthorizationDefaultHeader = ''x-a11-auth-default''"

definition kAuthorizationReplaceHeader :: string where
  "kAuthorizationReplaceHeader = ''x-a11-auth-replace''"

definition GetAuthorization :: "msgpack_encoder \<Rightarrow> absl_text \<Rightarrow> Action \<Rightarrow> AuthorizationEnvelope option result" where
  "GetAuthorization tm tx action =
     r_bind (GetHeader tx action kAuthorizationHeader) (\<lambda>full.
     r_bind (GetHeader tx action kAuthorizationReferenceHeader) (\<lambda>reference.
       if full \<noteq> None \<and> reference \<noteq> None
       then Err kInvalidArgument ''An action cannot carry both authorization forms''
       else case full of
         None \<Rightarrow> Ok None
       | Some raw \<Rightarrow> r_bind (DecodeAuthorization tm raw) (\<lambda>envelope. Ok (Some envelope))))"

definition SetAuthorization :: "msgpack_encoder \<Rightarrow> absl_text \<Rightarrow> AuthorizationEnvelope option \<Rightarrow> Action option \<Rightarrow> Action result" where
  "SetAuthorization tm tx envelope action =
     (case action of
        None \<Rightarrow> Err kInvalidArgument ''action must not be null''
      | Some a \<Rightarrow>
          (case envelope of
             None \<Rightarrow> RemoveHeader tx kAuthorizationHeader a
           | Some e \<Rightarrow>
               r_bind (EncodeAuthorization tm e) (\<lambda>encoded.
               r_bind (SetHeader tx kAuthorizationHeader encoded a) (RemoveHeader tx kAuthorizationReferenceHeader))))"

definition GetAuthorizationReference :: "absl_text \<Rightarrow> Action \<Rightarrow> string option result" where
  "GetAuthorizationReference tx action =
     r_bind (GetHeader tx action kAuthorizationReferenceHeader) (\<lambda>reference.
       case reference of
         Some r \<Rightarrow> if length r \<noteq> 16 then Err kInvalidArgument ''An authorization context ID must contain 128 bits'' else Ok (Some r)
       | None \<Rightarrow> Ok None)"

definition SetAuthorizationReference :: "absl_text \<Rightarrow> string option \<Rightarrow> Action option \<Rightarrow> Action result" where
  "SetAuthorizationReference tx context_id action =
     (case action of
        None \<Rightarrow> Err kInvalidArgument ''action must not be null''
      | Some a \<Rightarrow>
          (case context_id of
             None \<Rightarrow> RemoveHeader tx kAuthorizationReferenceHeader a
           | Some c \<Rightarrow>
               if length c \<noteq> 16 then Err kInvalidArgument ''An authorization context ID must contain 128 bits''
               else r_bind (SetHeader tx kAuthorizationReferenceHeader c a) (RemoveHeader tx kAuthorizationHeader)))"

section \<open>Restrictions\<close>

definition denied :: "string \<Rightarrow> 'a result" where
  "denied why = Err kPermissionDenied why"

definition check_actions :: "json option \<Rightarrow> string \<Rightarrow> unit result" where
  "check_actions v name =
     (case v of
        None \<Rightarrow> Ok ()
      | Some (JArray patterns) \<Rightarrow>
          r_bind (r_map (\<lambda>p. case p of JString s \<Rightarrow> Ok s | _ \<Rightarrow> denied ''The authorization action restriction is invalid'') patterns) (\<lambda>globs.
            r_guard (\<not> list_ex (\<lambda>g. GlobMatches g name) globs) kPermissionDenied ''The authorization does not allow this action'')
      | Some _ \<Rightarrow> denied ''The authorization action restriction is invalid'')"

definition check_identities :: "json option \<Rightarrow> string \<Rightarrow> unit result" where
  "check_identities v audience =
     (case v of
        None \<Rightarrow> Ok ()
      | Some (JArray identities) \<Rightarrow>
          r_guard (JString audience \<notin> set identities) kPermissionDenied ''The authorization does not allow this identity''
      | Some _ \<Rightarrow> denied ''The authorization does not allow this identity'')"

definition check_request_id :: "json option \<Rightarrow> string \<Rightarrow> unit result" where
  "check_request_id v id' =
     (case v of
        None \<Rightarrow> Ok ()
      | Some r \<Rightarrow> r_guard (r \<noteq> JString id') kPermissionDenied ''The authorization is bound to a different request'')"

definition EnforceRequestRestrictions :: "VerifiedAuthorization \<Rightarrow> Action \<Rightarrow> unit result" where
  "EnforceRequestRestrictions authorization action =
     (case va_restrictions authorization of
        JObject members \<Rightarrow>
          r_then (check_actions (map_of members ''actions'') (ac_name action))
            (r_then (check_identities (map_of members ''identities'') (va_audience authorization))
              (check_request_id (map_of members ''request_id'') (ac_id action)))
      | _ \<Rightarrow> denied ''Authorization restrictions are not an object'')"

section \<open>Connection contexts\<close>

record AuthHeld =
  ah_authorization :: VerifiedAuthorization
  ah_last_used :: int

record AuthStream =
  at_contexts :: "(string \<times> AuthHeld) list"
  at_default :: "string option"

record AuthSession =
  as_owner :: nat
  as_streams :: "(string \<times> AuthStream) list"

record AuthorizationContextStore =
  acs_maximum :: nat
  acs_sessions :: "(string \<times> AuthSession) list"

record AuthorizationContext =
  cx_context_id :: string
  cx_authorization :: VerifiedAuthorization
  cx_is_default :: bool

definition unauthenticated :: "string \<Rightarrow> 'a result" where
  "unauthenticated why = Err kUnauthenticated why"

text \<open>The session's identity and id, and the stream's id.\<close>

definition ScopeOf :: "Action \<Rightarrow> (nat \<times> string \<times> string) result" where
  "ScopeOf action =
     (case (ac_session action, ac_stream action) of
        (Some (owner, session_id), Some stream_id) \<Rightarrow> Ok (owner, session_id, stream_id)
      | _ \<Rightarrow> unauthenticated ''Authorization contexts need an action received on a Session stream'')"

definition Prune :: "int \<Rightarrow> AuthStream \<Rightarrow> AuthStream" where
  "Prune now stream =
     (let live = filter (\<lambda>(id', held). \<not> va_expires_at (ah_authorization held) \<le> now) (at_contexts stream) in
      stream\<lparr>at_contexts := live,
        at_default := (case at_default stream of
            None \<Rightarrow> None
          | Some d \<Rightarrow> if map_of (at_contexts stream) d \<noteq> None \<and> map_of live d = None then None else Some d)\<rparr>)"

text \<open>The least recently used context that is not the default, in the map's order.\<close>

fun find_victim :: "string option \<Rightarrow> (string \<times> AuthHeld) option \<Rightarrow> (string \<times> AuthHeld) list \<Rightarrow> (string \<times> AuthHeld) option" where
  "find_victim dflt victim [] = victim"
| "find_victim dflt victim (entry # rest) =
     (if dflt = Some (fst entry) then find_victim dflt victim rest
      else case victim of
        None \<Rightarrow> find_victim dflt (Some entry) rest
      | Some v \<Rightarrow> find_victim dflt (if ah_last_used (snd entry) < ah_last_used (snd v) then Some entry else victim) rest)"

text \<open>Drawing ids until one is new; a draw is None when the generator fails, and the result is None when the
  draws run out first.\<close>

fun draw_context_id :: "string option list \<Rightarrow> (string \<times> AuthHeld) list \<Rightarrow> string result option" where
  "draw_context_id [] contexts = None"
| "draw_context_id (None # draws) contexts = Some (Err kInternal ''Could not generate an authorization context ID'')"
| "draw_context_id (Some id' # draws) contexts =
     (if map_of contexts id' = None then Some (Ok id') else draw_context_id draws contexts)"

text \<open>
  \<open>Install\<close> on the stream of its scope, after \<open>Prune\<close>.  The result is paired with the stream left behind:
  a context may have been evicted before the id could be drawn.
\<close>

definition install_context ::
  "nat \<Rightarrow> string option list \<Rightarrow> int \<Rightarrow> VerifiedAuthorization \<Rightarrow> bool \<Rightarrow> string option \<Rightarrow> AuthStream \<Rightarrow>
    (AuthorizationContext result \<times> AuthStream) option" where
  "install_context maximum draws used authorization make_default replace stream =
     (if (case replace of Some r \<Rightarrow> map_of (at_contexts stream) r = None | None \<Rightarrow> False)
      then Some (unauthenticated ''The authorization context to replace is unknown'', stream)
      else
        let full = replace = None \<and> length (at_contexts stream) \<ge> maximum;
            victim = find_victim (at_default stream) None (at_contexts stream)
        in if full \<and> victim = None
           then Some (Err kResourceExhausted ''This stream has too many authorization contexts'', stream)
           else
             let kept = (if full then AList.delete (fst (the victim)) (at_contexts stream) else at_contexts stream) in
             case draw_context_id draws kept of
               None \<Rightarrow> None
             | Some (Inl e) \<Rightarrow> Some (Inl e, stream\<lparr>at_contexts := kept\<rparr>)
             | Some (Inr context_id) \<Rightarrow>
                 let added = kept @ [(context_id, \<lparr>ah_authorization = authorization, ah_last_used = used\<rparr>)];
                     dflt = (if make_default then Some context_id
                             else if replace \<noteq> None \<and> at_default stream = replace then None else at_default stream);
                     final = (case replace of Some r \<Rightarrow> AList.delete r added | None \<Rightarrow> added)
                 in Some (Ok \<lparr>cx_context_id = context_id, cx_authorization = authorization, cx_is_default = make_default\<rparr>,
                          \<lparr>at_contexts = final, at_default = dflt\<rparr>))"

text \<open>The session and the stream of a scope, created when absent; a session of another owner is replaced.\<close>

definition session_of :: "AuthorizationContextStore \<Rightarrow> nat \<Rightarrow> string \<Rightarrow> AuthSession" where
  "session_of store owner session_id =
     (case map_of (acs_sessions store) session_id of
        Some s \<Rightarrow> if as_owner s = owner then s else \<lparr>as_owner = owner, as_streams = []\<rparr>
      | None \<Rightarrow> \<lparr>as_owner = owner, as_streams = []\<rparr>)"

definition stream_of :: "AuthSession \<Rightarrow> string \<Rightarrow> AuthStream" where
  "stream_of s stream_id = (case map_of (as_streams s) stream_id of Some t \<Rightarrow> t | None \<Rightarrow> \<lparr>at_contexts = [], at_default = None\<rparr>)"

definition put_stream :: "nat \<Rightarrow> string \<Rightarrow> string \<Rightarrow> AuthStream \<Rightarrow> AuthorizationContextStore \<Rightarrow> AuthorizationContextStore" where
  "put_stream owner session_id stream_id stream store =
     (let s = session_of store owner session_id in
      store\<lparr>acs_sessions := AList.update session_id (s\<lparr>as_streams := AList.update stream_id stream (as_streams s)\<rparr>) (acs_sessions store)\<rparr>)"

definition Install ::
  "int \<times> int \<times> int \<Rightarrow> string option list \<Rightarrow> Action option \<Rightarrow> VerifiedAuthorization option \<Rightarrow> bool \<Rightarrow> string option \<Rightarrow>
    AuthorizationContextStore \<Rightarrow> (AuthorizationContext result \<times> AuthorizationContextStore) option" where
  "Install clock draws action authorization make_default replace store =
     (case (action, authorization) of
        (Some a, Some auth) \<Rightarrow>
          (case clock of (now, pruned, used) \<Rightarrow>
           if va_expires_at auth \<le> now then Some (unauthenticated ''The authorization chain has expired'', store)
           else if (case replace of Some r \<Rightarrow> length r \<noteq> 16 | None \<Rightarrow> False)
           then Some (Err kInvalidArgument ''The replacement context ID must contain 128 bits'', store)
           else case ScopeOf a of
             Inl e \<Rightarrow> Some (Inl e, store)
           | Inr (owner, session_id, stream_id) \<Rightarrow>
               let stream = Prune pruned (stream_of (session_of store owner session_id) stream_id) in
               map_option (\<lambda>(r, stream'). (r, put_stream owner session_id stream_id stream' store))
                 (install_context (acs_maximum store) draws used auth make_default replace stream))
      | _ \<Rightarrow> Some (Err kInvalidArgument ''action and authorization must not be null'', store))"

text \<open>
  The part of \<open>Resolve\<close> under the mutex: the context the action selects and the stream with its use recorded.
\<close>

definition select_context :: "int \<times> int \<Rightarrow> string option \<Rightarrow> AuthStream \<Rightarrow> VerifiedAuthorization result \<times> AuthStream" where
  "select_context clock reference stream =
     (let s = Prune (fst clock) stream;
          selected = (if reference \<noteq> None then reference else at_default s)
      in case selected of
           None \<Rightarrow> (unauthenticated ''This stream has no authorization context'', s)
         | Some id' \<Rightarrow>
             (case map_of (at_contexts s) id' of
                None \<Rightarrow> (unauthenticated ''The authorization context is unknown or expired'', s)
              | Some held \<Rightarrow>
                  (Ok (ah_authorization held),
                   s\<lparr>at_contexts := AList.update id' (held\<lparr>ah_last_used := snd clock\<rparr>) (at_contexts s)\<rparr>)))"

definition held_stream :: "AuthorizationContextStore \<Rightarrow> nat \<Rightarrow> string \<Rightarrow> string \<Rightarrow> AuthStream option" where
  "held_stream store owner session_id stream_id =
     (case map_of (acs_sessions store) session_id of
        None \<Rightarrow> None
      | Some s \<Rightarrow> if as_owner s = owner then map_of (as_streams s) stream_id else None)"

definition Resolve ::
  "absl_text \<Rightarrow> int \<times> int \<Rightarrow> Action option \<Rightarrow> AuthorizationContextStore \<Rightarrow>
    VerifiedAuthorization result \<times> AuthorizationContextStore \<times> Action option" where
  "Resolve tx clock action store =
     (case action of
        None \<Rightarrow> (Err kInvalidArgument ''action must not be null'', store, None)
      | Some a \<Rightarrow>
          (case ac_verified a of
             Some bound \<Rightarrow> (Ok bound, store, action)
           | None \<Rightarrow>
               (case GetHeader tx a kAuthorizationHeader of
                  Inl e \<Rightarrow> (Inl e, store, action)
                | Inr (Some _) \<Rightarrow> (unauthenticated ''A complete authorization must be verified before it is used'', store, action)
                | Inr None \<Rightarrow>
                    (case r_bind (ScopeOf a) (\<lambda>scope. r_bind (GetAuthorizationReference tx a) (\<lambda>reference. Ok (scope, reference))) of
                       Inl e \<Rightarrow> (Inl e, store, action)
                     | Inr ((owner, session_id, stream_id), reference) \<Rightarrow>
                         (case held_stream store owner session_id stream_id of
                            None \<Rightarrow> (unauthenticated ''This stream has no authorization context'', store, action)
                          | Some stream \<Rightarrow>
                              (case select_context clock reference stream of
                                 (selected, stream') \<Rightarrow>
                                   let store' = put_stream owner session_id stream_id stream' store in
                                   (case selected of
                                      Inl e \<Rightarrow> (Inl e, store', action)
                                    | Inr auth \<Rightarrow>
                                        (case EnforceRequestRestrictions auth a of
                                           Inl e \<Rightarrow> (Inl e, store', action)
                                         | Inr _ \<Rightarrow> (Ok auth, store', Some (a\<lparr>ac_verified := Some auth\<rparr>))))))))))"

definition ClearStream :: "Action \<Rightarrow> AuthorizationContextStore \<Rightarrow> unit result \<times> AuthorizationContextStore" where
  "ClearStream action store =
     (case ScopeOf action of
        Inl e \<Rightarrow> (Inl e, store)
      | Inr (owner, session_id, stream_id) \<Rightarrow>
          (Ok (),
           case map_of (acs_sessions store) session_id of
             None \<Rightarrow> store
           | Some s \<Rightarrow>
               if as_owner s \<noteq> owner then store
               else
                 let rest = AList.delete stream_id (as_streams s) in
                 store\<lparr>acs_sessions :=
                   if rest = [] then AList.delete session_id (acs_sessions store)
                   else AList.update session_id (s\<lparr>as_streams := rest\<rparr>) (acs_sessions store)\<rparr>))"

definition ClearSession :: "string \<Rightarrow> AuthorizationContextStore \<Rightarrow> AuthorizationContextStore" where
  "ClearSession session_id store = store\<lparr>acs_sessions := AList.delete session_id (acs_sessions store)\<rparr>"

section \<open>The authorizing action\<close>

text \<open>What the handler calls outside this component: the verifier, SHA-256, base64, the JSON printer and
  the conversion of a time to the bits of a double.\<close>

record authorizer =
  az_tm :: msgpack_encoder
  az_base64 :: base64_url
  az_sha256 :: "string \<Rightarrow> string"
  az_dump :: json_printer
  az_seconds :: "int \<Rightarrow> u64"
  az_verifier :: "string \<Rightarrow> VerifiedAuthorization result"

definition context_response :: "authorizer \<Rightarrow> AuthorizationContext \<Rightarrow> string \<Rightarrow> json" where
  "context_response az context fingerprint =
     JObject
       [(''context_id'', JString (UnpaddedWebSafeBase64 (az_base64 az) (cx_context_id context))),
        (''expires_at'', JFloat (az_seconds az (va_expires_at (cx_authorization context)))),
        (''fingerprint'', JString fingerprint),
        (''is_default'', JBool (cx_is_default context))]"

text \<open>The handler of \<open>__authorize__\<close> up to the text it finalises its output with.\<close>

definition authorize_handler ::
  "authorizer \<Rightarrow> absl_text \<Rightarrow> int \<times> int \<times> int \<Rightarrow> string option list \<Rightarrow> Action \<Rightarrow> AuthorizationContextStore \<Rightarrow>
    (string result \<times> AuthorizationContextStore) option" where
  "authorize_handler az tx clock draws action contexts =
     (let prepared =
        r_bind (GetHeader tx action kAuthorizationHeader) (\<lambda>raw.
        case raw of
          None \<Rightarrow> unauthenticated ''The __authorize__ action needs x-a11-auth''
        | Some chain \<Rightarrow>
            r_bind (GetHeader tx action kAuthorizationReferenceHeader) (\<lambda>reference.
            if reference \<noteq> None then Err kInvalidArgument ''__authorize__ cannot use x-a11-auth-ref''
            else
              r_bind (GetHeader tx action kAuthorizationDefaultHeader) (\<lambda>default_value.
              r_bind (GetHeader tx action kAuthorizationReplaceHeader) (\<lambda>replace.
              r_bind (az_verifier az chain) (\<lambda>verified. Ok (verified, default_value \<noteq> Some ''0'', replace))))))
      in case prepared of
           Inl e \<Rightarrow> Some (Inl e, contexts)
         | Inr (held, make_default, replace) \<Rightarrow>
             map_option (\<lambda>(installed, contexts').
                 (r_bind installed (\<lambda>context.
                    r_bind (AuthorizationFingerprint (az_tm az) (az_base64 az) (az_sha256 az) (va_envelope held)) (\<lambda>fingerprint.
                    DumpJson (az_dump az) (context_response az context fingerprint) ''authorization context'')),
                  contexts'))
               (Install clock draws (Some action) (Some held) make_default replace contexts))"

end
