(* ===== verification/Authorization_Store.thy ===== *)
theory Authorization_Store
  imports Authorization
begin

text \<open>
  The invariant of the context store of \<open>Authorization\<close> and what its runs can hold.  A stream keeps at most the
  configured number of contexts under distinct ids and its default is one of them; \<open>auth_run\<close> is the runs of a
  store under the calls of its interface, each with the grants made so far and not withdrawn since.
\<close>

declare unauthenticated_def [simp] denied_def [simp]
declare split_paired_All [simp del] split_paired_Ex [simp del]

section \<open>The invariant\<close>

definition auth_stream_ok :: "nat \<Rightarrow> AuthStream \<Rightarrow> bool" where
  "auth_stream_ok maximum t \<longleftrightarrow>
     distinct (map fst (at_contexts t)) \<and> length (at_contexts t) \<le> maximum \<and>
     (case at_default t of None \<Rightarrow> True | Some d \<Rightarrow> map_of (at_contexts t) d \<noteq> None)"

definition auth_store_ok :: "AuthorizationContextStore \<Rightarrow> bool" where
  "auth_store_ok store \<longleftrightarrow>
     list_all (\<lambda>(session_id, s). list_all (\<lambda>(stream_id, t). auth_stream_ok (acs_maximum store) t) (as_streams s)) (acs_sessions store)"

lemma list_all_update: "list_all P xs \<Longrightarrow> P (k, v) \<Longrightarrow> list_all P (AList.update k v xs)"
  by (induction xs) auto

lemma list_all_delete: "list_all P xs \<Longrightarrow> list_all P (AList.delete k xs)"
  by (induction xs) auto

lemma list_all_map_of: "list_all P xs \<Longrightarrow> map_of xs k = Some v \<Longrightarrow> P (k, v)"
  by (auto dest!: map_of_SomeD simp: list_all_iff)

lemma length_delete_less: "map_of xs k \<noteq> None \<Longrightarrow> length (AList.delete k xs) < length xs"
  by (induction xs) (auto simp: AList.length_delete_le le_imp_less_Suc)

lemma distinct_delete_keys: "distinct (map fst xs) \<Longrightarrow> distinct (map fst (AList.delete k xs))"
  by (simp add: distinct_delete)

lemma map_of_not_key: "map_of xs k = None \<longleftrightarrow> k \<notin> set (map fst xs)"
  by (simp add: map_of_eq_None_iff)

lemma session_of_ok:
  "auth_store_ok store \<Longrightarrow> list_all (\<lambda>(stream_id, t). auth_stream_ok (acs_maximum store) t) (as_streams (session_of store owner session_id))"
  by (auto simp: auth_store_ok_def session_of_def dest: list_all_map_of split: option.split)

lemma stream_of_ok: "auth_store_ok store \<Longrightarrow> auth_stream_ok (acs_maximum store) (stream_of (session_of store owner session_id) stream_id)"
  using session_of_ok [of store owner session_id]
  by (auto simp: stream_of_def auth_stream_ok_def dest: list_all_map_of split: option.split)

lemma put_stream_ok:
  "auth_store_ok store \<Longrightarrow> auth_stream_ok (acs_maximum store) t \<Longrightarrow> auth_store_ok (put_stream owner session_id stream_id t store)"
  using session_of_ok [of store owner session_id]
  by (auto simp: auth_store_ok_def put_stream_def Let_def intro!: list_all_update)

lemma held_stream_ok: "auth_store_ok store \<Longrightarrow> held_stream store owner session_id stream_id = Some t \<Longrightarrow> auth_stream_ok (acs_maximum store) t"
  by (auto simp: auth_store_ok_def held_stream_def dest!: list_all_map_of split: option.splits if_splits)

lemma map_of_kept:
  assumes "distinct (map fst entries)"
  shows "map_of (filter live entries) key = Some held \<longleftrightarrow> map_of entries key = Some held \<and> live (key, held)"
  using assms by (simp add: map_of_eq_Some_iff distinct_map_filter)

lemma Prune_ok: "auth_stream_ok maximum t \<Longrightarrow> auth_stream_ok maximum (Prune now t)"
  by (auto simp: auth_stream_ok_def Prune_def Let_def distinct_map_filter intro: le_trans [OF length_filter_le] split: option.splits)

section \<open>Installing\<close>

lemma find_victim_found:
  assumes "find_victim dflt v xs = Some e"
  shows "v = Some e \<or> e \<in> set xs \<and> dflt \<noteq> Some (fst e)"
  using assms by (induction dflt v xs rule: find_victim.induct) (auto split: if_splits option.splits)

lemma draw_context_id_fresh: "draw_context_id draws xs = Some (Inr k) \<Longrightarrow> map_of xs k = None"
  by (induction draws xs rule: draw_context_id.induct) (auto split: if_splits)

text \<open>What a call of \<open>install_context\<close> leaves: the old contexts without one it may have dropped, and the new one.\<close>

lemma install_context_Ok:
  assumes "install_context maximum draws used auth dflt replace t = Some (Inr cx, t')" "auth_stream_ok maximum t"
  obtains kept where
    "auth_stream_ok maximum (t\<lparr>at_contexts := kept\<rparr>)" "replace = None \<longrightarrow> length kept < maximum"
    "case replace of None \<Rightarrow> True | Some r \<Rightarrow> map_of kept r \<noteq> None"
    "\<And>k h. map_of kept k = Some h \<Longrightarrow> map_of (at_contexts t) k = Some h"
    "map_of kept (cx_context_id cx) = None"
    "cx = \<lparr>cx_context_id = cx_context_id cx, cx_authorization = auth, cx_is_default = dflt\<rparr>"
    "at_contexts t' = (let added = kept @ [(cx_context_id cx, \<lparr>ah_authorization = auth, ah_last_used = used\<rparr>)] in
       case replace of None \<Rightarrow> added | Some r \<Rightarrow> AList.delete r added)"
    "at_default t' = (if dflt then Some (cx_context_id cx) else if replace \<noteq> None \<and> at_default t = replace then None else at_default t)"
proof -
  define full where "full \<longleftrightarrow> replace = None \<and> length (at_contexts t) \<ge> maximum"
  define victim where "victim = find_victim (at_default t) None (at_contexts t)"
  define kept where "kept = (if full then AList.delete (fst (the victim)) (at_contexts t) else at_contexts t)"
  have known: "case replace of None \<Rightarrow> True | Some r \<Rightarrow> map_of (at_contexts t) r \<noteq> None" and vic: "full \<Longrightarrow> victim \<noteq> None"
    and drawn: "draw_context_id draws kept = Some (Inr (cx_context_id cx))"
    and cx: "cx = \<lparr>cx_context_id = cx_context_id cx, cx_authorization = auth, cx_is_default = dflt\<rparr>"
    and t': "t' = \<lparr>at_contexts = (let added = kept @ [(cx_context_id cx, \<lparr>ah_authorization = auth, ah_last_used = used\<rparr>)] in
        case replace of None \<Rightarrow> added | Some r \<Rightarrow> AList.delete r added),
      at_default = (if dflt then Some (cx_context_id cx) else if replace \<noteq> None \<and> at_default t = replace then None else at_default t)\<rparr>"
    using assms(1) unfolding install_context_def Let_def full_def [symmetric] victim_def [symmetric] kept_def [symmetric]
    by (auto split: if_splits option.splits sum.splits)
  have v: "the victim \<in> set (at_contexts t) \<and> at_default t \<noteq> Some (fst (the victim))" if full
    using vic [OF that] find_victim_found [of "at_default t" None "at_contexts t"] by (auto simp: victim_def)
  then have less: "length (AList.delete (fst (the victim)) (at_contexts t)) < length (at_contexts t)" if full
    using that by (intro length_delete_less) (auto simp: map_of_eq_None_iff)
  have ok: "auth_stream_ok maximum (t\<lparr>at_contexts := kept\<rparr>)"
    using assms(2) less v by (auto simp: auth_stream_ok_def kept_def distinct_delete_keys delete_conv' split: option.splits)
  have short: "replace = None \<longrightarrow> length kept < maximum"
    using less assms(2) by (auto simp: kept_def full_def auth_stream_ok_def)
  have rep: "case replace of None \<Rightarrow> True | Some r \<Rightarrow> map_of kept r \<noteq> None"
    using known by (auto simp: kept_def full_def split: option.splits)
  have sub: "map_of kept k = Some h \<Longrightarrow> map_of (at_contexts t) k = Some h" for k h
    by (auto simp: kept_def delete_conv' split: if_splits)
  show ?thesis using that [OF ok short rep sub draw_context_id_fresh [OF drawn] cx] t' by simp
qed

lemma map_of_added:
  assumes "map_of kept c = None"
  shows "map_of (kept @ [(c, h)]) = (map_of kept)(c \<mapsto> h)"
proof
  show "map_of (kept @ [(c, h)]) k = ((map_of kept)(c \<mapsto> h)) k" for k
    using assms by (auto simp: map_add_def split: option.split)
qed

lemma map_of_installed:
  assumes "map_of kept c = None" "case replace of None \<Rightarrow> True | Some r \<Rightarrow> map_of kept r \<noteq> None"
  shows "map_of (let added = kept @ [(c, h)] in case replace of None \<Rightarrow> added | Some r \<Rightarrow> AList.delete r added) k =
    (if k = c then Some h else if Some k = replace then None else map_of kept k)"
  using assms(2) by (auto simp: Let_def map_of_added [OF assms(1)] delete_conv' assms(1) simp del: map_of_append split: option.splits)

lemma installed_contexts:
  assumes "install_context maximum draws used auth dflt replace t = Some (Inr cx, t')" "auth_stream_ok maximum t"
  shows "map_of (at_contexts t') (cx_context_id cx) = Some \<lparr>ah_authorization = auth, ah_last_used = used\<rparr> \<and>
    (\<forall>k h. map_of (at_contexts t') k = Some h \<longrightarrow> k \<noteq> cx_context_id cx \<longrightarrow> map_of (at_contexts t) k = Some h \<and> Some k \<noteq> replace) \<and>
    cx_authorization cx = auth \<and> cx_is_default cx = dflt \<and> (dflt \<longrightarrow> at_default t' = Some (cx_context_id cx))"
proof (rule install_context_Ok [OF assms])
  fix kept
  let ?h = "\<lparr>ah_authorization = auth, ah_last_used = used\<rparr>"
  assume kept: "case replace of None \<Rightarrow> True | Some r \<Rightarrow> map_of kept r \<noteq> None" "map_of kept (cx_context_id cx) = None"
      "\<And>k h. map_of kept k = Some h \<Longrightarrow> map_of (at_contexts t) k = Some h"
    and cx: "cx = \<lparr>cx_context_id = cx_context_id cx, cx_authorization = auth, cx_is_default = dflt\<rparr>"
    and t': "at_contexts t' = (let added = kept @ [(cx_context_id cx, ?h)] in case replace of None \<Rightarrow> added | Some r \<Rightarrow> AList.delete r added)"
      "at_default t' = (if dflt then Some (cx_context_id cx) else if replace \<noteq> None \<and> at_default t = replace then None else at_default t)"
  have "map_of (at_contexts t') k = (if k = cx_context_id cx then Some ?h else if Some k = replace then None else map_of kept k)" for k
    unfolding t'(1) by (rule map_of_installed [OF kept(2,1)])
  moreover have "cx_authorization cx = auth \<and> cx_is_default cx = dflt" by (subst cx, simp)+
  ultimately show ?thesis using kept(3) t'(2) by (auto split: if_splits)
qed

lemma install_context_ok:
  assumes "install_context maximum draws used auth dflt replace t = Some (r, t')" "auth_stream_ok maximum t"
  shows "auth_stream_ok maximum t'"
proof (cases r)
  case (Inl e)
  then show ?thesis
    using assms find_victim_found [of "at_default t" None "at_contexts t"] length_delete_less
    by (auto simp: install_context_def Let_def auth_stream_ok_def distinct_delete_keys delete_conv'
        intro: le_trans [OF AList.length_delete_le] split: if_splits option.splits sum.splits)
next
  case (Inr cx)
  show ?thesis
  proof (rule install_context_Ok [OF assms [unfolded Inr]])
    fix kept
    let ?added = "kept @ [(cx_context_id cx, \<lparr>ah_authorization = auth, ah_last_used = used\<rparr>)]"
    assume kept: "auth_stream_ok maximum (t\<lparr>at_contexts := kept\<rparr>)" "replace = None \<longrightarrow> length kept < maximum"
      "case replace of None \<Rightarrow> True | Some r \<Rightarrow> map_of kept r \<noteq> None" "map_of kept (cx_context_id cx) = None"
      and t': "at_contexts t' = (let added = ?added in case replace of None \<Rightarrow> added | Some r \<Rightarrow> AList.delete r added)"
        "at_default t' = (if dflt then Some (cx_context_id cx) else if replace \<noteq> None \<and> at_default t = replace then None else at_default t)"
    have dist: "distinct (map fst ?added)" using kept(1,4) by (auto simp: auth_stream_ok_def map_of_eq_None_iff)
    have less: "length (AList.delete r ?added) < length ?added" if "replace = Some r" for r
      using kept(3) that by (intro length_delete_less) (auto simp: map_of_added [OF kept(4)] simp del: map_of_append)
    have "distinct (map fst (at_contexts t'))"
      using dist by (cases replace) (simp_all add: t'(1) Let_def distinct_delete_keys del: map_append)
    moreover have "length (at_contexts t') \<le> maximum"
      using kept(1,2) less by (cases replace) (fastforce simp: t'(1) Let_def auth_stream_ok_def)+
    moreover have "map_of (at_contexts t') d \<noteq> None" if "at_default t' = Some d" for d
      using that kept(1) unfolding t' map_of_installed [OF kept(4,3)]
      by (auto simp: auth_stream_ok_def split: if_splits)
    ultimately show ?thesis by (auto simp: auth_stream_ok_def split: option.split)
  qed
qed

section \<open>Every operation keeps the invariant\<close>

lemma put_stream_maximum [simp]: "acs_maximum (put_stream owner session_id stream_id t store) = acs_maximum store"
  by (simp add: put_stream_def Let_def)

lemma Install_scoped:
  assumes "ScopeOf a = Ok (owner, session_id, stream_id)" "\<not> va_expires_at v \<le> fst clock"
    "case replace of None \<Rightarrow> True | Some r \<Rightarrow> length r = 16"
  shows "Install clock draws (Some a) (Some v) dflt replace store =
    map_option (\<lambda>(r, t'). (r, put_stream owner session_id stream_id t' store))
      (install_context (acs_maximum store) draws (snd (snd clock)) v dflt replace
         (Prune (fst (snd clock)) (stream_of (session_of store owner session_id) stream_id)))"
  using assms by (cases clock) (simp add: Install_def split: option.splits)

lemma Install_refused:
  assumes "\<not> (\<exists>a v scope. action = Some a \<and> auth = Some v \<and> ScopeOf a = Ok scope \<and> \<not> va_expires_at v \<le> fst clock \<and>
    (case replace of None \<Rightarrow> True | Some r \<Rightarrow> length r = 16))"
  shows "\<exists>e. Install clock draws action auth dflt replace store = Some (Inl e, store)"
  using assms by (cases clock; cases action; cases auth) (auto simp: Install_def split: option.splits sum.splits)

lemma Install_cases:
  assumes "Install clock draws action auth dflt replace store = Some (r, store')"
  obtains e where "r = Inl e" "store' = store"
  | a v owner session_id stream_id t' where "action = Some a" "auth = Some v" "ScopeOf a = Ok (owner, session_id, stream_id)"
      "install_context (acs_maximum store) draws (snd (snd clock)) v dflt replace
         (Prune (fst (snd clock)) (stream_of (session_of store owner session_id) stream_id)) = Some (r, t')"
      "store' = put_stream owner session_id stream_id t' store"
proof (cases "\<exists>a v scope. action = Some a \<and> auth = Some v \<and> ScopeOf a = Ok scope \<and> \<not> va_expires_at v \<le> fst clock \<and>
    (case replace of None \<Rightarrow> True | Some r \<Rightarrow> length r = 16)")
  case True
  then obtain a v owner session_id stream_id where scope: "action = Some a" "auth = Some v" "ScopeOf a = Ok (owner, session_id, stream_id)"
    "\<not> va_expires_at v \<le> fst clock" "case replace of None \<Rightarrow> True | Some r \<Rightarrow> length r = 16" by auto
  then show ?thesis using assms that(2) [OF scope(1-3)] by (auto simp: Install_scoped [OF scope(3-5)])
next
  case False
  show ?thesis using Install_refused [OF False, of draws dflt store] assms that(1) by auto
qed

lemma Install_ok:
  assumes "auth_store_ok store" "Install clock draws action auth dflt replace store = Some (r, store')"
  shows "auth_store_ok store' \<and> acs_maximum store' = acs_maximum store"
  using assms(2)
proof (cases rule: Install_cases)
  case (2 a v owner session_id stream_id t')
  have "auth_stream_ok (acs_maximum store) t'" by (rule install_context_ok [OF 2(4) Prune_ok [OF stream_of_ok [OF assms(1)]]])
  then show ?thesis by (simp add: 2(5) put_stream_ok [OF assms(1)])
qed (use assms(1) in simp)

lemma keys_of_update: "map_of xs k \<noteq> None \<Longrightarrow> map fst (AList.update k v xs) = map fst xs"
  by (induction xs) auto

lemma auth_stream_ok_used:
  assumes "auth_stream_ok maximum t" "map_of (at_contexts t) k \<noteq> None"
  shows "auth_stream_ok maximum (t\<lparr>at_contexts := AList.update k h (at_contexts t)\<rparr>)"
proof -
  have keys: "map fst (AList.update k h (at_contexts t)) = map fst (at_contexts t)" by (rule keys_of_update [OF assms(2)])
  then have "length (AList.update k h (at_contexts t)) = length (at_contexts t)" by (metis length_map)
  then show ?thesis using assms keys by (auto simp: auth_stream_ok_def update_conv' split: option.splits)
qed

lemma select_context_ok: "auth_stream_ok maximum t \<Longrightarrow> auth_stream_ok maximum (snd (select_context clock reference t))"
  using Prune_ok [of maximum t "fst clock"]
  by (auto simp: select_context_def Let_def intro!: auth_stream_ok_used split: option.splits)

lemma Resolve_ok:
  assumes "auth_store_ok store" "Resolve tx clock action store = (r, store', action')"
  shows "auth_store_ok store' \<and> acs_maximum store' = acs_maximum store"
proof -
  have "auth_stream_ok (acs_maximum store) t'" if "held_stream store o' sid st = Some t" "select_context clock reference t = (sel, t')" for o' sid st t reference sel t'
    using select_context_ok [OF held_stream_ok [OF assms(1) that(1)], of clock reference] that(2) by simp
  then show ?thesis
    using assms by (auto simp: Resolve_def Let_def intro!: put_stream_ok split: option.splits sum.splits prod.splits)
qed

lemma Clear_ok:
  assumes "auth_store_ok store"
  shows "auth_store_ok (snd (ClearStream a store)) \<and> acs_maximum (snd (ClearStream a store)) = acs_maximum store"
    and "auth_store_ok (ClearSession sid store) \<and> acs_maximum (ClearSession sid store) = acs_maximum store"
proof -
  have streams: "list_all (\<lambda>(stream_id, t). auth_stream_ok (acs_maximum store) t) (as_streams s)"
    if "map_of (acs_sessions store) k = Some s" for k s
    using list_all_map_of [OF assms [unfolded auth_store_ok_def] that] by simp
  show "auth_store_ok (snd (ClearStream a store)) \<and> acs_maximum (snd (ClearStream a store)) = acs_maximum store"
    using assms streams
    by (auto simp: ClearStream_def auth_store_ok_def Let_def intro!: list_all_update list_all_delete split: option.splits sum.splits)
  show "auth_store_ok (ClearSession sid store) \<and> acs_maximum (ClearSession sid store) = acs_maximum store"
    using assms by (auto simp: ClearSession_def auth_store_ok_def intro!: list_all_delete)
qed

section \<open>Runs and what was granted\<close>

text \<open>A grant: the session object, session id and stream of an installation, the id it got and what was verified.\<close>

type_synonym auth_scope = "nat \<times> string \<times> string"
type_synonym auth_grant = "auth_scope \<times> string \<times> VerifiedAuthorization"

definition granted :: "Action option \<Rightarrow> string option \<Rightarrow> AuthorizationContext result \<Rightarrow> auth_grant set \<Rightarrow> auth_grant set" where
  "granted action replace r G =
     (case (action, r) of
        (Some a, Inr cx) \<Rightarrow>
          (case ScopeOf a of
             Inr scope \<Rightarrow> insert (scope, cx_context_id cx, cx_authorization cx) {g \<in> G. \<not> (fst g = scope \<and> Some (fst (snd g)) = replace)}
           | Inl _ \<Rightarrow> G)
      | _ \<Rightarrow> G)"

inductive auth_run :: "nat \<Rightarrow> AuthorizationContextStore \<Rightarrow> auth_grant set \<Rightarrow> bool" for maximum :: nat where
  start: "auth_run maximum \<lparr>acs_maximum = maximum, acs_sessions = []\<rparr> {}"
| install: "auth_run maximum store G \<Longrightarrow> Install clock draws action auth dflt replace store = Some (r, store') \<Longrightarrow>
    auth_run maximum store' (granted action replace r G)"
| resolve: "auth_run maximum store G \<Longrightarrow> Resolve tx clock2 action store = (v, store', action') \<Longrightarrow> auth_run maximum store' G"
| clear_stream: "auth_run maximum store G \<Longrightarrow> ClearStream a store = (Ok (), store') \<Longrightarrow>
    auth_run maximum store' {g \<in> G. ScopeOf a \<noteq> Ok (fst g)}"
| clear_session: "auth_run maximum store G \<Longrightarrow> auth_run maximum (ClearSession sid store) {g \<in> G. fst (snd (fst g)) \<noteq> sid}"

inductive_cases auth_run_E: "auth_run maximum store G"

definition grants_hold :: "AuthorizationContextStore \<Rightarrow> auth_grant set \<Rightarrow> bool" where
  "grants_hold store G \<longleftrightarrow>
     (\<forall>owner session_id stream_id t k h. held_stream store owner session_id stream_id = Some t \<longrightarrow> map_of (at_contexts t) k = Some h \<longrightarrow>
        ((owner, session_id, stream_id), k, ah_authorization h) \<in> G)"

lemma held_stream_put:
  "held_stream (put_stream owner session_id stream_id t store) owner' session_id' stream_id' =
     (if session_id' \<noteq> session_id then held_stream store owner' session_id' stream_id'
      else if owner' \<noteq> owner then None
      else if stream_id' = stream_id then Some t
      else held_stream store owner' session_id' stream_id')"
  by (auto simp: held_stream_def put_stream_def Let_def update_conv' session_of_def split: option.splits)

lemma stream_of_held: "map_of (at_contexts (stream_of (session_of store owner session_id) stream_id)) k = Some h \<Longrightarrow>
  \<exists>t. held_stream store owner session_id stream_id = Some t \<and> map_of (at_contexts t) k = Some h"
  by (auto simp: stream_of_def session_of_def held_stream_def split: option.splits if_splits)

lemma map_of_Prune_Some:
  "auth_stream_ok maximum t \<Longrightarrow> map_of (at_contexts (Prune now t)) k = Some h \<longleftrightarrow>
   map_of (at_contexts t) k = Some h \<and> \<not> va_expires_at (ah_authorization h) \<le> now"
  by (simp add: auth_stream_ok_def Prune_def Let_def map_of_kept del: map_of_eq_Some_iff)

lemma grants_hold_put:
  assumes "grants_hold store G" "G - {g. fst g = (owner, session_id, stream_id)} \<subseteq> G'"
    "\<And>k h. map_of (at_contexts t) k = Some h \<Longrightarrow> ((owner, session_id, stream_id), k, ah_authorization h) \<in> G'"
  shows "grants_hold (put_stream owner session_id stream_id t store) G'"
  using assms unfolding grants_hold_def held_stream_put by (auto 4 4 split: if_splits)

lemma install_context_Err:
  "install_context maximum draws used auth dflt replace t = Some (Inl e, t') \<Longrightarrow> map_of (at_contexts t') k = Some h \<Longrightarrow>
   map_of (at_contexts t) k = Some h"
  by (auto simp: install_context_def Let_def delete_conv' split: option.splits if_splits sum.splits)

lemma installed_from:
  assumes "install_context maximum draws used auth dflt replace t = Some (r, t')" "auth_stream_ok maximum t" "map_of (at_contexts t') k = Some h"
  obtains cx where "r = Inr cx" "k = cx_context_id cx" "ah_authorization h = cx_authorization cx"
  | "map_of (at_contexts t) k = Some h" "\<And>cx. r = Inr cx \<Longrightarrow> Some k \<noteq> replace"
proof (cases r)
  case (Inl e)
  then show ?thesis using install_context_Err [OF assms(1) [unfolded Inl] assms(3)] that(2) by simp
next
  case (Inr cx)
  note new = installed_contexts [OF assms(1) [unfolded Inr] assms(2)]
  show ?thesis
  proof (cases "k = cx_context_id cx")
    case True
    then have "ah_authorization h = cx_authorization cx" using new assms(3) by auto
    then show ?thesis using that(1) Inr True by blast
  next
    case False
    then show ?thesis using new assms(3) that(2) by blast
  qed
qed

lemma grants_hold_Install:
  assumes "grants_hold store G" "auth_store_ok store" "Install clock draws action auth dflt replace store = Some (r, store')"
  shows "grants_hold store' (granted action replace r G)"
  using assms(3)
proof (cases rule: Install_cases)
  case (2 a v owner session_id stream_id t')
  note act = 2(1,3) and store' = 2(5)
  note ok = stream_of_ok [OF assms(2), of owner session_id stream_id]
  have "((owner, session_id, stream_id), k, ah_authorization h) \<in> granted action replace r G" if h: "map_of (at_contexts t') k = Some h" for k h
    using 2(4) Prune_ok [OF ok] h
  proof (cases rule: installed_from)
    case (1 cx)
    then show ?thesis by (simp add: granted_def act)
  next
    case old: 2
    then have "((owner, session_id, stream_id), k, ah_authorization h) \<in> G"
      using stream_of_held assms(1) unfolding map_of_Prune_Some [OF ok] grants_hold_def by blast
    then show ?thesis using old(2) by (cases r) (auto simp: granted_def act)
  qed
  then show ?thesis unfolding store' by (rule grants_hold_put [OF assms(1), rotated]) (auto simp: granted_def act split: sum.split)
qed (use assms(1) in \<open>simp add: granted_def split: option.split\<close>)

lemma select_context_selected:
  assumes "select_context clock reference t = (sel, t')" "auth_stream_ok maximum t"
  shows "map_of (at_contexts t') k = Some h \<Longrightarrow> \<exists>h'. map_of (at_contexts t) k = Some h' \<and> ah_authorization h' = ah_authorization h"
    and "sel = Ok v \<Longrightarrow> \<exists>k h. map_of (at_contexts t) k = Some h \<and> ah_authorization h = v \<and> \<not> va_expires_at v \<le> fst clock \<and>
      (case reference of Some r \<Rightarrow> k = r | None \<Rightarrow> at_default t = Some k)"
proof -
  have dflt: "at_default (Prune now t) = Some d \<Longrightarrow> at_default t = Some d" for now d
    by (auto simp: Prune_def Let_def split: option.splits if_splits)
  note defs = select_context_def Let_def update_conv' map_of_Prune_Some [OF assms(2)]
  show "map_of (at_contexts t') k = Some h \<Longrightarrow> \<exists>h'. map_of (at_contexts t) k = Some h' \<and> ah_authorization h' = ah_authorization h"
    using assms(1) by (auto simp: defs split: option.splits if_splits)
  show "sel = Ok v \<Longrightarrow> \<exists>k h. map_of (at_contexts t) k = Some h \<and> ah_authorization h = v \<and> \<not> va_expires_at v \<le> fst clock \<and>
      (case reference of Some r \<Rightarrow> k = r | None \<Rightarrow> at_default t = Some k)"
    using assms(1) dflt by (auto simp: defs split: option.splits if_splits)
qed

text \<open>An action looks a context up when it is not bound, carries no complete authorization and its stream holds some.\<close>

definition looks_up :: "absl_text \<Rightarrow> AuthorizationContextStore \<Rightarrow> Action \<Rightarrow> auth_scope \<Rightarrow> string option \<Rightarrow> AuthStream \<Rightarrow> bool" where
  "looks_up tx store a scope reference t \<longleftrightarrow>
     ac_verified a = None \<and> GetHeader tx a kAuthorizationHeader = Ok None \<and> ScopeOf a = Ok scope \<and>
     GetAuthorizationReference tx a = Ok reference \<and> (case scope of (owner, session_id, stream_id) \<Rightarrow> held_stream store owner session_id stream_id = Some t)"

lemma Resolve_looks_up:
  assumes "looks_up tx store a (owner, session_id, stream_id) reference t"
  shows "Resolve tx clock (Some a) store =
    (case select_context clock reference t of
       (Inl e, t') \<Rightarrow> (Inl e, put_stream owner session_id stream_id t' store, Some a)
     | (Inr v, t') \<Rightarrow>
         (case EnforceRequestRestrictions v a of
            Inl e \<Rightarrow> (Inl e, put_stream owner session_id stream_id t' store, Some a)
          | Inr _ \<Rightarrow> (Ok v, put_stream owner session_id stream_id t' store, Some (a\<lparr>ac_verified := Some v\<rparr>))))"
  using assms by (simp add: looks_up_def Resolve_def Let_def split: prod.split sum.split)

lemma header_names [simp]:
  "ValidateName kAuthorizationHeader = Ok ()" "ValidateName kAuthorizationReferenceHeader = Ok ()"
  "ValidateName kAuthorizationDefaultHeader = Ok ()" "ValidateName kAuthorizationReplaceHeader = Ok ()"
  by (simp_all add: ValidateName_ok kAuthorizationHeader_def kAuthorizationReferenceHeader_def kAuthorizationDefaultHeader_def
      kAuthorizationReplaceHeader_def IsNameBoundary_def IsNameMiddle_def IsAsciiAlpha_def between_def less_eq_char_def)

lemma lookup_errors:
  "GetHeader tx a kAuthorizationHeader \<noteq> Inl e"
  "ScopeOf a = Err c m \<Longrightarrow> c = kUnauthenticated"
  "GetAuthorizationReference tx a = Err c m \<Longrightarrow> c = kInvalidArgument"
  by (auto simp: GetHeader_def ScopeOf_def GetAuthorizationReference_def split: option.splits if_splits)

lemma Resolve_unscoped:
  assumes "\<nexists>a scope reference t. action = Some a \<and> looks_up tx store a scope reference t"
  shows "\<exists>r. Resolve tx clock action store = (r, store, action) \<and> (\<forall>v. r = Ok v \<longrightarrow> (\<exists>a. action = Some a \<and> ac_verified a = Some v)) \<and>
    (\<forall>c m. r = Err c m \<longrightarrow> c = kInvalidArgument \<or> c = kUnauthenticated)"
proof (cases action)
  case (Some a)
  show ?thesis
  proof (cases "\<exists>scope reference. ac_verified a = None \<and> GetHeader tx a kAuthorizationHeader = Ok None \<and> ScopeOf a = Ok scope \<and>
      GetAuthorizationReference tx a = Ok reference")
    case True
    then obtain owner session_id stream_id reference where l: "ac_verified a = None" "GetHeader tx a kAuthorizationHeader = Ok None"
      "ScopeOf a = Ok (owner, session_id, stream_id)" "GetAuthorizationReference tx a = Ok reference" by auto
    then have "held_stream store owner session_id stream_id = None"
      using assms unfolding Some looks_up_def by (cases "held_stream store owner session_id stream_id") fastforce+
    then show ?thesis using l by (simp add: Resolve_def Some)
  next
    case False
    then show ?thesis
      by (cases "ac_verified a"; cases "GetHeader tx a kAuthorizationHeader"; cases "ScopeOf a"; cases "GetAuthorizationReference tx a")
        (auto simp: Resolve_def Some lookup_errors dest: lookup_errors(2,3) split: option.splits)
  qed
qed (simp add: Resolve_def)

lemma grants_hold_Resolve:
  assumes "grants_hold store G" "auth_store_ok store" "Resolve tx clock action store = (r, store', action')"
  shows "grants_hold store' G"
proof (cases "\<exists>a scope reference t. action = Some a \<and> looks_up tx store a scope reference t")
  case True
  then obtain a owner session_id stream_id reference t where act: "action = Some a"
    and l: "looks_up tx store a (owner, session_id, stream_id) reference t" by (metis prod.exhaust)
  then have t: "held_stream store owner session_id stream_id = Some t" by (simp add: looks_up_def)
  obtain sel t' where sel: "select_context clock reference t = (sel, t')" by (rule prod.exhaust)
  have "((owner, session_id, stream_id), k, ah_authorization h) \<in> G" if "map_of (at_contexts t') k = Some h" for k h
    using select_context_selected(1) [OF sel held_stream_ok [OF assms(2) t] that] assms(1) t
    unfolding grants_hold_def by metis
  then have "grants_hold (put_stream owner session_id stream_id t' store) G"
    by (rule grants_hold_put [OF assms(1), rotated]) auto
  moreover have "store' = put_stream owner session_id stream_id t' store"
    using assms(3) unfolding act Resolve_looks_up [OF l] sel by (auto split: sum.splits)
  ultimately show ?thesis by simp
next
  case False
  then have "store' = store" using Resolve_unscoped [OF False, of clock] assms(3) by auto
  then show ?thesis using assms(1) by simp
qed

lemma held_stream_ClearStream:
  assumes "ScopeOf a = Ok (owner, session_id, stream_id)"
  shows "held_stream (snd (ClearStream a store)) owner' session_id' stream_id' =
    (if (owner', session_id', stream_id') = (owner, session_id, stream_id) then None else held_stream store owner' session_id' stream_id')"
proof (cases "map_of (acs_sessions store) session_id")
  case (Some s)
  have rest: "map_of (as_streams s) stream_id' = None" if "AList.delete stream_id (as_streams s) = []" "stream_id' \<noteq> stream_id"
    using arg_cong [OF that(1), of "\<lambda>xs. map_of xs stream_id'"] that(2) by (simp add: delete_conv')
  show ?thesis
    using rest by (cases "session_id' = session_id"; cases "as_owner s = owner"; cases "stream_id' = stream_id")
      (simp_all add: ClearStream_def held_stream_def assms Some Let_def delete_conv' update_conv')
qed (auto simp: ClearStream_def held_stream_def assms)

lemma held_stream_ClearSession:
  assumes "held_stream (ClearSession sid store) owner session_id stream_id = Some t"
  shows "held_stream store owner session_id stream_id = Some t \<and> session_id \<noteq> sid"
  using assms by (auto simp: ClearSession_def held_stream_def delete_conv' split: option.splits if_splits)

lemma grants_hold_cleared:
  assumes "grants_hold store G"
    "\<And>owner session_id stream_id t. held_stream store' owner session_id stream_id = Some t \<Longrightarrow>
       held_stream store owner session_id stream_id = Some t \<and> P (owner, session_id, stream_id)"
  shows "grants_hold store' {g \<in> G. P (fst g)}"
  using assms unfolding grants_hold_def by simp

lemma auth_run_inv: "auth_run maximum store G \<Longrightarrow> auth_store_ok store \<and> acs_maximum store = maximum \<and> grants_hold store G"
proof (induction rule: auth_run.induct)
  case start
  show ?case by (simp add: auth_store_ok_def grants_hold_def held_stream_def)
next
  case (install store G clock draws action auth dflt replace r store')
  then show ?case using Install_ok grants_hold_Install by metis
next
  case (resolve store G tx clock2 action v store' action')
  then show ?case using Resolve_ok grants_hold_Resolve by metis
next
  case (clear_stream store G a store')
  obtain owner session_id stream_id where scope: "ScopeOf a = Ok (owner, session_id, stream_id)"
    using clear_stream.hyps(2) by (auto simp: ClearStream_def split: sum.splits)
  have "grants_hold (snd (ClearStream a store)) {g \<in> G. ScopeOf a \<noteq> Ok (fst g)}"
    using clear_stream.IH by (intro grants_hold_cleared) (auto simp: held_stream_ClearStream [OF scope] scope split: if_splits)
  then show ?case using clear_stream Clear_ok(1) [of store a] by simp
next
  case (clear_session store G sid)
  have "grants_hold (ClearSession sid store) {g \<in> G. fst (snd (fst g)) \<noteq> sid}"
    using clear_session.IH by (intro grants_hold_cleared) (auto dest: held_stream_ClearSession)
  then show ?case using clear_session Clear_ok(2) [of store sid] by simp
qed

lemma Resolve_bound:
  assumes "auth_store_ok store" "Resolve tx clock (Some a) store = (Ok v, store', action')" "ac_verified a = None"
  obtains scope reference t k h where "looks_up tx store a scope reference t" "map_of (at_contexts t) k = Some h" "ah_authorization h = v"
    "fst clock < va_expires_at v" "case reference of Some r \<Rightarrow> k = r | None \<Rightarrow> at_default t = Some k"
    "EnforceRequestRestrictions v a = Ok ()" "action' = Some (a\<lparr>ac_verified := Some v\<rparr>)"
proof (cases "\<exists>b scope reference t. Some a = Some b \<and> looks_up tx store b scope reference t")
  case True
  then obtain owner session_id stream_id reference t where l: "looks_up tx store a (owner, session_id, stream_id) reference t"
    by (metis option.inject prod.exhaust)
  obtain sel t' where sel: "select_context clock reference t = (sel, t')" by (rule prod.exhaust)
  have res: "sel = Ok v" "EnforceRequestRestrictions v a = Ok ()" "action' = Some (a\<lparr>ac_verified := Some v\<rparr>)"
    using assms(2) unfolding Resolve_looks_up [OF l] sel by (auto split: sum.splits)
  have "held_stream store owner session_id stream_id = Some t" using l by (simp add: looks_up_def)
  from select_context_selected(2) [OF sel held_stream_ok [OF assms(1) this] res(1)]
  show ?thesis using that [OF l _ _ _ _ res(2,3)] by (auto simp: not_le)
next
  case False
  then show ?thesis using Resolve_unscoped [OF False, of clock] assms(2,3) by auto
qed

section \<open>Properties of the context store\<close>

text \<open>C24. However the store was used, an authorization that Resolve binds to an action was installed for the same
  session object, session id and stream, has not been replaced or cleared since, has not expired, and its restrictions
  allow the action; when the action names a context, it is that context.\<close>

theorem resolve_only_granted:
  assumes "auth_run maximum store G" "Resolve tx clock (Some a) store = (Ok v, store', action')" "ac_verified a = None"
  shows "(\<exists>scope k. ScopeOf a = Ok scope \<and> (scope, k, v) \<in> G \<and>
      (\<forall>r. GetAuthorizationReference tx a = Ok (Some r) \<longrightarrow> k = r)) \<and>
    fst clock < va_expires_at v \<and> EnforceRequestRestrictions v a = Ok () \<and> action' = Some (a\<lparr>ac_verified := Some v\<rparr>)"
proof -
  note inv = auth_run_inv [OF assms(1)]
  show ?thesis
  proof (rule Resolve_bound [OF conjunct1 [OF inv] assms(2,3)])
    fix scope reference t k h
    assume l: "looks_up tx store a scope reference t" and h: "map_of (at_contexts t) k = Some h" "ah_authorization h = v"
      and ref: "case reference of Some r \<Rightarrow> k = r | None \<Rightarrow> at_default t = Some k"
      and rest: "fst clock < va_expires_at v" "EnforceRequestRestrictions v a = Ok ()" "action' = Some (a\<lparr>ac_verified := Some v\<rparr>)"
    have "(scope, k, v) \<in> G" using l h inv by (cases scope) (auto simp: looks_up_def grants_hold_def)
    then show ?thesis using l ref rest by (auto simp: looks_up_def)
  qed
qed

definition sample_verified :: VerifiedAuthorization where
  "sample_verified = \<lparr>va_envelope = \<lparr>ae_version = 1, ae_chain = [''a.b.c'']\<rparr>, va_subject = ''alice'', va_subject_kind = ''user'',
     va_actors = [], va_provenance = [], va_assurance = [], va_audience = ''svc'', va_expires_at = 100, va_grants = JArray [],
     va_restrictions = JObject [(''actions'', JArray [JString ''run*''])], va_authorization_epoch = 0\<rparr>"

definition sample_action :: "string \<Rightarrow> (string \<times> string) list \<Rightarrow> Action" where
  "sample_action name headers = \<lparr>ac_id = ''1'', ac_name = name, ac_headers = headers, ac_session = Some (7, ''s''),
     ac_stream = Some ''t'', ac_verified = None\<rparr>"

definition sample_context_id :: string where
  "sample_context_id = replicate 16 (CHR ''k'')"

definition sample_store :: AuthorizationContextStore where
  "sample_store = \<lparr>acs_maximum = 2, acs_sessions = [(''s'', \<lparr>as_owner = 7, as_streams = [(''t'',
     \<lparr>at_contexts = [(sample_context_id, \<lparr>ah_authorization = sample_verified, ah_last_used = 12\<rparr>)], at_default = Some sample_context_id\<rparr>)]\<rparr>)]\<rparr>"

lemma sample_install:
  "Install (10, 11, 12) [Some sample_context_id] (Some (sample_action ''auth'' [])) (Some sample_verified) True None
     \<lparr>acs_maximum = 2, acs_sessions = []\<rparr> =
   Some (Ok \<lparr>cx_context_id = sample_context_id, cx_authorization = sample_verified, cx_is_default = True\<rparr>, sample_store)"
  by (simp add: Install_def install_context_def sample_verified_def sample_action_def ScopeOf_def sample_store_def session_of_def
      stream_of_def Prune_def put_stream_def Let_def)

lemma sample_run: "auth_run 2 sample_store {((7, ''s'', ''t''), sample_context_id, sample_verified)}"
  using auth_run.install [OF auth_run.start sample_install] by (simp add: granted_def sample_action_def ScopeOf_def)

lemma sample_resolve:
  "\<exists>store'. Resolve sample_text (20, 21) (Some (sample_action ''runner'' [])) sample_store =
     (Ok sample_verified, store', Some (sample_action ''runner'' []\<lparr>ac_verified := Some sample_verified\<rparr>))"
  by (simp add: Resolve_def GetHeader_def sample_action_def ScopeOf_def GetAuthorizationReference_def sample_store_def held_stream_def
      select_context_def Prune_def Let_def sample_verified_def EnforceRequestRestrictions_def check_actions_def check_identities_def
      check_request_id_def GlobMatches_def glob_loop.simps)

theorem resolve_only_granted_witness:
  "\<exists>G store' k. auth_run 2 sample_store G \<and>
     Resolve sample_text (20, 21) (Some (sample_action ''runner'' [])) sample_store =
       (Ok sample_verified, store', Some (sample_action ''runner'' []\<lparr>ac_verified := Some sample_verified\<rparr>)) \<and>
     ac_verified (sample_action ''runner'' []) = None \<and> ((7, ''s'', ''t''), k, sample_verified) \<in> G \<and>
     EnforceRequestRestrictions sample_verified (sample_action ''runner'' []) = Ok ()"
proof -
  obtain store' where r: "Resolve sample_text (20, 21) (Some (sample_action ''runner'' [])) sample_store =
     (Ok sample_verified, store', Some (sample_action ''runner'' []\<lparr>ac_verified := Some sample_verified\<rparr>))"
    using sample_resolve by blast
  have a: "ac_verified (sample_action ''runner'' []) = None" "ScopeOf (sample_action ''runner'' []) = Ok (7, ''s'', ''t'')"
    by (simp_all add: sample_action_def ScopeOf_def)
  show ?thesis using resolve_only_granted [OF sample_run r a(1)] sample_run r a by auto
qed

text \<open>C25. However the store was used, every stream it holds has at most the configured number of contexts, under
  distinct ids, and a default that is one of them.\<close>

theorem contexts_bounded:
  assumes "auth_run maximum store G" "held_stream store owner session_id stream_id = Some t"
  shows "length (at_contexts t) \<le> maximum \<and> distinct (map fst (at_contexts t)) \<and>
    (\<forall>d. at_default t = Some d \<longrightarrow> map_of (at_contexts t) d \<noteq> None)"
  using auth_run_inv [OF assms(1)] held_stream_ok [OF _ assms(2)] by (auto simp: auth_stream_ok_def)

theorem contexts_bounded_witness:
  "\<exists>G t. auth_run 2 sample_store G \<and> held_stream sample_store 7 ''s'' ''t'' = Some t \<and> at_contexts t \<noteq> [] \<and>
     length (at_contexts t) \<le> 2 \<and> map_of (at_contexts t) sample_context_id \<noteq> None"
proof -
  obtain t where t: "held_stream sample_store 7 ''s'' ''t'' = Some t" "at_default t = Some sample_context_id" "at_contexts t \<noteq> []"
    by (simp add: sample_store_def held_stream_def)
  show ?thesis using contexts_bounded [OF sample_run t(1)] sample_run t by blast
qed

text \<open>C26. A context that Install returned is usable: an action of the same session and stream that is not bound and
  carries no complete authorization, and that names the context or relies on the default it became, gets exactly the
  installed authorization while it has not expired and its restrictions allow the action.\<close>

theorem install_then_resolve:
  assumes "auth_run maximum store G" "Install clock draws (Some a) (Some v) dflt replace store = Some (Ok cx, store')"
    and "ScopeOf b = ScopeOf a" "ac_verified b = None" "GetHeader tx b kAuthorizationHeader = Ok None"
    and "GetAuthorizationReference tx b = Ok (Some (cx_context_id cx)) \<or> GetAuthorizationReference tx b = Ok None \<and> dflt"
    and "fst clock2 < va_expires_at v" "EnforceRequestRestrictions v b = Ok ()"
  shows "fst (Resolve tx clock2 (Some b) store') = Ok v \<and> snd (snd (Resolve tx clock2 (Some b) store')) = Some (b\<lparr>ac_verified := Some v\<rparr>)"
  using assms(2)
proof (cases rule: Install_cases)
  case (2 a' v' owner session_id stream_id t')
  obtain reference where ref: "GetAuthorizationReference tx b = Ok reference"
    "reference = Some (cx_context_id cx) \<or> reference = None \<and> dflt" using assms(6) by blast
  have ok: "auth_store_ok store" using auth_run_inv [OF assms(1)] by simp
  note t = installed_contexts [OF 2(4) Prune_ok [OF stream_of_ok [OF ok]]]
  have "held_stream store' owner session_id stream_id = Some t'" by (simp add: 2(5) held_stream_put)
  then have l: "looks_up tx store' b (owner, session_id, stream_id) reference t'"
    using assms(3-5) ref(1) 2(1,3) by (simp add: looks_up_def)
  have t'_ok: "auth_stream_ok (acs_maximum store) t'" by (rule install_context_ok [OF 2(4) Prune_ok [OF stream_of_ok [OF ok]]])
  have live: "map_of (at_contexts (Prune (fst clock2) t')) (cx_context_id cx) = Some \<lparr>ah_authorization = v, ah_last_used = snd (snd clock)\<rparr>"
    using t assms(7) 2(2) by (simp add: map_of_Prune_Some [OF t'_ok])
  then have "dflt \<Longrightarrow> at_default (Prune (fst clock2) t') = Some (cx_context_id cx)"
    using t by (auto simp: Prune_def Let_def)
  then have "fst (select_context clock2 reference t') = Ok v"
    using ref(2) live by (auto simp: select_context_def Let_def)
  then show ?thesis unfolding Resolve_looks_up [OF l] using assms(8) by (auto split: prod.split)
qed simp

theorem install_then_resolve_witness:
  "fst (Resolve sample_text (20, 21) (Some (sample_action ''runner'' [(''x-a11-auth-ref'', sample_context_id)])) sample_store) = Ok sample_verified"
proof -
  let ?b = "sample_action ''runner'' [(''x-a11-auth-ref'', sample_context_id)]"
  have low: "AsciiStrToLower sample_text kAuthorizationHeader = ''x-a11-auth''"
    "AsciiStrToLower sample_text kAuthorizationReferenceHeader = ''x-a11-auth-ref''"
    by (simp_all add: sample_text_def kAuthorizationHeader_def kAuthorizationReferenceHeader_def lower_char_def is_upper_def)
  have "ScopeOf ?b = ScopeOf (sample_action ''auth'' [])" "ac_verified ?b = None"
    by (simp_all add: sample_action_def ScopeOf_def)
  moreover have "GetHeader sample_text ?b kAuthorizationHeader = Ok None"
    "GetAuthorizationReference sample_text ?b = Ok (Some sample_context_id)"
    by (simp_all add: GetHeader_def GetAuthorizationReference_def low sample_action_def sample_context_id_def)
  moreover have "EnforceRequestRestrictions sample_verified ?b = Ok ()" "20 < va_expires_at sample_verified"
    by (simp_all add: sample_verified_def sample_action_def EnforceRequestRestrictions_def check_actions_def check_identities_def
        check_request_id_def GlobMatches_def glob_loop.simps)
  ultimately show ?thesis using install_then_resolve [OF auth_run.start sample_install, of ?b sample_text "(20, 21)"] by simp
qed

lemma EnforceRequestRestrictions_Err: "EnforceRequestRestrictions v a = Err c m \<Longrightarrow> c = kPermissionDenied"
proof -
  have act: "check_actions x name = Err c m \<Longrightarrow> c = kPermissionDenied" for x name
  proof -
    have "r_map (\<lambda>p. case p of JString s \<Rightarrow> Ok s | _ \<Rightarrow> denied ''The authorization action restriction is invalid'') ps = Err c m \<Longrightarrow> c = kPermissionDenied" for ps
      by (induction ps) (auto simp: r_bind_def split: json.splits sum.splits)
    then show "check_actions x name = Err c m \<Longrightarrow> c = kPermissionDenied"
      by (auto simp: check_actions_def r_bind_def r_guard_def split: option.splits json.splits sum.splits if_splits)
  qed
  have ids: "check_identities x name = Err c m \<Longrightarrow> c = kPermissionDenied" for x name
    by (auto simp: check_identities_def r_guard_def split: option.splits json.splits if_splits)
  have req: "check_request_id x name = Err c m \<Longrightarrow> c = kPermissionDenied" for x name
    by (auto simp: check_request_id_def r_guard_def split: option.splits if_splits)
  show "EnforceRequestRestrictions v a = Err c m \<Longrightarrow> c = kPermissionDenied"
    by (auto simp: EnforceRequestRestrictions_def r_bind_def split: json.splits sum.splits dest: act ids req)
qed

text \<open>C27. Resolve fails closed.  When it returns an error, the action it was given stays as it was, unbound, and the
  error is one of a malformed call, of a missing or expired context, or of a restriction.\<close>

theorem resolve_fails_closed:
  assumes "Resolve tx clock (Some a) store = (Err c m, store', action')"
  shows "action' = Some a \<and> ac_verified a = None \<and> c \<in> {kInvalidArgument, kUnauthenticated, kPermissionDenied}"
proof (cases "\<exists>b scope reference t. Some a = Some b \<and> looks_up tx store b scope reference t")
  case True
  then obtain owner session_id stream_id reference t where l: "looks_up tx store a (owner, session_id, stream_id) reference t"
    by (metis option.inject prod.exhaust)
  have "fst (select_context clock reference t) = Err c' m' \<Longrightarrow> c' = kUnauthenticated" for c' m'
    by (auto simp: select_context_def Let_def split: option.splits)
  then show ?thesis
    using assms l unfolding Resolve_looks_up [OF l]
    by (auto simp: looks_up_def dest: EnforceRequestRestrictions_Err split: prod.splits sum.splits)
next
  case False
  have "ac_verified a = None" using assms by (auto simp: Resolve_def split: option.splits)
  then show ?thesis using Resolve_unscoped [OF False, of clock] assms by auto
qed

theorem resolve_fails_closed_witness:
  "\<exists>m store'. Resolve sample_text (20, 21) (Some (sample_action ''stop'' [])) sample_store =
     (Err kPermissionDenied m, store', Some (sample_action ''stop'' [])) \<and> ac_verified (sample_action ''stop'' []) = None"
proof -
  have "\<exists>m store'. Resolve sample_text (20, 21) (Some (sample_action ''stop'' [])) sample_store =
     (Err kPermissionDenied m, store', Some (sample_action ''stop'' []))"
    by (simp add: Resolve_def GetHeader_def sample_action_def ScopeOf_def GetAuthorizationReference_def sample_store_def held_stream_def
      select_context_def Prune_def Let_def sample_verified_def EnforceRequestRestrictions_def check_actions_def
      GlobMatches_def glob_loop.simps)
  then show ?thesis using resolve_fails_closed by blast
qed

end
