(* ===== verification/Authorization_Properties.thy ===== *)
theory Authorization_Properties
  imports Authorization_Store Wire_Roundtrip Codec_Interface
begin

text \<open>
  The codec of authorization envelopes: the native and the textual form and the headers of an action that carry
  them.  \<open>packs_chain\<close> is what the codec relies on of \<open>to_msgpack\<close>, \<open>base64_laws\<close> of Abseil's base64; each is shown
  for a concrete function.
\<close>

section \<open>The laws of the libraries\<close>

text \<open>\<open>to_msgpack\<close> writes an array of a non-negative number and an array of strings so that it decodes to the same,
  the number as an unsigned one.\<close>

definition packs_chain :: "msgpack_encoder \<Rightarrow> bool" where
  "packs_chain tm \<longleftrightarrow>
     (\<forall>n chain bytes. tm (JArray [JInt n, JArray (map JString chain)]) = Inr bytes \<and> 0 \<le> sint n \<and> length bytes < 2 ^ 32 \<longrightarrow>
        Decode 0 bytes = Ok (JArray [JUint n, JArray (map JString chain)], []))"

text \<open>Without its padding the web-safe form uses only its alphabet and still decodes.\<close>

definition base64_laws :: "base64_url \<Rightarrow> bool" where
  "base64_laws b \<longleftrightarrow>
     (\<forall>s. list_all is_base64_url (UnpaddedWebSafeBase64 b s) \<and> WebSafeBase64Unescape b (UnpaddedWebSafeBase64 b s) = Some s)"

section \<open>Envelopes\<close>

lemma Pack_ok: "Pack tm v [] = Ok b \<longleftrightarrow> tm v = Inr b"
  by (simp add: Pack_def PackMsgpack_def split: sum.split)

lemma EncodeAuthorization_ok:
  "EncodeAuthorization tm e = Ok b \<longleftrightarrow>
     ValidateEnvelope e = Ok () \<and> tm (JArray [JInt (of_int (ae_version e)), JArray (map JString (ae_chain e))]) = Inr b \<and>
     length b \<le> kMaxAuthorizationBytes"
  by (auto simp: EncodeAuthorization_def ok_iff Pack_ok)

lemma ValidateEnvelope_version: "ValidateEnvelope e = Ok () \<Longrightarrow> ae_version e = kAuthorizationVersion"
  by (auto simp: ValidateEnvelope_def split: if_splits)

lemma r_map_chain_statement [simp]: "r_map chain_statement (map JString chain) = Ok chain"
  by (induction chain) (simp_all add: chain_statement_def)

lemma decode_encoded:
  assumes tm: "packs_chain tm" and enc: "EncodeAuthorization tm e = Ok v"
  shows "DecodeAuthorization tm v = Ok e"
proof -
  have e: "e = \<lparr>ae_version = kAuthorizationVersion, ae_chain = ae_chain e\<rparr>"
    using enc ValidateEnvelope_version [of e] by (simp add: EncodeAuthorization_ok)
  have "Decode 0 v = Ok (JArray [JUint 1, JArray (map JString (ae_chain e))], [])"
    using tm enc ValidateEnvelope_version [of e] unfolding packs_chain_def EncodeAuthorization_ok
    by (simp add: kAuthorizationVersion_def kMaxAuthorizationBytes_def)
  then have "Read v = Ok (JArray [JUint 1, JArray (map JString (ae_chain e))], [])" by (simp add: Read_iff_Decode)
  moreover have "length v \<le> kMaxAuthorizationBytes" using enc by (simp add: EncodeAuthorization_ok)
  ultimately show ?thesis
    using enc e by (simp add: DecodeAuthorization_def envelope_of_def EnsureFullyConsumed_def kAuthorizationVersion_def Let_def)
qed

lemma envelope_of_canonical: "envelope_of tm v decoded = Ok e \<Longrightarrow> EncodeAuthorization tm e = Ok v"
  by (auto simp: envelope_of_def ok_iff Let_def split: json.splits list.splits if_splits)

lemma encode_decoded: "DecodeAuthorization tm v = Ok e \<Longrightarrow> EncodeAuthorization tm e = Ok v"
  by (auto simp: DecodeAuthorization_def ok_iff dest: envelope_of_canonical)

text \<open>Every decoded envelope is its own canonical form.\<close>

interpretation envelope: strict_codec "EncodeAuthorization tm" "DecodeAuthorization tm" "\<lambda>e. e" "\<lambda>e. True" "\<lambda>v. packs_chain tm" "\<lambda>e. e" for tm
  by unfold_locales (auto intro: decode_encoded)

section \<open>Header maps\<close>

lemma set_then_get_header:
  assumes "SetHeader tx name v a = Ok a'"
  shows "map_of (ac_headers a') k = (if k = AsciiStrToLower tx name then Some v else map_of (ac_headers a) k)"
  using assms by (auto simp: SetHeader_def ok_iff update_conv')

lemma remove_then_get_header:
  assumes "RemoveHeader tx name a = Ok a'"
  shows "map_of (ac_headers a') k = (if k = AsciiStrToLower tx name then None else map_of (ac_headers a) k)"
  using assms by (auto simp: RemoveHeader_def ok_iff delete_conv')

lemma auth_header_names:
  assumes "case_laws tx"
  shows "AsciiStrToLower tx kAuthorizationHeader = kAuthorizationHeader"
    "AsciiStrToLower tx kAuthorizationReferenceHeader = kAuthorizationReferenceHeader"
  using assms by (auto simp: case_laws_def kAuthorizationHeader_def kAuthorizationReferenceHeader_def is_upper_def)

section \<open>Concrete libraries\<close>

text \<open>The typed writers as \<open>to_msgpack\<close>, and hexadecimal in place of base64.\<close>

definition chain_pack :: msgpack_encoder where
  "chain_pack v = Inr (pack_json v)"

lemma chain_packable:
  assumes "length (pack_json (JArray (map JString chain))) < 2 ^ 32"
  shows "packable 1 (JArray (map JString chain))"
proof -
  have len: "length (concat (map (\<lambda>s. PackString s []) chain)) < 2 ^ 32"
    using assms by (simp add: comp_def)
  have "length s < 2 ^ 32" if "s \<in> set chain" for s
    using pack_length(1) [of s] length_le_concat_member [OF that, of "\<lambda>s. PackString s []"] len by simp
  moreover have "length chain \<le> length (concat (map (\<lambda>s. PackString s []) chain))"
    by (rule length_le_concat_map) (auto simp: PackString_def Let_def AppendByte_def AppendBigEndian_def)
  ultimately show ?thesis using len by (auto simp: list_all_iff)
qed

lemma chain_pack_packs: "packs_chain chain_pack"
  unfolding packs_chain_def
proof (intro allI impI, elim conjE)
  fix n chain bytes
  let ?v = "JArray [JUint n, JArray (map JString chain)]"
  assume enc: "chain_pack (JArray [JInt n, JArray (map JString chain)]) = Inr bytes" "0 \<le> sint n" "length bytes < 2 ^ 32"
  then have bytes: "bytes = pack_json ?v" by (simp add: chain_pack_def PackInt_def)
  then have "packable 0 ?v" using chain_packable [of chain] enc(3) by simp
  then show "Decode 0 bytes = Ok (?v, [])" using decode_pack_json [of 0 ?v "[]"] bytes by simp
qed

definition hex_value :: "char \<Rightarrow> nat" where
  "hex_value c = (if (of_char c :: nat) < 58 then of_char c - 48 else of_char c - 87)"

fun unhex :: "string \<Rightarrow> string option" where
  "unhex [] = Some []"
| "unhex [c] = None"
| "unhex (a # b # s) = map_option (\<lambda>r. char_of (16 * hex_value a + hex_value b) # r) (unhex s)"

definition hex_base64 :: base64_url where
  "hex_base64 = \<lparr>WebSafeBase64Escape = (\<lambda>s. concat (map (\<lambda>c. hex2 (of_char c)) s)), WebSafeBase64Unescape = unhex\<rparr>"

lemma digit_hex:
  assumes "n < 16"
  shows "hex_value (digit n) = n \<and> is_base64_url (digit n) \<and> digit n \<noteq> CHR ''=''"
proof -
  have "hex_value (digit n) = n \<and> is_base64_url (digit n)"
    using assms by (cases "n < 10") (auto simp: digit_def hex_value_def is_base64_url_def is_digit_def is_lower_def)
  moreover have "\<not> is_base64_url (CHR ''='')" by (simp add: is_base64_url_def is_digit_def is_lower_def is_upper_def)
  ultimately show ?thesis by metis
qed

lemma high_nibble: "(of_char c :: nat) div 16 < 16"
  by (simp add: less_mult_imp_div_less)

lemma unhex_hex: "unhex (concat (map (\<lambda>c. hex2 (of_char c)) s)) = Some s"
proof (induction s)
  case (Cons c s)
  have "16 * hex_value (digit (of_char c div 16)) + hex_value (digit (of_char c mod 16)) = of_char c"
    using digit_hex [OF high_nibble, of c] digit_hex [of "of_char c mod 16"] by simp
  then show ?case using Cons by (simp add: hex2_def)
qed simp

lemma hex_text_digits: "list_all (\<lambda>c. is_base64_url c \<and> c \<noteq> CHR ''='') (concat (map (\<lambda>c. hex2 (of_char c)) s))"
proof (induction s)
  case (Cons c s)
  show ?case using Cons digit_hex [OF high_nibble, of c] digit_hex [of "of_char c mod 16"] by (simp add: hex2_def)
qed simp

lemma unpadded_id: "x \<notin> set h \<Longrightarrow> rev (dropWhile (\<lambda>c. c = x) (rev h)) = h"
  by (cases h rule: rev_cases) auto

lemma hex_base64_laws: "base64_laws hex_base64"
  unfolding base64_laws_def
proof (intro allI)
  fix s
  let ?h = "concat (map (\<lambda>c. hex2 (of_char c)) s)"
  have "CHR ''='' \<notin> set ?h" using hex_text_digits [of s] by (auto simp: list_all_iff)
  then have "UnpaddedWebSafeBase64 hex_base64 s = ?h"
    using unpadded_id [of "CHR ''=''" ?h] by (simp add: UnpaddedWebSafeBase64_def hex_base64_def del: rev_concat)
  then show "list_all is_base64_url (UnpaddedWebSafeBase64 hex_base64 s) \<and>
      WebSafeBase64Unescape hex_base64 (UnpaddedWebSafeBase64 hex_base64 s) = Some s"
    using hex_text_digits [of s] by (simp add: unhex_hex hex_base64_def list_all_iff)
qed

section \<open>Properties of the codec\<close>

text \<open>C28. An envelope has exactly one encoding: a value decodes to an envelope if and only if it is what the encoder
  writes for that envelope.\<close>

theorem authorization_canonical:
  assumes "packs_chain tm"
  shows "DecodeAuthorization tm v = Ok e \<longleftrightarrow> EncodeAuthorization tm e = Ok v"
  using envelope.dec_enc assms encode_decoded by blast

definition sample_envelope :: AuthorizationEnvelope where
  "sample_envelope = \<lparr>ae_version = 1, ae_chain = [''h.p.s'', ''h.q.t'']\<rparr>"

lemma sample_envelope_encoded:
  "EncodeAuthorization chain_pack sample_envelope = Ok (pack_json (JArray [JInt 1, JArray [JString ''h.p.s'', JString ''h.q.t'']]))"
  by (simp add: EncodeAuthorization_ok sample_envelope_def chain_pack_def ValidateEnvelope_def kAuthorizationVersion_def
      kMaxAuthorizationHops_def kMaxAuthorizationBytes_def PackArrayHeader_def PackString_def PackInt_def PackUint_def AppendByte_def)

theorem authorization_canonical_witness:
  "DecodeAuthorization chain_pack (pack_json (JArray [JInt 1, JArray [JString ''h.p.s'', JString ''h.q.t'']])) = Ok sample_envelope"
  using authorization_canonical [OF chain_pack_packs] sample_envelope_encoded by blast

text \<open>C29. An authorization set on an action is read back from it, whatever the action carried before, with no context
  reference left beside it; its textual form is read back as the same envelope and is made of URL-safe characters.\<close>

theorem authorization_carried:
  assumes "packs_chain tm" "base64_laws b" "case_laws tx" "SetAuthorization tm tx (Some e) (Some a) = Ok a'"
  shows "GetAuthorization tm tx a' = Ok (Some e) \<and> GetAuthorizationReference tx a' = Ok None \<and>
    (\<exists>body. AuthorizationToText tm b e = Ok (kTextPrefix @ body) \<and> list_all is_base64_url body \<and>
       AuthorizationFromText tm b (kTextPrefix @ body) = Ok e)"
proof -
  obtain enc a1 where enc: "EncodeAuthorization tm e = Ok enc" and steps: "SetHeader tx kAuthorizationHeader enc a = Ok a1"
    "RemoveHeader tx kAuthorizationReferenceHeader a1 = Ok a'"
    using assms(4) by (auto simp: SetAuthorization_def ok_iff)
  note names = auth_header_names [OF assms(3)]
  have get: "map_of (ac_headers a') kAuthorizationHeader = Some enc" "map_of (ac_headers a') kAuthorizationReferenceHeader = None"
    by (simp_all add: remove_then_get_header [OF steps(2)] set_then_get_header [OF steps(1)] names)
      (simp add: kAuthorizationHeader_def kAuthorizationReferenceHeader_def)
  then have "GetAuthorization tm tx a' = Ok (Some e)" "GetAuthorizationReference tx a' = Ok None"
    by (simp_all add: GetAuthorization_def GetAuthorizationReference_def GetHeader_def names decode_encoded [OF assms(1) enc])
  then show ?thesis
    using assms(2) enc decode_encoded [OF assms(1) enc]
    by (simp add: AuthorizationToText_def AuthorizationFromText_def base64_laws_def)
qed

theorem authorization_carried_witness:
  "\<exists>a'. SetAuthorization chain_pack sample_text (Some sample_envelope) (Some (sample_action ''run'' [(''x-a11-auth-ref'', sample_context_id)])) = Ok a' \<and>
     GetAuthorization chain_pack sample_text a' = Ok (Some sample_envelope)"
proof -
  obtain a' where a': "SetAuthorization chain_pack sample_text (Some sample_envelope)
      (Some (sample_action ''run'' [(''x-a11-auth-ref'', sample_context_id)])) = Ok a'"
    by (simp add: SetAuthorization_def sample_envelope_encoded SetHeader_def RemoveHeader_def)
  then show ?thesis using authorization_carried [OF chain_pack_packs hex_base64_laws sample_case_laws a'] by blast
qed

end
