(* ===== verification/Url.thy ===== *)
theory Url
  imports Absl_Text
begin

text \<open>
  URLs and redirect targets (\<open>cpp/a11/net/http/url.cc\<close>).  A string view is the text it shows; the output arguments
  of \<open>ParseAuthority\<close> and \<open>SplitPathParts\<close> are results, the port being None where the source leaves it unset.
\<close>

record ParsedUrl =
  u_scheme :: string
  u_host :: string
  u_port :: u16
  u_path :: string
  u_query :: string

text \<open>The text before the last \<open>c\<close> and the text after it.\<close>

definition cut_last :: "char \<Rightarrow> string \<Rightarrow> (string \<times> string) option" where
  "cut_last c s = map_option (\<lambda>(b, a). (rev a, rev b)) (cut_at c (rev s))"

definition IsIpV6Literal :: "string \<Rightarrow> bool" where
  "IsIpV6Literal host \<longleftrightarrow> CHR '':'' \<in> set host"

text \<open>The host and the text of the port, empty when there is none.\<close>

definition authority_parts :: "string \<Rightarrow> (string \<times> string) result" where
  "authority_parts authority =
     (if hd authority = CHR ''['' then
        (case cut_at (CHR '']'') authority of
           None \<Rightarrow> Err kInvalidArgument ''URL has an unterminated IPv6 host''
         | Some (before, rest) \<Rightarrow>
             if rest = [] then Ok (tl before, [])
             else if hd rest \<noteq> CHR '':'' then Err kInvalidArgument ''URL has trailing characters after its IPv6 host''
             else Ok (tl before, tl rest))
      else case cut_last (CHR '':'') authority of
        None \<Rightarrow> Ok (authority, [])
      | Some (host, port_text) \<Rightarrow> Ok (host, port_text))"

definition ParseAuthority :: "absl_text \<Rightarrow> string \<Rightarrow> (string \<times> u16 option) result" where
  "ParseAuthority tx authority =
     (if authority = [] then Err kInvalidArgument ''URL has no host''
      else r_bind (authority_parts authority) (\<lambda>(host, port_text).
        if host = [] then Err kInvalidArgument ''URL has no host''
        else if port_text = [] then Ok (host, None)
        else case SimpleAtoU32 tx port_text of
          None \<Rightarrow> Err kInvalidArgument (''URL has an invalid port: '' @ port_text)
        | Some parsed \<Rightarrow>
            if parsed = 0 \<or> parsed > 65535 then Err kInvalidArgument (''URL has an invalid port: '' @ port_text)
            else Ok (host, Some (ucast parsed))))"

definition SplitPathParts :: "string \<Rightarrow> string \<times> string" where
  "SplitPathParts rest =
     (let rest = (case cut_at (CHR ''#'') rest of None \<Rightarrow> rest | Some (before, _) \<Rightarrow> before) in
      case cut_at (CHR ''?'') rest of None \<Rightarrow> (rest, []) | Some (path, query) \<Rightarrow> (path, query))"

definition DirectoryOf :: "string \<Rightarrow> string" where
  "DirectoryOf path = (case cut_last (CHR ''/'') path of None \<Rightarrow> ''/'' | Some (directory, _) \<Rightarrow> directory @ ''/'')"

definition DefaultPortForScheme :: "string \<Rightarrow> u16" where
  "DefaultPortForScheme scheme =
     (if scheme = ''http'' \<or> scheme = ''ws'' then 80
      else if scheme = ''https'' \<or> scheme = ''wss'' then 443
      else 0)"

definition url_secure :: "ParsedUrl \<Rightarrow> bool" where
  "url_secure u \<longleftrightarrow> u_scheme u = ''https'' \<or> u_scheme u = ''wss''"

definition url_authority :: "ParsedUrl \<Rightarrow> string" where
  "url_authority u =
     (let bracketed = (if IsIpV6Literal (u_host u) then ''['' @ u_host u @ '']'' else u_host u) in
      if u_port u = 0 \<or> u_port u = DefaultPortForScheme (u_scheme u) then bracketed
      else bracketed @ '':'' @ dec (unat (u_port u)))"

definition url_target :: "ParsedUrl \<Rightarrow> string" where
  "url_target u =
     (let base = (if u_path u = [] then ''/'' else u_path u) in
      if u_query u = [] then base else base @ ''?'' @ u_query u)"

definition url_origin :: "ParsedUrl \<Rightarrow> string" where
  "url_origin u = u_scheme u @ ''://'' @ url_authority u"

definition url_ToString :: "ParsedUrl \<Rightarrow> string" where
  "url_ToString u = url_origin u @ url_target u"

definition is_tail_start :: "char \<Rightarrow> bool" where
  "is_tail_start c \<longleftrightarrow> c = CHR ''/'' \<or> c = CHR ''?'' \<or> c = CHR ''#''"

definition ParseUrl :: "absl_text \<Rightarrow> string \<Rightarrow> ParsedUrl result" where
  "ParseUrl tx url =
     (case find_sub ''://'' url of
        None \<Rightarrow> Err kInvalidArgument (''URL must be absolute, with a scheme and '' @ [CHR 0x22] @ ''://'' @ [CHR 0x22] @ '': '' @ url)
      | Some separator \<Rightarrow>
          let scheme = AsciiStrToLower tx (take separator url);
              default_port = DefaultPortForScheme scheme;
              rest = drop (separator + 3) url;
              authority = takeWhile (\<lambda>c. \<not> is_tail_start c) rest;
              tail = dropWhile (\<lambda>c. \<not> is_tail_start c) rest
          in if default_port = 0
             then Err kInvalidArgument (''URL scheme must be http, https, ws, or wss, got: '' @ scheme)
             else r_bind (ParseAuthority tx authority) (\<lambda>(host, port).
               let parts = SplitPathParts tail in
               Ok \<lparr>u_scheme = scheme, u_host = host, u_port = (case port of None \<Rightarrow> default_port | Some p \<Rightarrow> p),
                 u_path = (if tail = [] then [] else if hd tail \<noteq> CHR ''/'' then ''/'' else fst parts),
                 u_query = (if tail = [] then [] else snd parts)\<rparr>))"

definition ResolveReference :: "absl_text \<Rightarrow> ParsedUrl \<Rightarrow> string \<Rightarrow> ParsedUrl result" where
  "ResolveReference tx base reference =
     (if reference = [] then Err kInvalidArgument ''URL reference is empty''
      else if find_sub ''://'' reference \<noteq> None then ParseUrl tx reference
      else if take 2 reference = ''//'' then ParseUrl tx (u_scheme base @ '':'' @ reference)
      else if hd reference = CHR ''?''
      then Ok (base\<lparr>u_query := (case cut_at (CHR ''#'') (tl reference) of None \<Rightarrow> tl reference | Some (before, _) \<Rightarrow> before)\<rparr>)
      else
        let (path, query) = SplitPathParts reference in
        if path = [] then Err kInvalidArgument (''URL reference has no target: '' @ reference)
        else Ok (base\<lparr>u_path := (if hd path = CHR ''/'' then path else DirectoryOf (u_path base) @ path), u_query := query\<rparr>))"

end
