(* ===== verification/Url_Properties.thy ===== *)
theory Url_Properties
  imports Url Codec_Interface
begin

text \<open>
  What \<open>ParseUrl\<close> and \<open>ResolveReference\<close> of \<open>Url\<close> return: always a well-formed URL, which prints to a text that
  parses back to it.
\<close>

declare split_paired_All [simp del] split_paired_Ex [simp del]

section \<open>Well-formed URLs\<close>

definition url_wf :: "ParsedUrl \<Rightarrow> bool" where
  "url_wf u \<longleftrightarrow>
     u_scheme u \<in> {''http'', ''https'', ''ws'', ''wss''} \<and> u_host u \<noteq> [] \<and> list_all (\<lambda>c. \<not> is_tail_start c) (u_host u) \<and>
     u_port u \<noteq> 0 \<and> (u_path u = [] \<or> hd (u_path u) = CHR ''/'') \<and>
     list_all (\<lambda>c. c \<noteq> CHR ''?'' \<and> c \<noteq> CHR ''#'') (u_path u) \<and> list_all (\<lambda>c. c \<noteq> CHR ''#'') (u_query u)"

lemma cut_last_Some: "cut_last c s = Some (a, b) \<longleftrightarrow> s = a @ c # b \<and> c \<notin> set b"
proof
  assume "cut_last c s = Some (a, b)"
  then have "cut_at c (rev s) = Some (rev b, rev a)" by (auto simp: cut_last_def)
  then have "rev s = rev b @ c # rev a" "c \<notin> set b" by (simp_all add: cut_at_Some)
  then show "s = a @ c # b \<and> c \<notin> set b" by (simp add: rev_swap)
qed (auto simp: cut_last_def)

lemma cut_last_None: "cut_last c s = None \<longleftrightarrow> c \<notin> set s"
  by (simp add: cut_last_def cut_at_None)

lemma cut_at_before: "cut_at c s = Some (a, b) \<Longrightarrow> set a \<subseteq> set s \<and> c \<notin> set a \<and> set b \<subseteq> set s"
  by (auto simp: cut_at_Some)

lemma authority_parts_host: "authority_parts s = Ok (h, p) \<Longrightarrow> set h \<subseteq> set s"
  by (auto simp: authority_parts_def cut_at_Some cut_last_Some split: if_splits option.splits dest: list.set_sel(2) [rotated])
    (metis list.set_sel(2) tl_Nil equals0D empty_set)+

lemma unat_ucast16: "unat (n :: u32) < 65536 \<Longrightarrow> unat (ucast n :: u16) = unat n"
  by (simp add: unsigned_ucast_eq take_bit_nat_eq_self)

lemma ParseAuthority_wf:
  assumes "ParseAuthority tx s = Ok (h, p)" "list_all (\<lambda>c. \<not> is_tail_start c) s"
  shows "h \<noteq> [] \<and> list_all (\<lambda>c. \<not> is_tail_start c) h \<and> p \<noteq> Some 0"
proof -
  obtain t where t: "authority_parts s = Ok (h, t)" "h \<noteq> []"
    using assms(1) by (auto simp: ParseAuthority_def ok_iff split: if_splits option.splits)
  have "(ucast n :: u16) \<noteq> 0" if "n \<noteq> 0" "\<not> 65535 < (n :: u32)" for n
  proof
    assume "(ucast n :: u16) = 0"
    moreover have "unat n < 65536" using that(2) by (simp add: word_less_nat_alt)
    ultimately have "unat n = 0" using unat_ucast16 [of n] by simp
    then show False using that(1) by (simp add: unat_eq_0)
  qed
  then have "p \<noteq> Some 0"
    using assms(1) t by (auto simp: ParseAuthority_def split: if_splits option.splits)
  then show ?thesis using t assms(2) authority_parts_host [OF t(1)] by (auto simp: list_all_iff)
qed

lemma SplitPathParts_wf:
  assumes "SplitPathParts s = (path, query)"
  shows "list_all (\<lambda>c. c \<noteq> CHR ''?'' \<and> c \<noteq> CHR ''#'') path \<and> list_all (\<lambda>c. c \<noteq> CHR ''#'') query \<and>
    (s \<noteq> [] \<longrightarrow> hd s = CHR ''/'' \<longrightarrow> path \<noteq> [] \<and> hd path = CHR ''/'')"
proof -
  define r where "r = (case cut_at (CHR ''#'') s of None \<Rightarrow> s | Some (before, _) \<Rightarrow> before)"
  have r: "CHR ''#'' \<notin> set r" "s \<noteq> [] \<Longrightarrow> hd s = CHR ''/'' \<Longrightarrow> r \<noteq> [] \<and> hd r = CHR ''/''"
    by (auto simp: r_def cut_at_None cut_at_Some hd_append split: option.splits if_splits)
  have "(case cut_at (CHR ''?'') r of None \<Rightarrow> (r, []) | Some (path, query) \<Rightarrow> (path, query)) = (path, query)"
    using assms by (simp add: SplitPathParts_def r_def [symmetric])
  then show ?thesis
    using r by (auto simp: cut_at_None cut_at_Some list_all_iff hd_append split: option.splits if_splits)
qed

lemma DefaultPort_scheme: "DefaultPortForScheme s \<noteq> 0 \<longleftrightarrow> s \<in> {''http'', ''https'', ''ws'', ''wss''}"
  by (auto simp: DefaultPortForScheme_def)

lemma takeWhile_tail: "list_all (\<lambda>c. \<not> is_tail_start c) (takeWhile (\<lambda>c. \<not> is_tail_start c) s)"
  by (auto simp: list_all_iff dest: set_takeWhileD)

lemma ParseUrl_wf:
  assumes "ParseUrl tx url = Ok u"
  shows "url_wf u"
proof -
  obtain n where n: "find_sub ''://'' url = Some n" using assms by (auto simp: ParseUrl_def split: option.splits)
  define tail where "tail = dropWhile (\<lambda>c. \<not> is_tail_start c) (drop (n + 3) url)"
  obtain path query where parts: "SplitPathParts tail = (path, query)" by (rule prod.exhaust)
  obtain host port where auth: "ParseAuthority tx (takeWhile (\<lambda>c. \<not> is_tail_start c) (drop (n + 3) url)) = Ok (host, port)"
    and scheme: "DefaultPortForScheme (AsciiStrToLower tx (take n url)) \<noteq> 0"
    and u: "u = \<lparr>u_scheme = AsciiStrToLower tx (take n url), u_host = host,
      u_port = (case port of None \<Rightarrow> DefaultPortForScheme (AsciiStrToLower tx (take n url)) | Some p \<Rightarrow> p),
      u_path = (if tail = [] then [] else if hd tail \<noteq> CHR ''/'' then ''/'' else path), u_query = (if tail = [] then [] else query)\<rparr>"
    using assms n parts by (auto simp: ParseUrl_def Let_def ok_iff tail_def [symmetric] split: if_splits)
  then show ?thesis
    using ParseAuthority_wf [OF auth takeWhile_tail] SplitPathParts_wf [OF parts] scheme
    unfolding u url_wf_def DefaultPort_scheme by (auto simp: DefaultPortForScheme_def split: option.splits)
qed

lemma DirectoryOf_wf:
  assumes "p = [] \<or> hd p = CHR ''/''" "list_all P p" "P (CHR ''/'')"
  shows "DirectoryOf p \<noteq> [] \<and> hd (DirectoryOf p) = CHR ''/'' \<and> list_all P (DirectoryOf p)"
  using assms by (auto simp: DirectoryOf_def cut_last_Some hd_append split: option.splits if_splits)

lemma ResolveReference_wf:
  assumes "url_wf base" "ResolveReference tx base reference = Ok u"
  shows "url_wf u"
proof -
  obtain path query where parts: "SplitPathParts reference = (path, query)" by (rule prod.exhaust)
  have dir: "DirectoryOf (u_path base) \<noteq> [] \<and> hd (DirectoryOf (u_path base)) = CHR ''/'' \<and>
      list_all (\<lambda>c. c \<noteq> CHR ''?'' \<and> c \<noteq> CHR ''#'') (DirectoryOf (u_path base))"
    using assms(1) by (intro DirectoryOf_wf) (auto simp: url_wf_def)
  define q where "q = (case cut_at (CHR ''#'') (tl reference) of None \<Rightarrow> tl reference | Some (before, _) \<Rightarrow> before)"
  have q: "CHR ''#'' \<notin> set q" by (auto simp: q_def cut_at_None cut_at_Some split: option.splits)
  note defs = assms(2) [unfolded ResolveReference_def q_def [symmetric] parts prod.case Let_def]
  show ?thesis
  proof (cases "find_sub ''://'' reference = None \<and> take 2 reference \<noteq> ''//''")
    case False
    then show ?thesis using defs by (auto split: if_splits intro: ParseUrl_wf)
  next
    case True
    then have "u = base\<lparr>u_query := q\<rparr> \<or> path \<noteq> [] \<and>
        u = base\<lparr>u_path := (if hd path = CHR ''/'' then path else DirectoryOf (u_path base) @ path), u_query := query\<rparr>"
      using defs by (simp split: if_split_asm)
    then show ?thesis
    proof
      assume "u = base\<lparr>u_query := q\<rparr>"
      then show ?thesis using assms(1) q by (auto simp: url_wf_def list_all_iff)
    qed (use assms(1) SplitPathParts_wf [OF parts] dir in \<open>auto simp: url_wf_def hd_append\<close>)
  qed
qed

section \<open>Printing and parsing\<close>

lemma find_separator: "CHR '':'' \<notin> set a \<Longrightarrow> find_sub ''://'' (a @ ''://'' @ b) = Some (length a)"
  by (induction a) auto

lemma dec_digits: "dec n \<noteq> [] \<and> (\<forall>c\<in>set (dec n). is_digit c)"
proof (induction n rule: dec.induct)
  case (1 n)
  then show ?case by (cases "n < 10") (simp_all add: dec.simps [of n] digit_def is_digit_def)
qed

lemma dec_plain: "CHR '':'' \<notin> set (dec n)" "list_all (\<lambda>c. \<not> is_tail_start c) (dec n)"
  using dec_digits [of n] by (auto simp: is_digit_def is_tail_start_def list_all_iff)

definition printed_port :: "u16 option \<Rightarrow> string" where
  "printed_port p = (case p of None \<Rightarrow> [] | Some n \<Rightarrow> CHR '':'' # dec (unat n))"

lemma authority_parts_printed:
  assumes "h \<noteq> []" "CHR ''['' \<notin> set h" "CHR '']'' \<notin> set h"
  shows "authority_parts ((if IsIpV6Literal h then ''['' @ h @ '']'' else h) @ printed_port p) = Ok (h, tl (printed_port p))"
proof (cases "IsIpV6Literal h")
  case True
  have "cut_at (CHR '']'') (CHR ''['' # h @ CHR '']'' # printed_port p) = Some (CHR ''['' # h, printed_port p)"
    using cut_at_append [of "CHR '']''" "CHR ''['' # h" "printed_port p"] assms(3) by simp
  then show ?thesis using True by (auto simp: authority_parts_def printed_port_def split: option.split)
next
  case False
  have "hd (h @ printed_port p) \<noteq> CHR ''[''" using assms(1,2) by (cases h) auto
  moreover have "cut_last (CHR '':'') (h @ printed_port p) = (case p of None \<Rightarrow> None | Some n \<Rightarrow> Some (h, dec (unat n)))"
    using False dec_plain(1)
    by (cases p) (auto simp: printed_port_def IsIpV6Literal_def cut_last_None cut_last_Some)
  ultimately show ?thesis using False
    by (simp add: authority_parts_def printed_port_def split: option.split)
qed

lemma port_word: "ucast (word_of_nat (unat (p :: u16)) :: u32) = p" "(word_of_nat (unat p) :: u32) \<le> 65535"
proof -
  have p: "unat p < 65536" using unsigned_less [of p] by simp
  then have n: "unat (word_of_nat (unat p) :: u32) = unat p" by (intro unat_of_nat32) simp
  then show "(word_of_nat (unat p) :: u32) \<le> 65535" using p by (simp add: word_le_nat_alt)
  show "ucast (word_of_nat (unat p) :: u32) = p" using unat_ucast16 [of "word_of_nat (unat p)"] n p by (simp add: word_unat_eq_iff)
qed

lemma ParseAuthority_printed:
  assumes "number_laws tx" "h \<noteq> []" "CHR ''['' \<notin> set h" "CHR '']'' \<notin> set h" "p \<noteq> Some 0"
  shows "ParseAuthority tx ((if IsIpV6Literal h then ''['' @ h @ '']'' else h) @ printed_port p) = Ok (h, p)"
proof (cases p)
  case None
  then show ?thesis using authority_parts_printed [OF assms(2-4), of p] assms(2) by (auto simp: ParseAuthority_def printed_port_def)
next
  case (Some n)
  have "unat n < 2 ^ LENGTH(16)" by (rule unsigned_less)
  then have "unat n < 2 ^ 32" by simp
  then have atoi: "SimpleAtoU32 tx (dec (unat n)) = Some (of_nat (unat n))" using assms(1) unfolding number_laws_def by blast
  have "(word_of_nat (unat n) :: u32) \<noteq> 0" using port_word(1) [of n] assms(5) Some by auto
  then show ?thesis
    using authority_parts_printed [OF assms(2-4), of p] assms(2) atoi dec_digits [of "unat n"] port_word [of n] Some
    by (simp add: ParseAuthority_def printed_port_def not_less)
qed

lemma SplitPathParts_printed:
  assumes "list_all (\<lambda>c. c \<noteq> CHR ''?'' \<and> c \<noteq> CHR ''#'') path" "list_all (\<lambda>c. c \<noteq> CHR ''#'') query"
  shows "SplitPathParts (if query = [] then path else path @ ''?'' @ query) = (path, query)"
proof -
  have "CHR ''#'' \<notin> set (if query = [] then path else path @ ''?'' @ query)" "CHR ''?'' \<notin> set path"
    using assms by (auto simp: list_all_iff)
  then show ?thesis by (simp add: SplitPathParts_def cut_at_None [THEN iffD2])
qed

lemma url_authority_printed:
  "url_authority u = (if IsIpV6Literal (u_host u) then ''['' @ u_host u @ '']'' else u_host u) @
     printed_port (if u_port u = 0 \<or> u_port u = DefaultPortForScheme (u_scheme u) then None else Some (u_port u))"
  by (simp add: url_authority_def printed_port_def Let_def)

lemma url_roundtrip:
  assumes tx: "case_laws tx" "number_laws tx" and wf: "url_wf u" and host: "CHR ''['' \<notin> set (u_host u)" "CHR '']'' \<notin> set (u_host u)"
  shows "ParseUrl tx (url_ToString u) = Ok (u\<lparr>u_path := (if u_path u = [] then ''/'' else u_path u)\<rparr>)"
proof -
  define path where "path = (if u_path u = [] then ''/'' else u_path u)"
  define port where "port = (if u_port u = 0 \<or> u_port u = DefaultPortForScheme (u_scheme u) then None else Some (u_port u))"
  have path: "path \<noteq> []" "hd path = CHR ''/''" "list_all (\<lambda>c. c \<noteq> CHR ''?'' \<and> c \<noteq> CHR ''#'') path"
    and query: "list_all (\<lambda>c. c \<noteq> CHR ''#'') (u_query u)" using wf by (auto simp: path_def url_wf_def)
  have target: "url_target u = (if u_query u = [] then path else path @ ''?'' @ u_query u)" by (simp add: url_target_def path_def Let_def)
  then have slash: "url_target u \<noteq> []" "hd (url_target u) = CHR ''/''" using path by auto
  have scheme: "CHR '':'' \<notin> set (u_scheme u)" "AsciiStrToLower tx (u_scheme u) = u_scheme u" "DefaultPortForScheme (u_scheme u) \<noteq> 0"
    using wf tx(1) by (auto simp: url_wf_def case_laws_def is_upper_def DefaultPort_scheme)
  have plain: "list_all (\<lambda>c. \<not> is_tail_start c) (url_authority u)"
    using wf dec_plain(2) [of "unat (u_port u)"] by (auto simp: url_authority_def url_wf_def Let_def is_tail_start_def)
  have cut: "takeWhile (\<lambda>c. \<not> is_tail_start c) (url_authority u @ url_target u) = url_authority u"
    "dropWhile (\<lambda>c. \<not> is_tail_start c) (url_authority u @ url_target u) = url_target u"
    using plain slash by (cases "url_target u"; simp add: list_all_iff is_tail_start_def)+
  have auth: "ParseAuthority tx (url_authority u) = Ok (u_host u, port)"
    unfolding url_authority_printed port_def [symmetric]
    using wf host by (intro ParseAuthority_printed tx) (auto simp: url_wf_def port_def)
  have "\<lparr>u_scheme = u_scheme u, u_host = u_host u, u_port = u_port u, u_path = path, u_query = u_query u\<rparr> = u\<lparr>u_path := path\<rparr>"
    by (cases u) simp
  moreover have "(case port of None \<Rightarrow> DefaultPortForScheme (u_scheme u) | Some p \<Rightarrow> p) = u_port u"
    using wf by (auto simp: port_def url_wf_def)
  moreover have "find_sub ''://'' (url_ToString u) = Some (length (u_scheme u))"
    using find_separator [OF scheme(1), of "url_authority u @ url_target u"] by (simp add: url_ToString_def url_origin_def)
  ultimately show ?thesis
    using SplitPathParts_printed [OF path(3) query] scheme(2,3) cut auth slash
    by (simp add: ParseUrl_def url_ToString_def url_origin_def target [symmetric] path_def [symmetric] Let_def)
qed

definition canon_url :: "ParsedUrl \<Rightarrow> ParsedUrl" where
  "canon_url u = u\<lparr>u_path := (if u_path u = [] then ''/'' else u_path u)\<rparr>"

interpretation printed_url: codec "\<lambda>u. Ok (url_ToString u)" "ParseUrl tx" canon_url
  "\<lambda>u. url_wf u \<and> CHR ''['' \<notin> set (u_host u) \<and> CHR '']'' \<notin> set (u_host u)" "\<lambda>s. case_laws tx \<and> number_laws tx" for tx
  by unfold_locales (auto simp: canon_url_def url_roundtrip)

section \<open>Properties of URLs\<close>

text \<open>C38. Every URL the parser or the resolver returns is well formed: one of the four schemes, a host free of the
  characters that end an authority, a port other than zero, a path that is empty or absolute without query or fragment
  marks, and a query without a fragment.\<close>

theorem urls_well_formed:
  assumes "url_wf base" "ParseUrl tx url = Ok u \<or> ResolveReference tx base reference = Ok u"
  shows "url_wf u"
  using assms ParseUrl_wf ResolveReference_wf by blast

definition sample_base :: ParsedUrl where
  "sample_base = \<lparr>u_scheme = ''https'', u_host = ''a.b'', u_port = 8443, u_path = ''/x/y'', u_query = ''q=1''\<rparr>"

lemma sample_base_wf: "url_wf sample_base"
  by (simp add: url_wf_def sample_base_def is_tail_start_def)

theorem urls_well_formed_witness:
  "\<exists>u. ResolveReference sample_text sample_base ''../z?r#s'' = Ok u \<and> url_wf u"
proof -
  have "ResolveReference sample_text sample_base ''../z?r#s'' = Ok (sample_base\<lparr>u_path := ''/x/../z'', u_query := ''r''\<rparr>)"
    by (simp add: ResolveReference_def sample_base_def SplitPathParts_def DirectoryOf_def cut_last_def)
  then show ?thesis using urls_well_formed [OF sample_base_wf] by blast
qed

text \<open>C39. A well-formed URL whose host holds no bracket prints to a text that parses back to it, with the root as
  path where it had none: IPv6 hosts get their brackets and lose them again, and a port is printed exactly when it is
  not the scheme's default.\<close>

theorem url_print_parse:
  assumes "case_laws tx" "number_laws tx" "url_wf u" "CHR ''['' \<notin> set (u_host u)" "CHR '']'' \<notin> set (u_host u)"
  shows "ParseUrl tx (url_ToString u) = Ok (u\<lparr>u_path := (if u_path u = [] then ''/'' else u_path u)\<rparr>)"
  using printed_url.dec_enc [of u "url_ToString u" tx] assms by (simp add: canon_url_def)

theorem url_print_parse_witness: "ParseUrl sample_text (url_ToString sample_base) = Ok sample_base"
  using url_print_parse [OF sample_case_laws sample_number_laws sample_base_wf] by (simp add: sample_base_def)

text \<open>C40. A reference without a scheme separator that does not start with two slashes stays at the base's origin:
  scheme, host, port and hence the printed origin are the base's, and only path and query change.\<close>

theorem relative_reference_same_origin:
  assumes "ResolveReference tx base reference = Ok u" "find_sub ''://'' reference = None" "take 2 reference \<noteq> ''//''"
  shows "url_origin u = url_origin base \<and> u = base\<lparr>u_path := u_path u, u_query := u_query u\<rparr>"
proof -
  have "u = base\<lparr>u_path := u_path u, u_query := u_query u\<rparr>"
    using assms by (auto simp: ResolveReference_def split: if_splits prod.splits)
  moreover have "url_origin (base\<lparr>u_path := p, u_query := q\<rparr>) = url_origin base" for p q
    by (simp add: url_origin_def url_authority_def Let_def)
  ultimately show ?thesis by metis
qed

theorem relative_reference_same_origin_witness:
  "\<exists>u. ResolveReference sample_text sample_base ''/login'' = Ok u \<and> url_origin u = ''https://a.b:8443''"
proof -
  have r: "ResolveReference sample_text sample_base ''/login'' = Ok (sample_base\<lparr>u_path := ''/login'', u_query := []\<rparr>)"
    by (simp add: ResolveReference_def sample_base_def SplitPathParts_def)
  have "url_origin sample_base = ''https://a.b:8443''"
    by (simp add: url_origin_def url_authority_def sample_base_def IsIpV6Literal_def DefaultPortForScheme_def dec.simps digit_def) code_simp
  then show ?thesis using relative_reference_same_origin [OF r] r by simp
qed

text \<open>An absolute path whose query quotes a URL is taken for an absolute URL and refused.\<close>

lemma quoted_url_refused:
  "ResolveReference sample_text sample_base ''/login?next=https://a.b/'' =
     Err kInvalidArgument ''URL scheme must be http, https, ws, or wss, got: /login?next=https''"
  by (simp add: ResolveReference_def ParseUrl_def sample_text_def lower_char_def is_upper_def DefaultPortForScheme_def)

end
