(* ===== verification/Flow_Token.thy ===== *)
theory Flow_Token
  imports Text_Encoding
begin

text \<open>
  What the Flow front end passes between its passes: the compilation limits and the work
  budget (\<open>cpp/a11/flow/limits.h\<close>), diagnostics (\<open>flow/diagnostic.h\<close>), tokens and the
  names of their kinds (\<open>flow/token.h\<close>, \<open>flow/lexer.cc\<close>) and the duration units of the
  vocabulary (\<open>flow/vocabulary.cc\<close>).  The \<open>int\<close> line and column counters are naturals:
  they are at most the length of the source plus one.
\<close>

section \<open>Limits and the budget\<close>

record CompilationLimits =
  max_modules :: nat
  max_source_bytes :: nat
  max_depth :: nat
  max_nesting :: nat
  max_tokens :: nat
  max_work :: nat
  max_linked_name_bytes :: nat
  max_duration_ms :: nat

definition default_limits :: CompilationLimits where
  "default_limits =
     \<lparr>max_modules = 256, max_source_bytes = 8 * 1024 * 1024, max_depth = 128, max_nesting = 128,
      max_tokens = 250000, max_work = 2000000, max_linked_name_bytes = 64 * 1024 * 1024,
      max_duration_ms = 5000\<rparr>"

text \<open>
  The readings of \<open>std::chrono::steady_clock\<close>, in nanoseconds, are a function from the
  number of readings taken so far; the budget counts them in \<open>cb_readings\<close>.
\<close>

type_synonym steady_clock = "nat \<Rightarrow> int"

record CompilationBudget =
  cb_remaining :: nat
  cb_remaining_tokens :: nat
  cb_deadline :: int
  cb_exhausted :: bool
  cb_readings :: nat

definition new_budget :: "steady_clock \<Rightarrow> nat \<Rightarrow> CompilationLimits \<Rightarrow> CompilationBudget" where
  "new_budget now readings limits =
     \<lparr>cb_remaining = max_work limits, cb_remaining_tokens = max_tokens limits,
      cb_deadline = now readings + 1000000 * int (min (max_duration_ms limits) (24 * 60 * 60 * 1000)),
      cb_exhausted = False, cb_readings = Suc readings\<rparr>"

definition read_clock :: "CompilationBudget \<Rightarrow> CompilationBudget" where
  "read_clock b = b\<lparr>cb_readings := Suc (cb_readings b)\<rparr>"

definition Budget_Check :: "steady_clock \<Rightarrow> nat \<Rightarrow> CompilationBudget \<Rightarrow> bool \<times> CompilationBudget" where
  "Budget_Check now work b =
     (if cb_exhausted b then (False, b)
      else if work > cb_remaining b then (False, b\<lparr>cb_exhausted := True\<rparr>)
      else if now (cb_readings b) \<ge> cb_deadline b
      then (False, (read_clock b)\<lparr>cb_exhausted := True\<rparr>)
      else (True, (read_clock b)\<lparr>cb_remaining := cb_remaining b - work\<rparr>))"

definition TryOptional :: "steady_clock \<Rightarrow> nat \<Rightarrow> CompilationBudget \<Rightarrow> bool \<times> CompilationBudget" where
  "TryOptional now work b =
     (if cb_exhausted b \<or> work > cb_remaining b then (False, b)
      else if now (cb_readings b) \<ge> cb_deadline b then (False, read_clock b)
      else (True, (read_clock b)\<lparr>cb_remaining := cb_remaining b - work\<rparr>))"

definition ConsumeTokens :: "steady_clock \<Rightarrow> nat \<Rightarrow> CompilationBudget \<Rightarrow> bool \<times> CompilationBudget" where
  "ConsumeTokens now count b =
     Budget_Check now 0
       (if count > cb_remaining_tokens b then b\<lparr>cb_exhausted := True\<rparr>
        else b\<lparr>cb_remaining_tokens := cb_remaining_tokens b - count\<rparr>)"

section \<open>Diagnostics\<close>

datatype Severity = kError | kWarning | kWeakWarning | kInformation

datatype Family = kSyntax | kForm | kName | kSequence | kBarrier | kUnused

record Position =
  ps_offset :: nat
  ps_line :: nat
  ps_column :: nat

record Edit =
  ed_start :: nat
  ed_end :: nat
  ed_text :: string

record Fix =
  fx_label :: string
  fx_edits :: "Edit list"
  fx_automatic :: bool

record RelatedDiagnostic =
  rd_source :: string
  rd_range :: "Position \<times> Position"
  rd_message :: string

record Diagnostic =
  dg_source :: string
  dg_code :: string
  dg_severity :: Severity
  dg_family :: Family
  dg_range :: "Position \<times> Position"
  dg_message :: string
  dg_flow :: string
  dg_fixes :: "Fix list"
  dg_related :: "RelatedDiagnostic list"

section \<open>Tokens\<close>

datatype TokenKind =
    kNewline | kSemicolon | kComment | kString | kNumber | kDuration | kWord
  | kDot | kQuestionDot | kQuestionBracket | kRange | kSpread | kArrow | kCarry
  | kEqual | kEqualEqual | kBangEqual | kLess | kLessEqual | kGreater | kGreaterEqual
  | kPlus | kMinus | kPipe | kColon | kScope | kStar | kSlash | kPercent | kComma
  | kLeftBrace | kRightBrace | kLeftParen | kRightParen | kLeftBracket | kRightBracket
  | kBad | kEnd

record StringEscape =
  se_start :: nat
  se_end :: nat
  se_line :: nat
  se_column :: nat

text \<open>
  An \<open>absl::Duration\<close> is a count of quarter nanoseconds or one of the two infinite values;
  a \<open>double\<close> is its bits.
\<close>

datatype Duration = Ticks int | PosInfinite | NegInfinite

record Token =
  tk_kind :: TokenKind
  tk_text :: string
  tk_start :: nat
  tk_end :: nat
  tk_line :: nat
  tk_column :: nat
  tk_string_value :: string
  tk_string_escapes :: "StringEscape list"
  tk_number :: u64
  tk_integer :: int
  tk_is_integer :: bool
  tk_duration :: Duration

definition IsWord :: "Token \<Rightarrow> bool" where
  "IsWord t \<longleftrightarrow> tk_kind t = kWord"

definition EndsStatement :: "Token \<Rightarrow> bool" where
  "EndsStatement t \<longleftrightarrow> tk_kind t \<in> {kNewline, kSemicolon, kRightBrace, kEnd}"

fun KindName :: "TokenKind \<Rightarrow> string" where
  "KindName kNewline = ''newline''"
| "KindName kSemicolon = '';''"
| "KindName kComment = ''comment''"
| "KindName kString = ''string''"
| "KindName kNumber = ''number''"
| "KindName kDuration = ''duration''"
| "KindName kWord = ''word''"
| "KindName kDot = ''.''"
| "KindName kQuestionDot = ''?.''"
| "KindName kQuestionBracket = ''?[''"
| "KindName kRange = ''..''"
| "KindName kSpread = ''...''"
| "KindName kArrow = ''->''"
| "KindName kCarry = ''<-''"
| "KindName kEqual = ''=''"
| "KindName kEqualEqual = ''==''"
| "KindName kBangEqual = ''!=''"
| "KindName kLess = ''<''"
| "KindName kLessEqual = ''<=''"
| "KindName kGreater = ''>''"
| "KindName kGreaterEqual = ''>=''"
| "KindName kPlus = ''+''"
| "KindName kMinus = ''-''"
| "KindName kPipe = ''|''"
| "KindName kColon = '':''"
| "KindName kScope = ''::''"
| "KindName kStar = ''*''"
| "KindName kSlash = ''/''"
| "KindName kPercent = ''%''"
| "KindName kComma = '',''"
| "KindName kLeftBrace = ''{''"
| "KindName kRightBrace = ''}''"
| "KindName kLeftParen = ''(''"
| "KindName kRightParen = '')''"
| "KindName kLeftBracket = ''[''"
| "KindName kRightBracket = '']''"
| "KindName kBad = ''bad''"
| "KindName kEnd = ''end''"

definition kAll :: "TokenKind list" where
  "kAll =
     [kNewline, kSemicolon, kComment, kString, kNumber, kDuration, kWord, kDot, kQuestionDot,
      kQuestionBracket, kRange, kSpread, kArrow, kCarry, kEqual, kEqualEqual, kBangEqual, kLess,
      kLessEqual, kGreater, kGreaterEqual, kPlus, kMinus, kPipe, kColon, kScope, kStar, kSlash,
      kPercent, kComma, kLeftBrace, kRightBrace, kLeftParen, kRightParen, kLeftBracket,
      kRightBracket, kEnd]"

definition KindFromName :: "string \<Rightarrow> TokenKind" where
  "KindFromName name =
     (case List.find (\<lambda>kind. KindName kind = name) kAll of None \<Rightarrow> kBad | Some kind \<Rightarrow> kind)"

section \<open>Duration units\<close>

definition DurationUnits :: "string list" where
  "DurationUnits = [''ns'', ''us'', ''ms'', ''s'', ''m'', ''h'']"

text \<open>The bits of \<open>1e-9\<close>, \<open>1e-6\<close>, \<open>0.001\<close>, \<open>1.0\<close>, \<open>60.0\<close> and \<open>3600.0\<close>.\<close>

definition DurationTable :: "(string \<times> u64) list" where
  "DurationTable =
     [(''ns'', 0x3E112E0BE826D695), (''us'', 0x3EB0C6F7A0B5ED8D), (''ms'', 0x3F50624DD2F1A9FC),
      (''s'', 0x3FF0000000000000), (''m'', 0x404E000000000000), (''h'', 0x40AC200000000000)]"

definition DurationUnitSeconds :: "string \<Rightarrow> u64 option" where
  "DurationUnitSeconds unit = map_of DurationTable unit"

section \<open>Facts\<close>

text \<open>Every kind is found again under its name, and a name that no kind has is bad.\<close>

lemma kind_from_name: "KindFromName (KindName kind) = kind"
  by (cases kind) (simp_all add: KindFromName_def kAll_def)

lemma kind_name_inject: "KindName k = KindName l \<longleftrightarrow> k = l"
  by (metis kind_from_name)

text \<open>The units an error message offers are exactly those the lexer accepts.\<close>

lemma duration_units_listed: "u \<in> set DurationUnits \<longleftrightarrow> DurationUnitSeconds u \<noteq> None"
  by (auto simp: DurationUnits_def DurationUnitSeconds_def DurationTable_def split: if_splits)

text \<open>
  A budget that said no says no ever after, and work that was granted is gone from it.
\<close>

lemma budget_stays_exhausted:
  "Budget_Check now work b = (False, b') \<Longrightarrow> Budget_Check now' work' b' = (False, b')"
  by (auto simp: Budget_Check_def read_clock_def split: if_splits)

lemma budget_charges:
  "Budget_Check now work b = (True, b') \<Longrightarrow>
     cb_remaining b = cb_remaining b' + work \<and> \<not> cb_exhausted b' \<and>
     now (cb_readings b) < cb_deadline b"
  by (auto simp: Budget_Check_def read_clock_def split: if_splits)

end
