(* ===== verification/Flow_Lexer.thy ===== *)
theory Flow_Lexer
  imports Flow_Token
begin

text \<open>
  The Flow lexer (\<open>cpp/a11/flow/lexer.cc\<close>).  The members of the class \<open>Lexer\<close> are the
  record \<open>Lexer\<close>; each of its methods takes the source and the state and returns the state,
  \<open>Column\<close> included, because it moves the scan it caches.  A loop that only moves the index
  is a recursion on the unread suffix; the two loops over the body of a string, which also
  count lines and record escapes, are recursions on the state.  The conversion of digits to
  a \<open>double\<close>, the conversion to a 64-bit integer and the product with a unit's seconds are
  Abseil's and the processor's: the record \<open>number_text\<close> is a parameter.
\<close>

record number_text =
  SimpleAtod :: "string \<Rightarrow> u64 option"
  SimpleAtoi64 :: "string \<Rightarrow> int option"
  SecondsOfProduct :: "u64 \<Rightarrow> u64 \<Rightarrow> Duration"

definition isfinite :: "u64 \<Rightarrow> bool" where
  "isfinite bits \<longleftrightarrow> drop_bit 52 bits AND 0x7FF \<noteq> 0x7FF"

section \<open>Characters\<close>

abbreviation newline :: char where
  "newline \<equiv> CHR 0x0A"

abbreviation quote :: char where
  "quote \<equiv> CHR 0x22"

abbreviation backslash :: char where
  "backslash \<equiv> CHR 0x5C"

definition IsDigit :: "char \<Rightarrow> bool" where
  "IsDigit c \<longleftrightarrow> of_char (CHR ''0'') \<le> (of_char c :: nat) \<and> of_char c \<le> (of_char (CHR ''9'') :: nat)"

definition IsAsciiLetter :: "char \<Rightarrow> bool" where
  "IsAsciiLetter c \<longleftrightarrow>
     of_char (CHR ''a'') \<le> (of_char c :: nat) \<and> of_char c \<le> (of_char (CHR ''z'') :: nat) \<or>
     of_char (CHR ''A'') \<le> (of_char c :: nat) \<and> of_char c \<le> (of_char (CHR ''Z'') :: nat)"

definition IsNameStart :: "char \<Rightarrow> bool" where
  "IsNameStart c \<longleftrightarrow>
     IsAsciiLetter c \<or> c = CHR ''_'' \<or> c = CHR ''$'' \<or> of_char c \<ge> (0x80 :: nat)"

definition IsNamePart :: "char \<Rightarrow> bool" where
  "IsNamePart c \<longleftrightarrow> IsNameStart c \<or> IsDigit c"

definition kEllipsis :: string where
  "kEllipsis = [CHR 0xE2, CHR 0x80, CHR 0xA6]"

text \<open>\<open>source.substr(start, end - start)\<close>.\<close>

definition substr :: "string \<Rightarrow> nat \<Rightarrow> nat \<Rightarrow> string" where
  "substr src i j = take (j - i) (drop i src)"

text \<open>\<open>while (i < size && p(source[i])) ++i\<close>.\<close>

definition skip_while :: "(char \<Rightarrow> bool) \<Rightarrow> string \<Rightarrow> nat \<Rightarrow> nat" where
  "skip_while p src i = i + length (takeWhile p (drop i src))"

section \<open>The state, columns, tokens and reports\<close>

record Lexer =
  lx_tokens :: "Token list"
  lx_diagnostics :: "Diagnostic list"
  lx_index :: nat
  lx_line_start :: nat
  lx_line :: nat
  lx_counted_at :: nat
  lx_counted_column :: nat

definition new_lexer :: Lexer where
  "new_lexer =
     \<lparr>lx_tokens = [], lx_diagnostics = [], lx_index = 0, lx_line_start = 0, lx_line = 1,
      lx_counted_at = 0, lx_counted_column = 1\<rparr>"

text \<open>The loop of \<open>Column\<close> over the bytes between the last answer and the offset asked for.\<close>

fun count_columns :: "string \<Rightarrow> nat \<Rightarrow> nat" where
  "count_columns [] column = column"
| "count_columns (c # cs) column =
     count_columns cs (if IsContinuation c then column else Suc column)"

definition Column :: "string \<Rightarrow> nat \<Rightarrow> Lexer \<Rightarrow> nat \<times> Lexer" where
  "Column src at lx =
     (let (counted_at, counted_column) =
            (if at < lx_counted_at lx \<or> lx_counted_at lx < lx_line_start lx
             then (lx_line_start lx, 1)
             else (lx_counted_at lx, lx_counted_column lx));
          column = count_columns (substr src counted_at at) counted_column
      in (column, lx\<lparr>lx_counted_at := max counted_at at, lx_counted_column := column\<rparr>))"

definition blank_token :: Token where
  "blank_token =
     \<lparr>tk_kind = kEnd, tk_text = [], tk_start = 0, tk_end = 0, tk_line = 1, tk_column = 1,
      tk_string_value = [], tk_string_escapes = [], tk_number = 0, tk_integer = 0,
      tk_is_integer = False, tk_duration = Ticks 0\<rparr>"

text \<open>
  \<open>Push\<close> returns a reference through which the caller fills in the token's value: \<open>fill\<close>
  is what the caller writes.
\<close>

definition new_token :: "string \<Rightarrow> TokenKind \<Rightarrow> nat \<Rightarrow> nat \<Rightarrow> nat \<Rightarrow> nat \<Rightarrow> Token" where
  "new_token src kind start end line column =
     blank_token\<lparr>tk_kind := kind, tk_start := start, tk_end := end,
       tk_text := substr src start end, tk_line := line, tk_column := column\<rparr>"

definition Push ::
  "string \<Rightarrow> TokenKind \<Rightarrow> nat \<Rightarrow> nat \<Rightarrow> (Token \<Rightarrow> Token) \<Rightarrow> Lexer \<Rightarrow> Lexer" where
  "Push src kind start end fill lx =
     (let (column, lx') = Column src start lx
      in lx'\<lparr>lx_tokens := lx_tokens lx' @
               [fill (new_token src kind start end (lx_line lx) column)]\<rparr>)"

definition Report ::
  "string \<Rightarrow> string \<Rightarrow> string \<Rightarrow> nat \<Rightarrow> nat \<Rightarrow> Family \<Rightarrow> Lexer \<Rightarrow> Lexer" where
  "Report src code message start end family lx =
     (let (first, lx1) = Column src start lx;
          (last, lx2) = Column src end lx1
      in lx2\<lparr>lx_diagnostics := lx_diagnostics lx2 @
               [\<lparr>dg_source = [], dg_code = code, dg_severity = kError, dg_family = family,
                 dg_range = (\<lparr>ps_offset = start, ps_line = lx_line lx, ps_column = first\<rparr>,
                             \<lparr>ps_offset = end, ps_line = lx_line lx, ps_column = last\<rparr>),
                 dg_message = message, dg_flow = [], dg_fixes = [], dg_related = []\<rparr>]\<rparr>)"

definition Take :: "string \<Rightarrow> TokenKind \<Rightarrow> nat \<Rightarrow> nat \<Rightarrow> Lexer \<Rightarrow> Lexer" where
  "Take src kind start len lx =
     Push src kind start (start + len) id (lx\<lparr>lx_index := start + len\<rparr>)"

text \<open>None of them moves the index or the line.\<close>

lemma column_frame [simp]:
  "lx_index (snd (Column src at lx)) = lx_index lx"
  "lx_tokens (snd (Column src at lx)) = lx_tokens lx"
  "lx_line (snd (Column src at lx)) = lx_line lx"
  "lx_line_start (snd (Column src at lx)) = lx_line_start lx"
  "lx_diagnostics (snd (Column src at lx)) = lx_diagnostics lx"
  by (auto simp: Column_def Let_def split: prod.splits if_splits)

lemma report_frame [simp]:
  "lx_index (Report src code message s e family lx) = lx_index lx"
  "lx_tokens (Report src code message s e family lx) = lx_tokens lx"
  "lx_line (Report src code message s e family lx) = lx_line lx"
  "lx_line_start (Report src code message s e family lx) = lx_line_start lx"
  by (simp_all add: Report_def case_prod_unfold Let_def)

lemma new_token_simps [simp]:
  "tk_kind (new_token src kind s e l c) = kind"
  "tk_start (new_token src kind s e l c) = s"
  "tk_end (new_token src kind s e l c) = e"
  "tk_text (new_token src kind s e l c) = substr src s e"
  "tk_line (new_token src kind s e l c) = l"
  "tk_column (new_token src kind s e l c) = c"
  by (simp_all add: new_token_def)

lemma push_frame [simp]:
  "lx_tokens (Push src kind s e fill lx) =
     lx_tokens lx @ [fill (new_token src kind s e (lx_line lx) (fst (Column src s lx)))]"
  "lx_index (Push src kind s e fill lx) = lx_index lx"
  "lx_line (Push src kind s e fill lx) = lx_line lx"
  "lx_line_start (Push src kind s e fill lx) = lx_line_start lx"
  by (simp_all add: Push_def case_prod_unfold Let_def)

lemma skip_while_ge: "i \<le> skip_while p src i"
  by (simp add: skip_while_def)

lemma skip_while_le: "i \<le> length src \<Longrightarrow> skip_while p src i \<le> length src"
  using length_takeWhile_le [of p "drop i src"] by (simp add: skip_while_def)

lemma skip_while_step:
  "i < length src \<Longrightarrow> p (src ! i) \<Longrightarrow> skip_while p src i = skip_while p src (Suc i)"
  by (simp add: skip_while_def Cons_nth_drop_Suc [symmetric])

section \<open>Strings\<close>

text \<open>The indentation rule of a triple-quoted string.\<close>

fun split_lines :: "string \<Rightarrow> string list" where
  "split_lines [] = [[]]"
| "split_lines (c # cs) =
     (if c = newline then [] # split_lines cs
      else (c # hd (split_lines cs)) # tl (split_lines cs))"

definition blank_line :: "string \<Rightarrow> bool" where
  "blank_line line \<longleftrightarrow> list_all (\<lambda>c. c \<in> {CHR '' '', CHR 0x09, CHR 0x0D}) line"

definition indentation :: "string \<Rightarrow> nat" where
  "indentation line = length (takeWhile (\<lambda>c. c \<in> {CHR '' '', CHR 0x09}) line)"

definition common_indentation :: "string list \<Rightarrow> nat" where
  "common_indentation ls =
     (case map indentation (filter (\<lambda>l. \<not> blank_line l) ls) of
        [] \<Rightarrow> 0
      | n # ns \<Rightarrow> fold min ns n)"

fun join_with :: "string \<Rightarrow> string list \<Rightarrow> string" where
  "join_with sep [] = []"
| "join_with sep [l] = l"
| "join_with sep (l # m # ls) = l @ sep @ join_with sep (m # ls)"

definition Dedent :: "string \<Rightarrow> string" where
  "Dedent inner =
     (let ls = split_lines inner;
          ls = (if length ls > 1 \<and> blank_line (hd ls) then tl ls else ls);
          ls = (if length ls > 1 \<and> blank_line (last ls) then butlast ls else ls);
          common = common_indentation ls
      in join_with [newline] (map (\<lambda>l. if length l > common then drop common l else []) ls))"

definition DecodeEscape :: "char \<Rightarrow> char" where
  "DecodeEscape c =
     (if c = CHR ''0'' then CHR 0x00
      else if c = CHR ''a'' then CHR 0x07
      else if c = CHR ''b'' then CHR 0x08
      else if c = CHR ''f'' then CHR 0x0C
      else if c = CHR ''n'' then CHR 0x0A
      else if c = CHR ''r'' then CHR 0x0D
      else if c = CHR ''t'' then CHR 0x09
      else if c = CHR ''v'' then CHR 0x0B
      else c)"

fun Unescape :: "string \<Rightarrow> string" where
  "Unescape [] = []"
| "Unescape [c] = [c]"
| "Unescape (c # d # cs) =
     (if c \<noteq> backslash then c # Unescape (d # cs) else DecodeEscape d # Unescape cs)"

definition EscapeAt :: "string \<Rightarrow> nat \<Rightarrow> Lexer \<Rightarrow> StringEscape \<times> Lexer" where
  "EscapeAt src start lx =
     (let (column, lx') = Column src start lx
      in (\<lparr>se_start = start, se_end = skip_while IsContinuation src (start + 2),
           se_line = lx_line lx, se_column = column\<rparr>, lx'))"

lemma escape_frame [simp]:
  "snd (EscapeAt src start lx) = snd (Column src start lx)"
  "se_end (fst (EscapeAt src start lx)) = skip_while IsContinuation src (start + 2)"
  by (simp_all add: EscapeAt_def case_prod_unfold Let_def)

text \<open>
  The body of a triple-quoted string, one escape or one character at a time.
\<close>

definition pass_escape :: "string \<Rightarrow> Lexer \<Rightarrow> Lexer" where
  "pass_escape src lx =
     (let i = lx_index lx;
          (e, lx1) = EscapeAt src i lx;
          lx2 = (if src ! (i + 1) = newline
                 then lx1\<lparr>lx_line := Suc (lx_line lx1), lx_line_start := i + 2\<rparr> else lx1)
      in lx2\<lparr>lx_index := se_end e\<rparr>)"

definition pass_char :: "string \<Rightarrow> Lexer \<Rightarrow> Lexer" where
  "pass_char src lx =
     (let i = lx_index lx;
          lx1 = (if src ! i = newline
                 then lx\<lparr>lx_line := Suc (lx_line lx), lx_line_start := i + 1\<rparr> else lx)
      in lx1\<lparr>lx_index := i + 1\<rparr>)"

lemma skip_escape [simp]: "i < skip_while p src (Suc (Suc i))"
  by (simp add: skip_while_def)

lemma pass_frame [simp]:
  "lx_index (pass_escape src lx) = skip_while IsContinuation src (Suc (Suc (lx_index lx)))"
  "lx_tokens (pass_escape src lx) = lx_tokens lx"
  "lx_index (pass_char src lx) = Suc (lx_index lx)"
  "lx_tokens (pass_char src lx) = lx_tokens lx"
  by (simp_all add: pass_escape_def pass_char_def case_prod_unfold Let_def)

text \<open>
  The first component of the result is \<open>inner_end\<close>, if the closing quotes were found.
\<close>

function multiline_body ::
  "string \<Rightarrow> StringEscape list \<Rightarrow> Lexer \<Rightarrow> nat option \<times> StringEscape list \<times> Lexer" where
  "multiline_body src escapes lx =
     (if lx_index lx < length src then
        if src ! lx_index lx = backslash \<and> lx_index lx + 1 < length src
        then multiline_body src (escapes @ [fst (EscapeAt src (lx_index lx) lx)]) (pass_escape src lx)
        else if take 3 (drop (lx_index lx) src) = [quote, quote, quote]
        then (Some (lx_index lx), escapes, lx\<lparr>lx_index := lx_index lx + 3\<rparr>)
        else multiline_body src escapes (pass_char src lx)
      else (None, escapes, lx))"
  by pat_completeness auto

termination multiline_body
  by (relation "measure (\<lambda>(src, escapes, lx). length src - lx_index lx)")
     (auto simp: diff_less_mono2)

declare multiline_body.simps [simp del]

definition ReadMultilineString :: "string \<Rightarrow> Lexer \<Rightarrow> Lexer" where
  "ReadMultilineString src lx0 =
     (let start = lx_index lx0;
          start_line = lx_line lx0;
          start_line_start = lx_line_start lx0;
          inner_start = start + 3;
          (found, escapes, lx1) = multiline_body src [] (lx0\<lparr>lx_index := inner_start\<rparr>);
          inner_end = (case found of None \<Rightarrow> lx_index lx1 | Some i \<Rightarrow> i);
          lx2 = (if found = None
                 then Report src ''flow.syntax.unterminated-string''
                        (''Unterminated '' @ [quote, quote, quote] @ '' string.'')
                        start (lx_index lx1) kSyntax lx1
                 else lx1);
          lx3 = Push src kString start (lx_index lx2)
                  (\<lambda>t. t\<lparr>tk_string_value := Unescape (Dedent (substr src inner_start inner_end)),
                        tk_string_escapes := escapes\<rparr>)
                  (lx2\<lparr>lx_line := start_line, lx_line_start := start_line_start\<rparr>)
      in lx3\<lparr>lx_line := lx_line lx2, lx_line_start := lx_line_start lx2\<rparr>)"

text \<open>The body of a string on one line: whether it ended, its value and its escapes.\<close>

definition pass_string_escape :: "string \<Rightarrow> StringEscape list \<Rightarrow> Lexer \<Rightarrow> StringEscape list \<times> Lexer" where
  "pass_string_escape src escapes lx =
     (let i = lx_index lx in
      if i + 1 < length src \<and> src ! (i + 1) \<noteq> newline
      then (let (e, lx') = EscapeAt src i lx in (escapes @ [e], lx'\<lparr>lx_index := i + 1\<rparr>))
      else (escapes, lx\<lparr>lx_index := i + 1\<rparr>))"

lemma pass_string_frame [simp]:
  "lx_index (snd (pass_string_escape src escapes lx)) = Suc (lx_index lx)"
  "lx_tokens (snd (pass_string_escape src escapes lx)) = lx_tokens lx"
  by (simp_all add: pass_string_escape_def case_prod_unfold Let_def)

function string_body ::
  "string \<Rightarrow> string \<Rightarrow> StringEscape list \<Rightarrow> Lexer \<Rightarrow> bool \<times> string \<times> StringEscape list \<times> Lexer" where
  "string_body src val escapes lx =
     (if lx_index lx < length src then
        let letter = src ! lx_index lx in
        if letter = newline then (False, val, escapes, lx)
        else if letter = quote then (True, val, escapes, lx\<lparr>lx_index := lx_index lx + 1\<rparr>)
        else if letter = backslash then
          let escapes' = fst (pass_string_escape src escapes lx);
              lx' = snd (pass_string_escape src escapes lx)
          in if lx_index lx' \<ge> length src then (False, val, escapes', lx')
             else string_body src (val @ [DecodeEscape (src ! lx_index lx')]) escapes'
                    (lx'\<lparr>lx_index := lx_index lx' + 1\<rparr>)
        else string_body src (val @ [letter]) escapes (lx\<lparr>lx_index := lx_index lx + 1\<rparr>)
      else (False, val, escapes, lx))"
  by pat_completeness auto

termination string_body
  by (relation "measure (\<lambda>(src, val, escapes, lx). length src - lx_index lx)") auto

declare string_body.simps [simp del]

definition ReadString :: "string \<Rightarrow> Lexer \<Rightarrow> Lexer" where
  "ReadString src lx0 =
     (if take 3 (drop (lx_index lx0) src) = [quote, quote, quote] then ReadMultilineString src lx0
      else
        (let start = lx_index lx0;
             (terminated, val, escapes, lx1) =
               string_body src [] [] (lx0\<lparr>lx_index := start + 1\<rparr>);
             lx2 = (if \<not> terminated
                    then Report src ''flow.syntax.unterminated-string'' ''Unterminated string.''
                           start (lx_index lx1) kSyntax lx1
                    else lx1)
         in Push src kString start (lx_index lx2)
              (\<lambda>t. t\<lparr>tk_string_value := val, tk_string_escapes := escapes\<rparr>) lx2))"

section \<open>Numbers, words and punctuation\<close>

text \<open>The digits and the decimal point: where they end, and whether there was a point.\<close>

fun scan_number :: "string \<Rightarrow> nat \<Rightarrow> bool \<Rightarrow> nat \<times> bool" where
  "scan_number [] i fractional = (i, fractional)"
| "scan_number (c # cs) i fractional =
     (if IsDigit c then scan_number cs (Suc i) fractional
      else if c = CHR ''.'' \<and> \<not> (cs \<noteq> [] \<and> hd cs = CHR ''.'') then scan_number cs (Suc i) True
      else (i, fractional))"

text \<open>The sign of an exponent, from the offset after its \<open>e\<close>.\<close>

definition skip_sign :: "string \<Rightarrow> nat \<Rightarrow> nat" where
  "skip_sign src i =
     (if i < length src \<and> (src ! i = CHR ''+'' \<or> src ! i = CHR ''-'') then i + 1 else i)"

text \<open>The token from the digits \<open>[start, number_end)\<close> and the unit \<open>[number_end, index)\<close>.\<close>

definition NumberToken ::
  "number_text \<Rightarrow> string \<Rightarrow> nat \<Rightarrow> nat \<Rightarrow> bool \<Rightarrow> Lexer \<Rightarrow> Lexer" where
  "NumberToken num src start number_end fractional lx =
     (let number_text = substr src start number_end;
          i = skip_while IsAsciiLetter src number_end;
          unit = substr src number_end i;
          lx1 = lx\<lparr>lx_index := i\<rparr>;
          parsed = (case SimpleAtod num number_text of
                      None \<Rightarrow> None
                    | Some bits \<Rightarrow> if isfinite bits then Some bits else None);
          val = (case parsed of None \<Rightarrow> 0 | Some bits \<Rightarrow> bits);
          lx2 = (if parsed = None
                 then Report src ''flow.form.bad-number''
                        (''Bad number '' @ [CHR 0x27] @ number_text @ [CHR 0x27] @ ''.'')
                        start number_end kForm lx1
                 else lx1)
      in if unit = [] then
           (if fractional
            then Push src kNumber start number_end
                   (\<lambda>t. t\<lparr>tk_number := val, tk_is_integer := False\<rparr>) lx2
            else case SimpleAtoi64 num number_text of
                Some n \<Rightarrow> Push src kNumber start number_end
                   (\<lambda>t. t\<lparr>tk_number := val, tk_is_integer := True, tk_integer := n\<rparr>) lx2
              | None \<Rightarrow> Report src ''flow.form.bad-number''
                   ''An integer must fit in a signed 64-bit value.'' start number_end kForm
                   (Push src kNumber start number_end
                     (\<lambda>t. t\<lparr>tk_number := val, tk_is_integer := False, tk_integer := 0\<rparr>) lx2))
         else case DurationUnitSeconds unit of
             None \<Rightarrow> Push src kBad start i id
               (Report src ''flow.form.duration-unit''
                  (''Unknown duration unit '' @ [CHR 0x27] @ unit @ [CHR 0x27] @ '' (use '' @
                   join_with '', '' DurationUnits @ '').'')
                  number_end i kForm lx2)
           | Some seconds \<Rightarrow> Push src kDuration start i
               (\<lambda>t. t\<lparr>tk_number := val, tk_is_integer := \<not> fractional,
                     tk_duration := SecondsOfProduct num val seconds\<rparr>) lx2)"

definition ReadNumber :: "number_text \<Rightarrow> string \<Rightarrow> Lexer \<Rightarrow> Lexer" where
  "ReadNumber num src lx =
     (let start = lx_index lx;
          (i, fractional) = scan_number (drop (start + 1) src) (start + 1) False
      in if i < length src \<and> (src ! i = CHR ''e'' \<or> src ! i = CHR ''E'') then
           (let digits = skip_sign src (i + 1);
                j = skip_while IsDigit src digits
            in if j = digits then
                 (let k = skip_while IsAsciiLetter src j
                  in Push src kBad start k id
                       (Report src ''flow.form.bad-number'' ''An exponent requires digits.''
                          start k kForm (lx\<lparr>lx_index := k\<rparr>)))
               else NumberToken num src start j True lx)
         else NumberToken num src start i fractional lx)"

fun scan_word :: "string \<Rightarrow> nat \<Rightarrow> nat" where
  "scan_word [] i = i"
| "scan_word (c # cs) i =
     (if IsNamePart c then scan_word cs (Suc i)
      else if c = CHR ''-'' \<and> cs \<noteq> [] \<and> IsNamePart (hd cs) then scan_word (tl cs) (i + 2)
      else i)"

definition ReadWord :: "string \<Rightarrow> Lexer \<Rightarrow> Lexer" where
  "ReadWord src lx =
     (let start = lx_index lx; i = scan_word (drop (start + 1) src) (start + 1)
      in Push src kWord start i id (lx\<lparr>lx_index := i\<rparr>))"

text \<open>The pairs of characters that are one token, in the order they are tried.\<close>

definition two_letters :: "((char \<times> char) \<times> TokenKind) list" where
  "two_letters =
     [((CHR '':'', CHR '':''), kScope), ((CHR ''?'', CHR ''.''), kQuestionDot),
      ((CHR ''?'', CHR ''[''), kQuestionBracket)]"

definition two_letters_after_range :: "((char \<times> char) \<times> TokenKind) list" where
  "two_letters_after_range =
     [((CHR ''-'', CHR ''>''), kArrow), ((CHR ''<'', CHR ''-''), kCarry),
      ((CHR ''='', CHR ''=''), kEqualEqual), ((CHR ''!'', CHR ''=''), kBangEqual),
      ((CHR ''<'', CHR ''=''), kLessEqual), ((CHR ''>'', CHR ''=''), kGreaterEqual)]"

definition one_letter :: "(char \<times> TokenKind) list" where
  "one_letter =
     [(CHR ''.'', kDot), (CHR ''*'', kStar), (CHR ''/'', kSlash), (CHR ''%'', kPercent),
      (CHR ''{'', kLeftBrace), (CHR ''}'', kRightBrace), (CHR ''('', kLeftParen),
      (CHR '')'', kRightParen), (CHR ''['', kLeftBracket), (CHR '']'', kRightBracket),
      (CHR '':'', kColon), (CHR '','', kComma), (CHR ''|'', kPipe), (CHR ''='', kEqual),
      (CHR ''<'', kLess), (CHR ''>'', kGreater), (CHR ''+'', kPlus), (CHR ''-'', kMinus)]"

definition ReadPunctuation :: "string \<Rightarrow> Lexer \<Rightarrow> Lexer" where
  "ReadPunctuation src lx =
     (let start = lx_index lx;
          letter = src ! start;
          follow = (if start + 1 < length src then src ! (start + 1) else CHR 0x00)
      in case map_of two_letters (letter, follow) of
           Some kind \<Rightarrow> Take src kind start 2 lx
         | None \<Rightarrow>
             if letter = CHR ''.'' \<and> follow = CHR ''.'' then
               (let third = (start + 2 < length src \<and> src ! (start + 2) = CHR ''.'')
                in Take src (if third then kSpread else kRange) start (if third then 3 else 2) lx)
             else case map_of two_letters_after_range (letter, follow) of
                 Some kind \<Rightarrow> Take src kind start 2 lx
               | None \<Rightarrow>
                   (case map_of one_letter letter of
                      Some kind \<Rightarrow> Take src kind start 1 lx
                    | None \<Rightarrow> Take src kBad start 1
                        (Report src ''flow.syntax.unexpected-character''
                           (''Unexpected character '' @ [CHR 0x27] @ [letter] @ [CHR 0x27] @ ''.'')
                           start (start + 1) kSyntax lx)))"

section \<open>The lexer\<close>

text \<open>\<open>result_.diagnostics.back().fixes.push_back(fix)\<close>.\<close>

definition add_fix :: "Fix \<Rightarrow> Lexer \<Rightarrow> Lexer" where
  "add_fix fix lx =
     (let ds = lx_diagnostics lx; d = last ds
      in lx\<lparr>lx_diagnostics := butlast ds @ [d\<lparr>dg_fixes := dg_fixes d @ [fix]\<rparr>]\<rparr>)"

definition ReadEllipsis :: "string \<Rightarrow> Lexer \<Rightarrow> Lexer" where
  "ReadEllipsis src lx =
     (let start = lx_index lx
      in add_fix
           \<lparr>fx_label = ''Write '' @ [CHR 0x27] @ ''...'' @ [CHR 0x27],
            fx_edits = [\<lparr>ed_start = start, ed_end = start + length kEllipsis, ed_text = ''...''\<rparr>],
            fx_automatic = True\<rparr>
           (Take src kSpread start (length kEllipsis)
             (Report src ''flow.syntax.unexpected-character''
                (''A spread is written '' @ [CHR 0x27] @ ''...'' @ [CHR 0x27] @ ''; '' @ [CHR 0x27] @
                 kEllipsis @ [CHR 0x27] @ '' is not one.'')
                start (start + length kEllipsis) kSyntax lx)))"

definition ReadNewline :: "string \<Rightarrow> Lexer \<Rightarrow> Lexer" where
  "ReadNewline src lx =
     (let i = lx_index lx;
          lx1 = (if lx_tokens lx \<noteq> [] \<and> tk_kind (last (lx_tokens lx)) \<noteq> kNewline
                 then Push src kNewline i (i + 1) id lx else lx)
      in lx1\<lparr>lx_index := i + 1, lx_line := Suc (lx_line lx1), lx_line_start := i + 1\<rparr>)"

definition ReadComment :: "bool \<Rightarrow> string \<Rightarrow> Lexer \<Rightarrow> Lexer" where
  "ReadComment keep_comments src lx =
     (let start = lx_index lx;
          i = skip_while (\<lambda>c. c \<noteq> newline) src start;
          lx1 = lx\<lparr>lx_index := i\<rparr>
      in if keep_comments then Push src kComment start i id lx1 else lx1)"

text \<open>One round of the loop of \<open>Run\<close>, after its limits were checked.\<close>

definition lex_step :: "number_text \<Rightarrow> bool \<Rightarrow> string \<Rightarrow> Lexer \<Rightarrow> Lexer" where
  "lex_step num keep_comments src lx =
     (let i = lx_index lx; letter = src ! i
      in if letter = CHR '';'' then (Push src kSemicolon i (i + 1) id lx)\<lparr>lx_index := i + 1\<rparr>
         else if letter = newline then ReadNewline src lx
         else if letter = CHR '' '' \<or> letter = CHR 0x09 \<or> letter = CHR 0x0D
         then lx\<lparr>lx_index := i + 1\<rparr>
         else if letter = CHR ''#'' then ReadComment keep_comments src lx
         else if letter = quote then ReadString src lx
         else if IsDigit letter \<or>
                 letter = CHR ''-'' \<and> i + 1 < length src \<and> IsDigit (src ! (i + 1))
         then ReadNumber num src lx
         else if take (length kEllipsis) (drop i src) = kEllipsis then ReadEllipsis src lx
         else if IsNameStart letter then ReadWord src lx
         else ReadPunctuation src lx)"

section \<open>Every round consumes source\<close>

text \<open>
  What a rule of the lexer does: it reads from the index to a later index within the source
  and appends one token for exactly what it read.
\<close>

definition emits :: "string \<Rightarrow> Lexer \<Rightarrow> Lexer \<Rightarrow> bool" where
  "emits src lx lx' \<longleftrightarrow>
     lx_index lx < lx_index lx' \<and> lx_index lx' \<le> length src \<and>
     (\<exists>t. lx_tokens lx' = lx_tokens lx @ [t] \<and> tk_start t = lx_index lx \<and>
        tk_end t = lx_index lx' \<and> tk_text t = substr src (tk_start t) (tk_end t) \<and>
        tk_kind t \<noteq> kEnd \<and>
        (tk_kind t = kNewline \<longrightarrow>
           tk_text t = [newline] \<and> lx_tokens lx \<noteq> [] \<and> tk_kind (last (lx_tokens lx)) \<noteq> kNewline))"

lemma three_quotes_fit:
  "take n (drop i src) = cs \<Longrightarrow> length cs = n \<Longrightarrow> 0 < n \<Longrightarrow> i + n \<le> length src"
  by (drule arg_cong [where f = length]) (simp add: min_def split: if_splits)

text \<open>
  The two loops over the body of a string keep whatever their steps keep.
\<close>

lemma multiline_body_invariant:
  assumes esc: "\<And>lx. I lx \<Longrightarrow> src ! lx_index lx = backslash \<Longrightarrow> Suc (lx_index lx) < length src \<Longrightarrow>
      I (pass_escape src lx)"
    and fin: "\<And>lx. I lx \<Longrightarrow> take 3 (drop (lx_index lx) src) = [quote, quote, quote] \<Longrightarrow>
      I (lx\<lparr>lx_index := lx_index lx + 3\<rparr>)"
    and plain: "\<And>lx. I lx \<Longrightarrow> lx_index lx < length src \<Longrightarrow> I (pass_char src lx)"
  shows "I lx \<Longrightarrow> I (snd (snd (multiline_body src escapes lx)))"
proof (induction "length src - lx_index lx" arbitrary: escapes lx rule: less_induct)
  case less
  let ?i = "lx_index lx"
  note unfold = multiline_body.simps [of src escapes lx]
  consider (stop) "\<not> ?i < length src"
    | (esc) "?i < length src" "src ! ?i = backslash \<and> ?i + 1 < length src"
    | (fin) "?i < length src" "\<not> (src ! ?i = backslash \<and> ?i + 1 < length src)"
        "take 3 (drop ?i src) = [quote, quote, quote]"
    | (plain) "?i < length src" "\<not> (src ! ?i = backslash \<and> ?i + 1 < length src)"
        "take 3 (drop ?i src) \<noteq> [quote, quote, quote]"
    by blast
  then show ?case
  proof cases
    case stop
    then show ?thesis using less.prems unfold by simp
  next
    case esc
    have "length src - lx_index (pass_escape src lx) < length src - ?i"
      using esc(1) by (simp add: diff_less_mono2)
    then show ?thesis
      unfolding unfold if_P [OF esc(1)] if_P [OF esc(2)]
      using less.hyps assms(1) [OF less.prems] esc(2) by simp
  next
    case fin
    then show ?thesis
      unfolding unfold if_P [OF fin(1)] if_not_P [OF fin(2)] if_P [OF fin(3)]
      using assms(2) [OF less.prems] by simp
  next
    case plain
    have "length src - lx_index (pass_char src lx) < length src - ?i"
      using plain(1) by simp
    then show ?thesis
      unfolding unfold if_P [OF plain(1)] if_not_P [OF plain(2)] if_not_P [OF plain(3)]
      using less.hyps assms(3) [OF less.prems plain(1)] by simp
  qed
qed

lemma string_body_invariant:
  assumes char: "\<And>lx. I lx \<Longrightarrow> lx_index lx < length src \<Longrightarrow> src ! lx_index lx \<noteq> newline \<Longrightarrow>
      I (lx\<lparr>lx_index := Suc (lx_index lx)\<rparr>)"
    and esc: "\<And>lx escapes. I lx \<Longrightarrow> Suc (lx_index lx) < length src \<Longrightarrow> src ! lx_index lx = backslash \<Longrightarrow>
      I ((snd (pass_string_escape src escapes lx))\<lparr>lx_index := Suc (Suc (lx_index lx))\<rparr>)"
  shows "I lx \<Longrightarrow> I (snd (snd (snd (string_body src val escapes lx))))"
proof (induction "length src - lx_index lx" arbitrary: val escapes lx rule: less_induct)
  case less
  let ?i = "lx_index lx"
  note unfold = string_body.simps [of src val escapes lx] Let_def
  have shorter: "length src - Suc ?i < length src - ?i" "length src - Suc (Suc ?i) < length src - ?i"
    if "?i < length src"
    using that by simp_all
  have next_char: "I (lx\<lparr>lx_index := Suc ?i\<rparr>)" if "?i < length src" "src ! ?i \<noteq> newline"
    using char less.prems that by blast
  consider (stop) "\<not> ?i < length src" | (eol) "?i < length src" "src ! ?i = newline"
    | (fin) "?i < length src" "src ! ?i = quote"
    | (last) "?i < length src" "src ! ?i = backslash" "Suc ?i \<ge> length src"
    | (esc) "?i < length src" "src ! ?i = backslash" "\<not> Suc ?i \<ge> length src"
    | (plain) "?i < length src" "src ! ?i \<noteq> newline" "src ! ?i \<noteq> quote" "src ! ?i \<noteq> backslash"
    by blast
  then show ?case
  proof cases
    case last
    then show ?thesis
      unfolding unfold using next_char by (simp add: pass_string_escape_def Let_def)
  next
    case esc
    then show ?thesis
      unfolding unfold using less.hyps assms(2) [OF less.prems] shorter(2) by simp
  next
    case plain
    then show ?thesis
      unfolding unfold using less.hyps next_char shorter(1) by simp
  qed (use less.prems next_char in \<open>simp_all add: unfold\<close>)
qed

lemma multiline_body_reads:
  assumes "lx_index lx \<le> length src" and "multiline_body src escapes lx = (found, escapes', lx')"
  shows "lx_index lx \<le> lx_index lx' \<and> lx_index lx' \<le> length src \<and> lx_tokens lx' = lx_tokens lx"
proof -
  let ?I = "\<lambda>l :: Lexer. lx_index lx \<le> lx_index l \<and> lx_index l \<le> length src \<and> lx_tokens l = lx_tokens lx"
  have "?I (snd (snd (multiline_body src escapes lx)))"
  proof (rule multiline_body_invariant [where I = ?I])
    fix l :: Lexer assume "?I l" "Suc (lx_index l) < length src"
    then show "?I (pass_escape src l)"
      using skip_while_le [of "Suc (Suc (lx_index l))" src IsContinuation]
        less_imp_le [OF skip_escape [of "lx_index l" IsContinuation src]]
      by (auto intro: order_trans)
  next
    fix l :: Lexer assume "?I l" and q: "take 3 (drop (lx_index l) src) = [quote, quote, quote]"
    moreover have "lx_index l + 3 \<le> length src"
      by (rule three_quotes_fit [OF q]) simp_all
    ultimately show "?I (l\<lparr>lx_index := lx_index l + 3\<rparr>)" by simp
  qed (use assms(1) in auto)
  then show ?thesis by (simp add: assms(2))
qed

lemma string_body_reads:
  assumes "lx_index lx \<le> length src" and "string_body src val escapes lx = (terminated, val', escapes', lx')"
  shows "lx_index lx \<le> lx_index lx' \<and> lx_index lx' \<le> length src \<and> lx_tokens lx' = lx_tokens lx"
proof -
  let ?I = "\<lambda>l :: Lexer. lx_index lx \<le> lx_index l \<and> lx_index l \<le> length src \<and> lx_tokens l = lx_tokens lx"
  have "?I (snd (snd (snd (string_body src val escapes lx))))"
    by (rule string_body_invariant [where I = ?I]) (use assms(1) in auto)
  then show ?thesis by (simp add: assms(2))
qed

text \<open>The writes of a caller into the token it pushed leave what it is and where it is.\<close>

definition fills_value :: "(Token \<Rightarrow> Token) \<Rightarrow> bool" where
  "fills_value fill \<longleftrightarrow>
     (\<forall>t. tk_kind (fill t) = tk_kind t \<and> tk_text (fill t) = tk_text t \<and>
          tk_start (fill t) = tk_start t \<and> tk_end (fill t) = tk_end t \<and>
          tk_line (fill t) = tk_line t \<and> tk_column (fill t) = tk_column t)"

lemma fills_id [simp]: "fills_value id"
  by (simp add: fills_value_def)

lemma push_emits:
  assumes "lx_tokens lx' = lx_tokens lx" "start = lx_index lx" "end = lx_index lx'"
    and "start < end" "end \<le> length src" "kind \<noteq> kEnd" "kind \<noteq> kNewline" "fills_value fill"
  shows "emits src lx (Push src kind start end fill lx')"
  using assms by (simp add: emits_def fills_value_def)

lemma report_emits:
  "emits src lx lx' \<Longrightarrow> emits src lx (Report src' code message s e family lx')"
  by (simp add: emits_def)

lemma take_emits:
  assumes "lx_tokens lx' = lx_tokens lx" "0 < n" "lx_index lx + n \<le> length src"
    and "kind \<noteq> kEnd" "kind \<noteq> kNewline"
  shows "emits src lx (Take src kind (lx_index lx) n lx')"
  unfolding Take_def using assms by (intro push_emits) simp_all

lemma scan_number_reads: "scan_number cs i f = (j, f') \<Longrightarrow> i \<le> j \<and> j \<le> i + length cs"
  by (induction cs i f rule: scan_number.induct) (force split: if_splits)+

lemma scan_word_reads: "i \<le> scan_word cs i \<and> scan_word cs i \<le> i + length cs"
proof (induction cs i rule: scan_word.induct)
  case (2 c cs i)
  show ?case
  proof (cases "IsNamePart c")
    case False
    then show ?thesis using 2 by (cases cs) (auto simp: Suc_le_eq intro: less_imp_le Suc_lessD)
  qed (use 2 in auto)
qed simp

lemma skip_sign_reads: "i \<le> length src \<Longrightarrow> i \<le> skip_sign src i \<and> skip_sign src i \<le> length src"
  by (simp add: skip_sign_def)

lemma ReadMultilineString_emits:
  assumes "lx_index lx < length src" "take 3 (drop (lx_index lx) src) = [quote, quote, quote]"
  shows "emits src lx (ReadMultilineString src lx)"
proof -
  obtain found escapes lx1
    where body: "multiline_body src [] (lx\<lparr>lx_index := lx_index lx + 3\<rparr>) = (found, escapes, lx1)"
    by (metis prod_cases3)
  have "lx_index lx + 3 \<le> length src"
    by (rule three_quotes_fit [OF assms(2)]) simp_all
  then have "lx_index lx + 3 \<le> lx_index lx1 \<and> lx_index lx1 \<le> length src \<and> lx_tokens lx1 = lx_tokens lx"
    using multiline_body_reads [OF _ body] by simp
  then show ?thesis
    by (simp add: ReadMultilineString_def body emits_def Let_def)
qed

lemma ReadString_emits:
  assumes "lx_index lx < length src"
  shows "emits src lx (ReadString src lx)"
proof (cases "take 3 (drop (lx_index lx) src) = [quote, quote, quote]")
  case True
  then show ?thesis using ReadMultilineString_emits [OF assms] by (simp add: ReadString_def)
next
  case False
  obtain terminated val escapes lx1
    where body: "string_body src [] [] (lx\<lparr>lx_index := lx_index lx + 1\<rparr>) = (terminated, val, escapes, lx1)"
    by (metis prod_cases4)
  have "lx_index lx + 1 \<le> lx_index lx1 \<and> lx_index lx1 \<le> length src \<and> lx_tokens lx1 = lx_tokens lx"
    using string_body_reads [OF _ body] assms by simp
  then show ?thesis
    using False by (simp add: ReadString_def body [simplified] emits_def Let_def)
qed

lemma NumberToken_emits:
  assumes "lx_index lx < e" "e \<le> length src"
  shows "emits src lx (NumberToken num src (lx_index lx) e fractional lx)"
proof -
  have le: "lx_index lx < skip_while IsAsciiLetter src e" "skip_while IsAsciiLetter src e \<le> length src"
    using skip_while_le [OF assms(2)] assms(1) by (simp_all add: skip_while_def)
  have same: "skip_while IsAsciiLetter src e = e" if "substr src e (skip_while IsAsciiLetter src e) = []"
    using that le assms by (auto simp: substr_def skip_while_def)
  show ?thesis
    unfolding NumberToken_def Let_def
    using assms le same
    by (auto simp: fills_value_def split: option.split intro!: push_emits report_emits)
qed

lemma ReadNumber_emits:
  assumes "lx_index lx < length src"
  shows "emits src lx (ReadNumber num src lx)"
proof -
  obtain i fractional
    where scan: "scan_number (drop (lx_index lx + 1) src) (lx_index lx + 1) False = (i, fractional)"
    by fastforce
  have i: "lx_index lx < i" "i \<le> length src"
    using scan_number_reads [OF scan] assms by auto
  define d where "d = skip_sign src (i + 1)"
  have d: "i < d" "d \<le> length src" if "i < length src"
    using skip_sign_reads [of "i + 1" src] that by (auto simp: d_def)
  have j: "lx_index lx < skip_while p src d" "skip_while p src d \<le> length src" if "i < length src" for p
    using d i that skip_while_le [of d src p] skip_while_ge [of d p src] by auto
  have k: "emits src lx (Push src kBad (lx_index lx) (skip_while IsAsciiLetter src d) id
      (Report src code message (lx_index lx) e family (lx\<lparr>lx_index := skip_while IsAsciiLetter src d\<rparr>)))"
    if "i < length src" for code message e family
    using j [OF that, of IsAsciiLetter] by (intro push_emits) simp_all
  show ?thesis
    using i d j k NumberToken_emits [of lx i src num fractional]
      NumberToken_emits [of lx "skip_while IsDigit src d" src num True]
    by (auto simp: ReadNumber_def scan [simplified] Let_def d_def [simplified, symmetric])
qed

lemma ReadWord_emits:
  assumes "lx_index lx < length src"
  shows "emits src lx (ReadWord src lx)"
proof -
  have "lx_index lx + 1 \<le> scan_word (drop (lx_index lx + 1) src) (lx_index lx + 1)"
    "scan_word (drop (lx_index lx + 1) src) (lx_index lx + 1) \<le> length src"
    using scan_word_reads [of "lx_index lx + 1" "drop (lx_index lx + 1) src"] assms by auto
  then show ?thesis
    unfolding ReadWord_def Let_def by (intro push_emits) simp_all
qed

lemma punctuation_kinds:
  "map_of two_letters (c, d) = Some kind \<Longrightarrow> d \<noteq> CHR 0x00 \<and> kind \<notin> {kEnd, kNewline}"
  "map_of two_letters_after_range (c, d) = Some kind \<Longrightarrow> d \<noteq> CHR 0x00 \<and> kind \<notin> {kEnd, kNewline}"
  "map_of one_letter c = Some kind \<Longrightarrow> kind \<notin> {kEnd, kNewline}"
  by (drule map_of_SomeD, force simp: two_letters_def two_letters_after_range_def one_letter_def)+

lemma ReadPunctuation_emits:
  assumes i: "lx_index lx < length src"
  shows "emits src lx (ReadPunctuation src lx)"
proof -
  define letter where "letter = src ! lx_index lx"
  define follow where
    "follow = (if lx_index lx + 1 < length src then src ! (lx_index lx + 1) else CHR 0x00)"
  have fits: "lx_index lx + 2 \<le> length src" if "follow \<noteq> CHR 0x00"
    using that by (auto simp: follow_def split: if_splits)
  have two: "emits src lx (Take src kind (lx_index lx) 2 lx)"
    if "follow \<noteq> CHR 0x00" "kind \<notin> {kEnd, kNewline}" for kind
    using fits that by (intro take_emits) simp_all
  have dots: "emits src lx (Take src (if third then kSpread else kRange) (lx_index lx)
      (if third then 3 else 2) lx)"
    if "follow = CHR ''.''" "third \<longrightarrow> lx_index lx + 2 < length src" for third
    using fits that by (intro take_emits) auto
  have one: "emits src lx (Take src kind (lx_index lx) 1 lx')"
    if "kind \<notin> {kEnd, kNewline}" "lx_tokens lx' = lx_tokens lx" for kind lx'
    using i that by (intro take_emits) simp_all
  show ?thesis
    unfolding ReadPunctuation_def Let_def letter_def [symmetric] follow_def [symmetric]
    using two one dots punctuation_kinds(1,2) [of letter follow] punctuation_kinds(3) [of letter]
    by (cases "map_of two_letters (letter, follow)";
        cases "map_of two_letters_after_range (letter, follow)"; cases "map_of one_letter letter")
       (simp_all del: One_nat_def split del: if_split add: if_split [where P = "emits src lx"])
qed

lemma add_fix_frame [simp]:
  "lx_index (add_fix fix lx) = lx_index lx"
  "lx_tokens (add_fix fix lx) = lx_tokens lx"
  "lx_line (add_fix fix lx) = lx_line lx"
  "lx_line_start (add_fix fix lx) = lx_line_start lx"
  by (simp_all add: add_fix_def Let_def)

lemma ReadEllipsis_emits:
  assumes "take (length kEllipsis) (drop (lx_index lx) src) = kEllipsis"
  shows "emits src lx (ReadEllipsis src lx)"
proof -
  have "lx_index lx + length kEllipsis \<le> length src"
    by (rule three_quotes_fit [OF assms]) (simp_all add: kEllipsis_def)
  then have "emits src lx (Take src kSpread (lx_index lx) (length kEllipsis)
      (Report src code message s e family lx))" for code message s e family
    by (intro take_emits) (simp_all add: kEllipsis_def)
  then show ?thesis
    by (simp add: ReadEllipsis_def Let_def emits_def)
qed

text \<open>
  What may lie between two tokens: blanks, line breaks and, when comments are dropped,
  comments up to the end of their line.
\<close>

definition is_blank :: "char \<Rightarrow> bool" where
  "is_blank c \<longleftrightarrow> c \<in> {CHR '' '', CHR 0x09, CHR 0x0D, newline}"

fun skippable :: "bool \<Rightarrow> bool \<Rightarrow> string \<Rightarrow> bool" where
  "skippable keep_comments in_comment [] \<longleftrightarrow> True"
| "skippable keep_comments in_comment (c # cs) \<longleftrightarrow>
     (if in_comment then skippable keep_comments (c \<noteq> newline) cs
      else if is_blank c then skippable keep_comments False cs
      else c = CHR ''#'' \<and> \<not> keep_comments \<and> skippable keep_comments True cs)"

definition skips :: "bool \<Rightarrow> string \<Rightarrow> Lexer \<Rightarrow> Lexer \<Rightarrow> bool" where
  "skips keep_comments src lx lx' \<longleftrightarrow>
     lx_index lx < lx_index lx' \<and> lx_index lx' \<le> length src \<and> lx_tokens lx' = lx_tokens lx \<and>
     skippable keep_comments False (substr src (lx_index lx) (lx_index lx'))"

lemma substr_one: "i < length src \<Longrightarrow> substr src i (Suc i) = [src ! i]"
  by (simp add: substr_def take_Suc_conv_app_nth)

lemma substr_Cons: "i < j \<Longrightarrow> i < length src \<Longrightarrow> substr src i j = src ! i # substr src (Suc i) j"
  by (simp add: substr_def Cons_nth_drop_Suc [symmetric] take_Cons' )

lemma skippable_comment: "newline \<notin> set cs \<Longrightarrow> skippable k True cs"
  by (induction cs) auto

lemma blank_newline [simp]: "is_blank newline"
  by (simp add: is_blank_def)

lemma substr_skip_while: "substr src i (skip_while p src i) = takeWhile p (drop i src)"
  by (simp add: substr_def skip_while_def takeWhile_eq_take [symmetric])

lemma ReadComment_effect:
  assumes "lx_index lx < length src" "src ! lx_index lx = CHR ''#''"
  shows "emits src lx (ReadComment keep src lx) \<or> skips keep src lx (ReadComment keep src lx)"
proof -
  let ?i = "lx_index lx" and ?p = "\<lambda>c. c \<noteq> newline"
  have step: "skip_while ?p src ?i = skip_while ?p src (Suc ?i)"
    using assms by (intro skip_while_step) simp_all
  have bounds: "?i < skip_while ?p src ?i" "skip_while ?p src ?i \<le> length src"
    using skip_while_ge [of "Suc ?i" ?p src] skip_while_le [of ?i src ?p] assms(1) step by auto
  have "takeWhile ?p (drop ?i src) = CHR ''#'' # takeWhile ?p (drop (Suc ?i) src)"
    using assms by (simp add: Cons_nth_drop_Suc [symmetric])
  moreover have "newline \<notin> set (takeWhile ?p (drop (Suc ?i) src))"
    by (auto dest: set_takeWhileD)
  ultimately have "skippable False False (substr src ?i (skip_while ?p src ?i))"
    by (simp add: substr_skip_while skippable_comment is_blank_def)
  then show ?thesis
    using bounds push_emits [of "lx\<lparr>lx_index := skip_while ?p src ?i\<rparr>" lx ?i "skip_while ?p src ?i" src kComment id]
    by (auto simp: ReadComment_def Let_def skips_def)
qed

lemma ReadNewline_effect:
  assumes "lx_index lx < length src" "src ! lx_index lx = newline"
  shows "emits src lx (ReadNewline src lx) \<or> skips keep src lx (ReadNewline src lx)"
  using assms by (auto simp: ReadNewline_def Let_def skips_def emits_def substr_one)

text \<open>Every round appends a token for what it read, or reads only what may be skipped.\<close>

lemma lex_step_effect:
  assumes "lx_index lx < length src"
  shows "emits src lx (lex_step num keep src lx) \<or> skips keep src lx (lex_step num keep src lx)"
proof -
  have "emits src lx ((Push src kSemicolon (lx_index lx) (Suc (lx_index lx)) id lx)
      \<lparr>lx_index := Suc (lx_index lx)\<rparr>)"
    using assms by (simp add: emits_def)
  moreover have "skips keep src lx (lx\<lparr>lx_index := Suc (lx_index lx)\<rparr>)"
    if "src ! lx_index lx \<in> {CHR '' '', CHR 0x09, CHR 0x0D}"
    using assms that by (auto simp: skips_def substr_one is_blank_def)
  ultimately show ?thesis
    using ReadNewline_effect [OF assms] ReadComment_effect [OF assms] ReadString_emits [OF assms]
      ReadNumber_emits [OF assms] ReadEllipsis_emits [of lx src] ReadWord_emits [OF assms]
      ReadPunctuation_emits [OF assms]
    by (simp add: lex_step_def Let_def)
qed

corollary lex_step_advances:
  "lx_index lx < length src \<Longrightarrow>
     lx_index lx < lx_index (lex_step num keep src lx) \<and> lx_index (lex_step num keep src lx) \<le> length src"
  using lex_step_effect [of lx src num keep] by (auto simp: emits_def skips_def)

section \<open>Running the lexer\<close>

record LexOptions =
  keep_comments :: bool
  lex_limits :: CompilationLimits

record LexResult =
  lr_tokens :: "Token list"
  lr_diagnostics :: "Diagnostic list"

definition HasErrors :: "LexResult \<Rightarrow> bool" where
  "HasErrors r \<longleftrightarrow> list_ex (\<lambda>d. dg_severity d = kError) (lr_diagnostics r)"

definition resource_limit :: "string \<Rightarrow> string \<Rightarrow> nat \<Rightarrow> Lexer \<Rightarrow> Lexer" where
  "resource_limit src message at lx =
     Report src ''flow.form.resource-limit'' message at at kSyntax lx"

text \<open>The loop of \<open>Run\<close>.  The budget is the caller's, so it is returned as well.\<close>

function lex_loop ::
  "steady_clock \<Rightarrow> number_text \<Rightarrow> LexOptions \<Rightarrow> string \<Rightarrow> Lexer \<Rightarrow> CompilationBudget \<Rightarrow>
   Lexer \<times> CompilationBudget" where
  "lex_loop now num options src lx b =
     (if lx_index lx < length src then
        let over = resource_limit src ''Parsing exceeded the configured token, work or time limit.''
                     (lx_index lx) lx
        in if length (lx_tokens lx) \<ge> max_tokens (lex_limits options) then (over, b)
           else if fst (Budget_Check now 1 b)
           then lex_loop now num options src (lex_step num (keep_comments options) src lx)
                  (snd (Budget_Check now 1 b))
           else (over, snd (Budget_Check now 1 b))
      else (lx, b))"
  by pat_completeness auto

termination lex_loop
  by (relation "measure (\<lambda>(now, num, options, src, lx, b). length src - lx_index lx)")
     (simp_all add: diff_less_mono2 lex_step_advances)

declare lex_loop.simps [simp del]

text \<open>\<open>while (!tokens.empty() && tokens.back().kind == kNewline) tokens.pop_back()\<close>.\<close>

definition pop_newlines :: "Token list \<Rightarrow> Token list" where
  "pop_newlines ts = rev (dropWhile (\<lambda>t. tk_kind t = kNewline) (rev ts))"

definition Run ::
  "steady_clock \<Rightarrow> nat \<Rightarrow> number_text \<Rightarrow> LexOptions \<Rightarrow> CompilationBudget option \<Rightarrow> string \<Rightarrow>
   Lexer \<times> CompilationBudget" where
  "Run now readings num options budget src =
     (let local_budget = new_budget now readings (lex_limits options);
          b = (case budget of None \<Rightarrow> local_budget | Some b \<Rightarrow> b)
      in if length src > max_source_bytes (lex_limits options)
         then (Push src kEnd 0 0 id
                 (resource_limit src ''Source exceeds the configured byte limit.'' 0 new_lexer), b)
         else
           (let (lx1, b1) = lex_loop now num options src new_lexer b;
                (fits, b2) = ConsumeTokens now (length (lx_tokens lx1)) b1;
                lx2 = (if fits then lx1
                       else resource_limit src
                              ''Parsing exceeded the cumulative token, work or time limit.''
                              (lx_index lx1) lx1);
                lx3 = lx2\<lparr>lx_tokens := pop_newlines (lx_tokens lx2)\<rparr>
            in (Push src kEnd (lx_index lx3) (lx_index lx3) id lx3, b2)))"

definition Lex ::
  "steady_clock \<Rightarrow> nat \<Rightarrow> number_text \<Rightarrow> LexOptions \<Rightarrow> CompilationBudget option \<Rightarrow> string \<Rightarrow> LexResult" where
  "Lex now readings num options budget src =
     (let lx = fst (Run now readings num options budget src)
      in \<lparr>lr_tokens = lx_tokens lx, lr_diagnostics = lx_diagnostics lx\<rparr>)"

end
