(* ===== verification/Flow_Lexer_Properties.thy ===== *)
theory Flow_Lexer_Properties
  imports Flow_Lexer
begin

text \<open>
  What the Flow lexer promises: its tokens tile the source, the stream has the shape the
  parser relies on, and every token is reported at the line and column a plain count from
  the start of the source gives.
\<close>

section \<open>Invariants of a run\<close>

lemma lex_loop_invariant:
  assumes step: "\<And>lx. I lx \<Longrightarrow> lx_index lx < length src \<Longrightarrow>
      I (lex_step num (keep_comments options) src lx)"
    and report: "\<And>lx message. I lx \<Longrightarrow> I (resource_limit src message (lx_index lx) lx)"
  shows "I lx \<Longrightarrow> I (fst (lex_loop now num options src lx b))"
proof (induction "length src - lx_index lx" arbitrary: lx b rule: less_induct)
  case less
  have "length src - lx_index (lex_step num (keep_comments options) src lx) < length src - lx_index lx"
    if "lx_index lx < length src"
    using lex_step_advances [OF that] that by (simp add: diff_less_mono2)
  then show ?case
    using less assms by (subst lex_loop.simps) (simp add: Let_def)
qed

lemma resource_limit_frame [simp]:
  "lx_index (resource_limit src message at lx) = lx_index lx"
  "lx_tokens (resource_limit src message at lx) = lx_tokens lx"
  "lx_line (resource_limit src message at lx) = lx_line lx"
  "lx_line_start (resource_limit src message at lx) = lx_line_start lx"
  by (simp_all add: resource_limit_def)

section \<open>The tokens tile the source\<close>

text \<open>
  From \<open>p\<close> to \<open>q\<close> the source is the tokens' texts in order, each where its offsets say,
  with only skippable text between them.
\<close>

fun tiles :: "bool \<Rightarrow> string \<Rightarrow> nat \<Rightarrow> Token list \<Rightarrow> nat \<Rightarrow> bool" where
  "tiles keep src p [] q \<longleftrightarrow> p \<le> q \<and> q \<le> length src \<and> skippable keep False (substr src p q)"
| "tiles keep src p (t # ts) q \<longleftrightarrow>
     p \<le> tk_start t \<and> skippable keep False (substr src p (tk_start t)) \<and>
     tk_start t < tk_end t \<and> tk_end t \<le> length src \<and>
     tk_text t = substr src (tk_start t) (tk_end t) \<and>
     (tk_kind t = kNewline \<longrightarrow> tk_text t = [newline]) \<and>
     tiles keep src (tk_end t) ts q"

lemma substr_self [simp]: "substr src p p = []"
  by (simp add: substr_def)

lemma substr_append: "p \<le> q \<Longrightarrow> q \<le> r \<Longrightarrow> substr src p r = substr src p q @ substr src q r"
  by (auto dest!: le_Suc_ex simp: substr_def take_add add.commute add.assoc)

lemma skippable_in_comment: "skippable k False cs \<Longrightarrow> skippable k m cs"
proof (induction cs arbitrary: m)
  case (Cons c cs)
  then show ?case by (cases "is_blank c"; cases m) auto
qed simp

lemma skippable_append: "skippable k m cs \<Longrightarrow> skippable k False ds \<Longrightarrow> skippable k m (cs @ ds)"
proof (induction k m cs rule: skippable.induct)
  case (1 k m)
  then show ?case using skippable_in_comment [of k ds m] by simp
next
  case (2 k m c cs)
  then show ?case by (cases m; cases "is_blank c") auto
qed

lemma tiles_skip:
  "tiles keep src p ts q \<Longrightarrow> q \<le> r \<Longrightarrow> r \<le> length src \<Longrightarrow> skippable keep False (substr src q r) \<Longrightarrow>
     tiles keep src p ts r"
proof (induction ts arbitrary: p)
  case Nil
  then show ?case using substr_append [of p q r src] skippable_append by simp
qed auto

lemma tiles_snoc:
  "tiles keep src p (ts @ [t]) r \<longleftrightarrow>
     tiles keep src p ts (tk_start t) \<and> tk_start t < tk_end t \<and> tk_end t \<le> length src \<and>
     tk_text t = substr src (tk_start t) (tk_end t) \<and> (tk_kind t = kNewline \<longrightarrow> tk_text t = [newline]) \<and>
     tk_end t \<le> r \<and> r \<le> length src \<and> skippable keep False (substr src (tk_end t) r)"
  by (induction ts arbitrary: p) auto

lemma tiles_pop_newlines: "tiles keep src p ts q \<Longrightarrow> tiles keep src p (pop_newlines ts) q"
proof (induction ts rule: rev_induct)
  case (snoc t ts)
  show ?case
  proof (cases "tk_kind t = kNewline")
    case True
    have "substr src (tk_start t) (tk_end t) = [newline]"
      using snoc.prems True unfolding tiles_snoc by metis
    then have "skippable keep False (substr src (tk_start t) q)"
      using snoc.prems substr_append [of "tk_start t" "tk_end t" q src] by (simp add: tiles_snoc)
    then have "tiles keep src p ts q"
      using snoc.prems tiles_skip [of keep src p ts "tk_start t" q] by (simp add: tiles_snoc)
    then show ?thesis using snoc.IH True by (simp add: pop_newlines_def)
  qed (use snoc.prems in \<open>simp add: pop_newlines_def\<close>)
qed (simp add: pop_newlines_def)

lemma lex_step_tiles:
  assumes "tiles keep src 0 (lx_tokens lx) (lx_index lx)" "lx_index lx < length src"
  shows "tiles keep src 0 (lx_tokens (lex_step num keep src lx)) (lx_index (lex_step num keep src lx))"
  using lex_step_effect [OF assms(2), of num keep]
proof
  assume "emits src lx (lex_step num keep src lx)"
  then show ?thesis using assms(1) by (auto simp: emits_def tiles_snoc)
next
  assume "skips keep src lx (lex_step num keep src lx)"
  then show ?thesis using assms(1) tiles_skip [of keep src 0 "lx_tokens lx" "lx_index lx"]
    by (auto simp: skips_def)
qed

text \<open>The loop leaves the rest of the source unread only with a report.\<close>

definition limit_reported :: "Diagnostic list \<Rightarrow> bool" where
  "limit_reported ds \<longleftrightarrow> list_ex (\<lambda>d. dg_code d = ''flow.form.resource-limit'') ds"

lemma report_diagnostics:
  "\<exists>d. lx_diagnostics (Report src code message s e family lx) = lx_diagnostics lx @ [d] \<and>
     dg_code d = code \<and> dg_message d = message \<and> dg_severity d = kError"
  by (simp add: Report_def case_prod_unfold Let_def)

lemma resource_limit_reported: "limit_reported (lx_diagnostics (resource_limit src message at lx))"
  using report_diagnostics [of src "''flow.form.resource-limit''" message at at kSyntax lx]
  by (auto simp: limit_reported_def resource_limit_def)

lemma push_diagnostics [simp]: "lx_diagnostics (Push src kind s e fill lx) = lx_diagnostics lx"
  by (simp add: Push_def case_prod_unfold Let_def)

lemma lex_loop_stops:
  "lx_index lx \<le> length src \<Longrightarrow>
   lx_index (fst (lex_loop now num options src lx b)) = length src \<or>
   limit_reported (lx_diagnostics (fst (lex_loop now num options src lx b)))"
proof (induction now num options src lx b rule: lex_loop.induct)
  case (1 now num options src lx b)
  then show ?case
    using lex_step_advances [of lx src num "keep_comments options"]
    by (subst (1 2) lex_loop.simps) (auto simp: Let_def resource_limit_reported)
qed

text \<open>What \<open>Run\<close> returns, unless the source is over its byte limit.\<close>

lemma Run_cases:
  assumes "Run now readings num options budget src = (lx, b)"
  obtains (oversized) "length src > max_source_bytes (lex_limits options)"
      "lx = Push src kEnd 0 0 id
         (resource_limit src ''Source exceeds the configured byte limit.'' 0 new_lexer)"
  | (ran) lx1 b0 lx2 message where
      "lx1 = fst (lex_loop now num options src new_lexer b0)"
      "lx2 = lx1 \<or> lx2 = resource_limit src message (lx_index lx1) lx1"
      "lx = Push src kEnd (lx_index lx2) (lx_index lx2) id
         (lx2\<lparr>lx_tokens := pop_newlines (lx_tokens lx2)\<rparr>)"
proof (cases "length src > max_source_bytes (lex_limits options)")
  case True
  then show ?thesis using assms oversized by (simp add: Run_def Let_def)
next
  case False
  let ?b = "case budget of None \<Rightarrow> new_budget now readings (lex_limits options) | Some b \<Rightarrow> b"
  let ?lx1 = "fst (lex_loop now num options src new_lexer ?b)"
  let ?message = "''Parsing exceeded the cumulative token, work or time limit.''"
  have "\<exists>lx2. (lx2 = ?lx1 \<or> lx2 = resource_limit src ?message (lx_index ?lx1) ?lx1) \<and>
      lx = Push src kEnd (lx_index lx2) (lx_index lx2) id (lx2\<lparr>lx_tokens := pop_newlines (lx_tokens lx2)\<rparr>)"
    using assms False by (auto simp: Run_def Let_def case_prod_unfold split: if_splits)
  then show ?thesis using ran [of ?lx1 ?b] by blast
qed

lemma loop_tiles:
  "tiles (keep_comments options) src 0 (lx_tokens (fst (lex_loop now num options src new_lexer b)))
     (lx_index (fst (lex_loop now num options src new_lexer b)))"
  by (rule lex_loop_invariant [where I = "\<lambda>lx. tiles (keep_comments options) src 0 (lx_tokens lx) (lx_index lx)"])
     (simp_all add: lex_step_tiles, simp add: new_lexer_def)

lemma run_tiles:
  assumes "Run now readings num options budget src = (lx, b)"
  shows "\<exists>ts e. lx_tokens lx = ts @ [e] \<and> tk_kind e = kEnd \<and> tk_end e = tk_start e \<and>
     tiles (keep_comments options) src 0 ts (tk_start e) \<and>
     (tk_start e = length src \<or> limit_reported (lx_diagnostics lx))"
  using assms
proof (cases rule: Run_cases)
  case oversized
  then show ?thesis by (simp add: resource_limit_reported) (simp add: new_lexer_def)
next
  case (ran lx1 b0 lx2 message)
  have "tiles (keep_comments options) src 0 (pop_newlines (lx_tokens lx1)) (lx_index lx1)"
    using loop_tiles tiles_pop_newlines unfolding ran(1) by blast
  moreover have "lx_index lx1 = length src \<or> limit_reported (lx_diagnostics lx2)"
    using lex_loop_stops [of new_lexer src now num options b0] ran(1,2)
    by (auto simp: new_lexer_def resource_limit_reported)
  ultimately show ?thesis
    using ran(2,3) by auto
qed

text \<open>C15. Nothing of the source is lost or read twice.  For every source, options and budget,
  \<open>Lex\<close> returns tokens followed by exactly one end token of no width; the tokens before it
  are in order, do not overlap, are not empty, each holds exactly the text between its two
  offsets, and between two of them, before the first and up to the end token there are only
  blanks, line breaks and (when comments are not kept) comments.  The end token stands at the
  end of the source, or a resource-limit diagnostic says why reading stopped earlier.
\<close>

theorem tokens_tile_source:
  "let r = Lex now readings num options budget src;
       ts = butlast (lr_tokens r);
       e = last (lr_tokens r)
   in lr_tokens r = ts @ [e] \<and> tk_kind e = kEnd \<and> tk_end e = tk_start e \<and>
      tiles (keep_comments options) src 0 ts (tk_start e) \<and>
      (tk_start e = length src \<or> limit_reported (lr_diagnostics r))"
proof -
  obtain lx b where run: "Run now readings num options budget src = (lx, b)"
    by fastforce
  from run_tiles [OF run] show ?thesis
    by (auto simp: Lex_def run)
qed

section \<open>The shape of the stream\<close>

definition not_both_newlines :: "Token \<Rightarrow> Token \<Rightarrow> bool" where
  "not_both_newlines s t \<longleftrightarrow> \<not> (tk_kind s = kNewline \<and> tk_kind t = kNewline)"

definition well_begun :: "Token list \<Rightarrow> bool" where
  "well_begun ts \<longleftrightarrow>
     list_all (\<lambda>t. tk_kind t \<noteq> kEnd) ts \<and> (ts = [] \<or> tk_kind (hd ts) \<noteq> kNewline) \<and>
     successively not_both_newlines ts"

definition well_shaped :: "Token list \<Rightarrow> bool" where
  "well_shaped ts \<longleftrightarrow> well_begun ts \<and> (ts = [] \<or> tk_kind (last ts) \<noteq> kNewline)"

lemma well_begun_snoc:
  "well_begun ts \<Longrightarrow> tk_kind t \<noteq> kEnd \<Longrightarrow>
     (tk_kind t = kNewline \<longrightarrow> ts \<noteq> [] \<and> tk_kind (last ts) \<noteq> kNewline) \<Longrightarrow> well_begun (ts @ [t])"
  by (auto simp: well_begun_def hd_append successively_append_iff not_both_newlines_def)

lemma well_begun_prefix: "well_begun (ts @ us) \<Longrightarrow> well_begun ts"
  by (cases "ts = []") (auto simp: well_begun_def successively_append_iff)

lemma pop_newlines_prefix: "\<exists>us. ts = pop_newlines ts @ us"
proof -
  have "rev ts = takeWhile (\<lambda>t. tk_kind t = kNewline) (rev ts) @ dropWhile (\<lambda>t. tk_kind t = kNewline) (rev ts)"
    by simp
  then have "ts = pop_newlines ts @ rev (takeWhile (\<lambda>t. tk_kind t = kNewline) (rev ts))"
    unfolding pop_newlines_def by (metis rev_append rev_rev_ident)
  then show ?thesis ..
qed

lemma pop_newlines_shaped:
  assumes "well_begun ts"
  shows "well_shaped (pop_newlines ts)"
proof -
  have "pop_newlines ts = [] \<or> tk_kind (last (pop_newlines ts)) \<noteq> kNewline"
    using hd_dropWhile [of "\<lambda>t. tk_kind t = kNewline" "rev ts"]
    by (auto simp: pop_newlines_def last_rev simp del: dropWhile_eq_Nil_conv)
  then show ?thesis
    using assms pop_newlines_prefix [of ts] well_begun_prefix by (metis well_shaped_def)
qed

lemma loop_well_begun: "well_begun (lx_tokens (fst (lex_loop now num options src new_lexer b)))"
proof (rule lex_loop_invariant [where I = "\<lambda>lx. well_begun (lx_tokens lx)"])
  fix lx :: Lexer
  assume "well_begun (lx_tokens lx)" "lx_index lx < length src"
  then show "well_begun (lx_tokens (lex_step num (keep_comments options) src lx))"
    using lex_step_effect [of lx src num "keep_comments options"] well_begun_snoc
    by (auto simp: emits_def skips_def)
qed (simp_all, simp add: well_begun_def new_lexer_def)

text \<open>C17. The stream the parser reads is well shaped: before the one end token there is no other
  end token, the first and the last token are not line breaks, and no line break follows
  another, however many blank or comment-only lines the source has.
\<close>

theorem token_stream_shape:
  "let ts = butlast (lr_tokens (Lex now readings num options budget src)) in
     list_all (\<lambda>t. tk_kind t \<noteq> kEnd) ts \<and>
     (ts = [] \<or> tk_kind (hd ts) \<noteq> kNewline \<and> tk_kind (last ts) \<noteq> kNewline) \<and>
     successively (\<lambda>s t. \<not> (tk_kind s = kNewline \<and> tk_kind t = kNewline)) ts"
proof -
  obtain lx b where run: "Run now readings num options budget src = (lx, b)"
    by fastforce
  from run have "well_shaped (butlast (lx_tokens lx))"
  proof (cases rule: Run_cases)
    case (ran lx1 b0 lx2 message)
    then show ?thesis
      using pop_newlines_shaped [OF loop_well_begun] by auto
  qed (simp add: new_lexer_def well_shaped_def well_begun_def)
  then show ?thesis
    by (auto simp: Lex_def run well_shaped_def well_begun_def not_both_newlines_def)
qed

end
