(* ===== verification/Flow_Positions.thy ===== *)
theory Flow_Positions
  imports Flow_Lexer_Properties
begin

text \<open>
  Where the Flow lexer says its tokens are.  The lexer keeps a line counter and an
  incremental column scan that resumes from its last answer and is wound back for strings
  over several lines; the reference is a plain count from the start of the source.
\<close>

section \<open>The reference positions\<close>

primrec line_of :: "string \<Rightarrow> nat \<Rightarrow> nat" where
  "line_of src 0 = 1"
| "line_of src (Suc i) = (if src ! i = newline then Suc (line_of src i) else line_of src i)"

primrec column_of :: "string \<Rightarrow> nat \<Rightarrow> nat" where
  "column_of src 0 = 1"
| "column_of src (Suc i) =
     (if src ! i = newline then 1
      else if IsContinuation (src ! i) then column_of src i
      else Suc (column_of src i))"

primrec line_start_of :: "string \<Rightarrow> nat \<Rightarrow> nat" where
  "line_start_of src 0 = 0"
| "line_start_of src (Suc i) = (if src ! i = newline then Suc i else line_start_of src i)"

text \<open>A backslash right before a line break.\<close>

fun escaped_newline :: "string \<Rightarrow> bool" where
  "escaped_newline (c # d # cs) \<longleftrightarrow> c = backslash \<and> d = newline \<or> escaped_newline (d # cs)"
| "escaped_newline _ \<longleftrightarrow> False"

definition one_line :: "string \<Rightarrow> nat \<Rightarrow> nat \<Rightarrow> bool" where
  "one_line src i j \<longleftrightarrow> (\<forall>k. i \<le> k \<and> k < j \<longrightarrow> src ! k \<noteq> newline)"

lemma escaped_newline_nth:
  "\<not> escaped_newline src \<Longrightarrow> Suc i < length src \<Longrightarrow> src ! i = backslash \<Longrightarrow> src ! Suc i \<noteq> newline"
proof (induction src arbitrary: i rule: escaped_newline.induct)
  case (1 c d cs)
  then show ?case by (cases i) auto
qed simp_all

lemma one_line_self [simp]: "one_line src i i"
  by (auto simp: one_line_def)

lemma one_line_Suc: "src ! i \<noteq> newline \<Longrightarrow> one_line src i (Suc i)"
  using le_less_Suc_eq [of i] by (auto simp: one_line_def)

lemma one_line_trans: "one_line src i j \<Longrightarrow> one_line src j k \<Longrightarrow> one_line src i k"
  by (meson one_line_def not_le)

lemma one_line_more: "one_line src i j \<Longrightarrow> src ! j \<noteq> newline \<Longrightarrow> one_line src i (Suc j)"
  using one_line_trans one_line_Suc by blast

lemma one_line_same:
  assumes "i \<le> j" "one_line src i j"
  shows "line_of src j = line_of src i" "line_start_of src j = line_start_of src i"
proof -
  from assms have "line_of src j = line_of src i \<and> line_start_of src j = line_start_of src i"
    by (induction j rule: dec_induct) (auto simp: one_line_def)
  then show "line_of src j = line_of src i" "line_start_of src j = line_start_of src i" by auto
qed

lemma line_start_le: "line_start_of src i \<le> i"
  by (induction i) auto

lemma column_at_line_start: "column_of src (line_start_of src i) = 1"
  by (induction i) auto

lemma before_or_on_line:
  "a \<le> i \<Longrightarrow> a < line_start_of src i \<or> line_start_of src a = line_start_of src i"
  by (induction i rule: dec_induct) auto

lemma one_line_from_start: "line_start_of src i \<le> a \<Longrightarrow> one_line src a i"
proof (induction i)
  case (Suc i)
  then show ?case
    by (cases "src ! i = newline") (auto simp: one_line_def less_Suc_eq)
qed (simp add: one_line_def)

lemma one_line_skip_while:
  "(\<And>c. p c \<Longrightarrow> c \<noteq> newline) \<Longrightarrow> one_line src i (skip_while p src i)"
proof (unfold one_line_def, intro allI impI)
  fix k assume p: "\<And>c. p c \<Longrightarrow> c \<noteq> newline" and k: "i \<le> k \<and> k < skip_while p src i"
  let ?ws = "takeWhile p (drop i src)"
  have "k - i < length ?ws" using k by (auto simp: skip_while_def)
  then have "p (?ws ! (k - i))" "?ws ! (k - i) = drop i src ! (k - i)"
    using set_takeWhileD [OF nth_mem] takeWhile_nth by metis+
  moreover have "i \<le> length src"
    using k by (cases "i \<le> length src") (auto simp: skip_while_def)
  ultimately show "src ! k \<noteq> newline" using p k by (auto simp: nth_drop)
qed

section \<open>The cached column is exact\<close>

definition cached :: "string \<Rightarrow> Lexer \<Rightarrow> bool" where
  "cached src lx \<longleftrightarrow>
     lx_counted_at lx \<le> length src \<and> lx_counted_column lx = column_of src (lx_counted_at lx)"

lemma count_columns_exact:
  "a \<le> b \<Longrightarrow> b \<le> length src \<Longrightarrow> one_line src a b \<Longrightarrow>
     count_columns (substr src a b) (column_of src a) = column_of src b"
proof (induction "b - a" arbitrary: a)
  case (Suc n)
  then have "a < b" "src ! a \<noteq> newline" by (auto simp: one_line_def)
  then show ?case
    using Suc.hyps(1) [of "Suc a"] Suc.hyps(2) Suc.prems
    by (auto simp: substr_Cons one_line_def)
qed simp

lemma column_cached:
  assumes "cached src lx" and ls: "lx_line_start lx = line_start_of src i" and "a \<le> i" "i \<le> length src"
  shows "cached src (snd (Column src a lx))"
    and "line_start_of src a = line_start_of src i \<Longrightarrow> fst (Column src a lx) = column_of src a"
proof -
  define ca where "ca = (if a < lx_counted_at lx \<or> lx_counted_at lx < lx_line_start lx
    then lx_line_start lx else lx_counted_at lx)"
  define cc where "cc = (if a < lx_counted_at lx \<or> lx_counted_at lx < lx_line_start lx
    then 1 else lx_counted_column lx)"
  have cc: "cc = column_of src ca"
    using assms(1) ls column_at_line_start by (simp add: cc_def ca_def cached_def)
  have ca: "line_start_of src i \<le> ca"
    using ls by (auto simp: ca_def)
  have "count_columns (substr src ca a) cc = column_of src (max ca a)"
  proof (cases "ca \<le> a")
    case True
    then have "one_line src ca a"
      using one_line_from_start [OF ca] assms(3) by (auto simp: one_line_def)
    then show ?thesis using count_columns_exact [of ca a src] True assms cc by (simp add: max_def)
  next
    case False
    then show ?thesis by (simp add: substr_def cc max_def)
  qed
  moreover have "max ca a \<le> length src"
    using assms line_start_le [of src i] by (auto simp: ca_def cached_def)
  ultimately have col: "Column src a lx =
      (column_of src (max ca a), lx\<lparr>lx_counted_at := max ca a, lx_counted_column := column_of src (max ca a)\<rparr>)"
    by (auto simp: Column_def ca_def cc_def Let_def split: if_splits)
  show "cached src (snd (Column src a lx))"
    using col \<open>max ca a \<le> length src\<close> by (simp add: cached_def)
  show "fst (Column src a lx) = column_of src a" if "line_start_of src a = line_start_of src i"
  proof -
    have "ca \<le> a" using that ls line_start_le [of src a] by (auto simp: ca_def)
    then show ?thesis using col by (simp add: max_def)
  qed
qed

section \<open>Reading along one line\<close>

definition placed :: "string \<Rightarrow> Token \<Rightarrow> bool" where
  "placed src t \<longleftrightarrow> tk_line t = line_of src (tk_start t) \<and> tk_column t = column_of src (tk_start t)"

text \<open>The counters belong to the index, and every token so far is where it says.\<close>

definition exact :: "string \<Rightarrow> Lexer \<Rightarrow> bool" where
  "exact src lx \<longleftrightarrow>
     cached src lx \<and> lx_index lx \<le> length src \<and> lx_line lx = line_of src (lx_index lx) \<and>
     lx_line_start lx = line_start_of src (lx_index lx) \<and> list_all (placed src) (lx_tokens lx)"

text \<open>
  A rule that starts in \<open>lx\<close> and reads up to \<open>i\<close> on the same line, and a state it passes
  through.
\<close>

definition reading :: "string \<Rightarrow> Lexer \<Rightarrow> nat \<Rightarrow> bool" where
  "reading src lx i \<longleftrightarrow>
     exact src lx \<and> lx_index lx \<le> i \<and> i \<le> length src \<and> one_line src (lx_index lx) i"

definition calm :: "string \<Rightarrow> Lexer \<Rightarrow> Lexer \<Rightarrow> bool" where
  "calm src lx lx' \<longleftrightarrow>
     cached src lx' \<and> lx_line lx' = lx_line lx \<and> lx_line_start lx' = lx_line_start lx \<and>
     list_all (placed src) (lx_tokens lx')"

lemma reading_calm: "reading src lx i \<Longrightarrow> calm src lx lx"
  by (simp add: reading_def exact_def calm_def)

lemma calm_index [simp]: "calm src lx (lx'\<lparr>lx_index := j\<rparr>) = calm src lx lx'"
  by (simp add: calm_def cached_def)

lemma report_cached:
  assumes "cached src lx" "lx_line_start lx = line_start_of src i" "a \<le> i" "b \<le> i" "i \<le> length src"
  shows "cached src (Report src code message a b family lx)"
  using column_cached(1) [OF column_cached(1) [OF assms(1,2,3,5)], of i b] assms
  by (simp add: Report_def case_prod_unfold Let_def cached_def)

lemma push_cached:
  assumes "cached src lx" "lx_line_start lx = line_start_of src s" "s \<le> length src"
  shows "cached src (Push src kind s e fill lx)"
  using column_cached(1) [OF assms(1,2) order_refl assms(3)]
  by (simp add: Push_def case_prod_unfold Let_def cached_def)

lemma push_placed:
  assumes "cached src lx" "lx_line_start lx = line_start_of src s" "s \<le> length src"
    and "lx_line lx = line_of src s" "fills_value fill"
  shows "placed src (fill (new_token src kind s e (lx_line lx) (fst (Column src s lx))))"
  using column_cached(2) [OF assms(1,2) order_refl assms(3) refl] assms(4,5)
  by (simp add: placed_def fills_value_def)

lemma calm_report:
  assumes "reading src lx i" "calm src lx lx'" "a \<le> i" "b \<le> i"
  shows "calm src lx (Report src code message a b family lx')"
  using assms report_cached [of src lx' i a b code message family] one_line_same(2) [of "lx_index lx" i src]
  by (simp add: calm_def reading_def exact_def)

lemma calm_push:
  assumes "reading src lx i" "calm src lx lx'" "s = lx_index lx" "fills_value fill"
  shows "calm src lx (Push src kind s e fill lx')"
  using assms push_cached [of src lx' s kind e fill] push_placed [of src lx' s fill kind e]
  by (simp add: calm_def reading_def exact_def)

lemma calm_take:
  assumes "reading src lx i" "calm src lx lx'" "s = lx_index lx"
  shows "calm src lx (Take src kind s n lx')"
  unfolding Take_def using assms by (intro calm_push) simp_all

lemma calm_exact:
  assumes "reading src lx i" "calm src lx lx'" "lx_index lx' = i"
  shows "exact src lx'"
  using assms one_line_same [of "lx_index lx" i src] by (simp add: calm_def reading_def exact_def)

lemmas calm_rules = calm_report calm_push calm_take reading_calm

section \<open>The rules\<close>

lemma letters_not_newline:
  "IsDigit c \<Longrightarrow> c \<noteq> newline" "IsAsciiLetter c \<Longrightarrow> c \<noteq> newline" "IsNamePart c \<Longrightarrow> c \<noteq> newline"
  "IsContinuation c \<Longrightarrow> c \<noteq> newline"
  by (auto simp: IsNamePart_def IsNameStart_def IsDigit_def IsAsciiLetter_def IsContinuation_def)

lemma scan_number_one_line:
  "scan_number (drop i src) i f = (j, f') \<Longrightarrow> one_line src i j"
proof (induction "drop i src" i f arbitrary: rule: scan_number.induct)
  case (2 c cs i f)
  then have c: "src ! i = c" "drop (Suc i) src = cs"
    by (metis nth_via_drop, metis drop_Suc drop_tl list.sel(3))
  consider (digit) "IsDigit c"
    | (point) "\<not> IsDigit c" "c = CHR ''.'' \<and> \<not> (cs \<noteq> [] \<and> hd cs = CHR ''.'')"
    | (stop) "\<not> IsDigit c" "\<not> (c = CHR ''.'' \<and> \<not> (cs \<noteq> [] \<and> hd cs = CHR ''.''))"
    by blast
  then show ?case
  proof cases
    case digit
    then have "one_line src (Suc i) j"
      using 2(1) [OF digit] 2(3,4) c by (metis scan_number.simps(2))
    then show ?thesis
      using one_line_trans [OF one_line_Suc] c(1) letters_not_newline(1) [OF digit] by blast
  next
    case point
    then have "one_line src (Suc i) j"
      using 2(2) [OF point] 2(3,4) c by (metis scan_number.simps(2))
    moreover have "src ! i \<noteq> newline" using point c by simp
    ultimately show ?thesis
      using one_line_trans [OF one_line_Suc] by blast
  next
    case stop
    then show ?thesis
      using 2(3,4) by (metis one_line_self prod.inject scan_number.simps(2))
  qed
qed simp

lemma scan_word_one_line: "one_line src i (scan_word (drop i src) i)"
proof (induction "drop i src" i rule: scan_word.induct)
  case (2 c cs i)
  have c: "src ! i = c" "drop (Suc i) src = cs"
    using 2(3) by (metis nth_via_drop, metis drop_Suc drop_tl list.sel(3))
  have more: "one_line src i (Suc i)" if "c \<noteq> newline"
    using c(1) that by (intro one_line_Suc) simp
  consider (part) "IsNamePart c"
    | (dash) "\<not> IsNamePart c" "c = CHR ''-'' \<and> cs \<noteq> [] \<and> IsNamePart (hd cs)"
    | (stop) "\<not> IsNamePart c" "\<not> (c = CHR ''-'' \<and> cs \<noteq> [] \<and> IsNamePart (hd cs))"
    by blast
  then show ?case
  proof cases
    case part
    then have "one_line src (Suc i) (scan_word cs (Suc i))"
      using 2(1) [OF part] c by simp
    then show ?thesis
      using one_line_trans [OF more] letters_not_newline(3) [OF part] part 2(3) [symmetric] by simp
  next
    case dash
    have d: "src ! Suc i = hd cs" "drop (i + 2) src = tl cs"
      using dash c by (metis hd_drop_conv_nth drop_eq_Nil2 linorder_not_le,
          metis add_2_eq_Suc' drop_Suc drop_tl)
    have "one_line src (i + 2) (scan_word (tl cs) (i + 2))"
      using 2(2) [OF dash] d by simp
    moreover have "one_line src i (i + 2)"
      using one_line_more [OF more] dash d(1) letters_not_newline(3) [of "hd cs"] by auto
    ultimately show ?thesis
      using one_line_trans dash 2(3) [symmetric] by fastforce
  next
    case stop
    then show ?thesis using 2(3) [symmetric] by (simp only: scan_word.simps if_False one_line_self)
  qed
qed simp

lemma ReadWord_exact:
  assumes "exact src lx" "lx_index lx < length src" "src ! lx_index lx \<noteq> newline"
  shows "exact src (ReadWord src lx)"
proof -
  define j where "j = scan_word (drop (lx_index lx + 1) src) (lx_index lx + 1)"
  have "one_line src (lx_index lx) j"
    using one_line_trans [OF one_line_Suc [OF assms(3)] scan_word_one_line [of src "Suc (lx_index lx)"]]
    by (simp add: j_def)
  then have r: "reading src lx j"
    using assms scan_word_reads [of "lx_index lx + 1" "drop (lx_index lx + 1) src"]
    by (auto simp: reading_def j_def)
  show ?thesis
    unfolding ReadWord_def Let_def j_def [symmetric]
    by (rule calm_exact [OF r]) (use r in \<open>simp_all add: calm_push reading_calm\<close>)
qed

lemma NumberToken_exact:
  assumes "reading src lx e"
  shows "exact src (NumberToken num src (lx_index lx) e fractional lx)"
proof -
  define j where "j = skip_while IsAsciiLetter src e"
  have j: "e \<le> j" "j \<le> length src"
    using assms skip_while_ge [of e] skip_while_le [of e src] by (auto simp: j_def reading_def)
  have "one_line src e j"
    unfolding j_def by (rule one_line_skip_while) (rule letters_not_newline)
  then have r: "reading src lx j"
    using assms j one_line_trans [of src "lx_index lx" e j] by (simp add: reading_def)
  have le: "lx_index lx \<le> j"
    using r by (simp add: reading_def)
  have "calm src lx (NumberToken num src (lx_index lx) e fractional lx)"
    unfolding NumberToken_def Let_def j_def [symmetric]
    using j(1) le reading_calm [OF r]
    by (simp add: fills_value_def calm_report [OF r] calm_push [OF r] split: option.split)
  moreover have "lx_index (NumberToken num src (lx_index lx) e fractional lx) = j"
    by (simp add: NumberToken_def Let_def j_def [symmetric] split: option.split)
  ultimately show ?thesis
    using calm_exact [OF r] by blast
qed

lemma skip_sign_one_line: "one_line src i (skip_sign src i)"
  by (auto simp: skip_sign_def intro: one_line_Suc)

lemma ReadNumber_exact:
  assumes "exact src lx" "lx_index lx < length src" "src ! lx_index lx \<noteq> newline"
  shows "exact src (ReadNumber num src lx)"
proof -
  obtain i fractional
    where scan: "scan_number (drop (lx_index lx + 1) src) (lx_index lx + 1) False = (i, fractional)"
    by fastforce
  have i: "lx_index lx < i" "i \<le> length src"
    using scan_number_reads [OF scan] assms(2) by auto
  have ri: "reading src lx i"
    using assms i one_line_trans [OF one_line_Suc [OF assms(3)]] scan_number_one_line [OF scan]
    by (simp add: reading_def)
  define d where "d = skip_sign src (i + 1)"
  have rd: "reading src lx d" if "i < length src" "src ! i \<noteq> newline"
    using ri that skip_sign_reads [of "i + 1" src] one_line_more [of src "lx_index lx" i]
      one_line_trans [OF _ skip_sign_one_line [of src "i + 1"]]
    by (auto simp: reading_def d_def)
  have rp: "reading src lx (skip_while p src d)"
    if "i < length src" "src ! i \<noteq> newline" "\<And>c. p c \<Longrightarrow> c \<noteq> newline" for p
    using rd [OF that(1,2)] skip_while_ge [of d p src] skip_while_le [of d src p]
      one_line_trans [OF _ one_line_skip_while [OF that(3)]]
    by (auto simp: reading_def)
  have bad: "exact src (Push src kBad (lx_index lx) k id
      (Report src code message (lx_index lx) k family (lx\<lparr>lx_index := k\<rparr>)))"
    if "reading src lx k" for k code message family
    using that by (intro calm_exact [OF that])
      (auto intro!: calm_push [OF that] calm_report [OF that] reading_calm simp: reading_def)
  show ?thesis
    using NumberToken_exact [OF ri] NumberToken_exact [OF rp [of IsDigit]]
      bad [OF rp [of IsAsciiLetter]] letters_not_newline
    by (auto simp: ReadNumber_def scan [simplified] Let_def d_def [simplified, symmetric])
qed

lemma ReadPunctuation_exact:
  assumes "exact src lx" "lx_index lx < length src" "src ! lx_index lx \<noteq> newline"
  shows "exact src (ReadPunctuation src lx)"
proof -
  define letter where "letter = src ! lx_index lx"
  define follow where
    "follow = (if lx_index lx + 1 < length src then src ! (lx_index lx + 1) else CHR 0x00)"
  have take: "exact src (Take src kind (lx_index lx) n lx)" if "reading src lx (lx_index lx + n)" for kind n
    using calm_exact [OF that calm_take [OF that reading_calm [OF that] refl]] by (simp add: Take_def)
  have r1: "reading src lx (lx_index lx + 1)"
    using assms one_line_Suc by (simp add: reading_def)
  have r2: "reading src lx (lx_index lx + 2)" if "follow \<noteq> CHR 0x00" "follow \<noteq> newline"
    using r1 that one_line_more [of src "lx_index lx" "Suc (lx_index lx)"]
    by (auto simp: reading_def follow_def split: if_splits)
  have r3: "reading src lx (lx_index lx + 3)"
    if "follow = CHR ''.''" "lx_index lx + 2 < length src" "src ! (lx_index lx + 2) = CHR ''.''"
    using r2 that one_line_more [of src "lx_index lx" "Suc (Suc (lx_index lx))"]
    by (auto simp: reading_def numeral_3_eq_3)
  have dots: "exact src (Take src (if third then kSpread else kRange) (lx_index lx)
      (if third then 3 else 2) lx)"
    if "follow = CHR ''.''" "third \<longrightarrow> lx_index lx + 2 < length src \<and> src ! (lx_index lx + 2) = CHR ''.''" for third
    using that r2 r3 by (auto intro!: take)
  have bad: "exact src (Take src kBad (lx_index lx) 1 (Report src code message (lx_index lx) (lx_index lx + 1) family lx))"
    for code message family
    using calm_exact [OF r1 calm_take [OF r1 calm_report [OF r1 reading_calm [OF r1]] refl]]
    by (simp add: Take_def)
  have pairs: "map_of two_letters (letter, follow) = Some kind \<Longrightarrow> follow \<noteq> CHR 0x00 \<and> follow \<noteq> newline"
    "map_of two_letters_after_range (letter, follow) = Some kind \<Longrightarrow> follow \<noteq> CHR 0x00 \<and> follow \<noteq> newline"
    for kind
    by (auto dest!: map_of_SomeD simp: two_letters_def two_letters_after_range_def)
  show ?thesis
    unfolding ReadPunctuation_def Let_def letter_def [symmetric] follow_def [symmetric]
    using take [OF r1] take [OF r2] dots bad pairs
    by (cases "map_of two_letters (letter, follow)";
        cases "map_of two_letters_after_range (letter, follow)"; cases "map_of one_letter letter")
       (simp_all del: One_nat_def split del: if_split add: if_split [where P = "exact src"])
qed

lemma ReadEllipsis_exact:
  assumes "exact src lx" "take (length kEllipsis) (drop (lx_index lx) src) = kEllipsis"
  shows "exact src (ReadEllipsis src lx)"
proof -
  have fits: "lx_index lx + length kEllipsis \<le> length src"
    by (rule three_quotes_fit [OF assms(2)]) (simp_all add: kEllipsis_def)
  have "one_line src (lx_index lx) (lx_index lx + length kEllipsis)"
    unfolding one_line_def
  proof (intro allI impI)
    fix k assume k: "lx_index lx \<le> k \<and> k < lx_index lx + length kEllipsis"
    then have "kEllipsis ! (k - lx_index lx) = src ! k"
      using fits by (subst assms(2) [symmetric]) (auto simp: nth_drop)
    moreover have "kEllipsis ! (k - lx_index lx) \<in> set kEllipsis"
      using k by (intro nth_mem) auto
    ultimately show "src ! k \<noteq> newline"
      by (auto simp: kEllipsis_def)
  qed
  then have r: "reading src lx (lx_index lx + length kEllipsis)"
    using assms(1) fits by (simp add: reading_def)
  have "exact src (Take src kSpread (lx_index lx) (length kEllipsis)
      (Report src code message (lx_index lx) (lx_index lx + length kEllipsis) kSyntax lx))" for code message
    by (rule calm_exact [OF r calm_take [OF r calm_report [OF r reading_calm [OF r]] refl]])
      (simp_all add: Take_def)
  then show ?thesis
    by (simp add: ReadEllipsis_def Let_def exact_def cached_def add_fix_def)
qed

lemma ReadComment_exact:
  assumes "exact src lx"
  shows "exact src (ReadComment keep src lx)"
proof -
  let ?p = "\<lambda>c. c \<noteq> newline"
  have r: "reading src lx (skip_while ?p src (lx_index lx))"
    using assms one_line_skip_while [of ?p src "lx_index lx"] skip_while_ge skip_while_le
    by (auto simp: reading_def exact_def)
  show ?thesis
    by (rule calm_exact [OF r])
      (use r in \<open>simp_all add: ReadComment_def Let_def calm_push reading_calm\<close>)
qed

lemma ReadNewline_exact:
  assumes "exact src lx" "lx_index lx < length src" "src ! lx_index lx = newline"
  shows "exact src (ReadNewline src lx)"
proof -
  have r: "reading src lx (lx_index lx)"
    using assms(1) by (simp add: reading_def exact_def)
  have "calm src lx (Push src kNewline (lx_index lx) (lx_index lx + 1) id lx)"
    by (rule calm_push [OF r reading_calm [OF r]]) simp_all
  then show ?thesis
    using assms reading_calm [OF r]
    by (auto simp: ReadNewline_def Let_def exact_def calm_def cached_def)
qed

text \<open>A string on one line never leaves it, when no line break is escaped.\<close>

lemma string_body_calm:
  assumes "\<not> escaped_newline src" "reading src lx (lx_index l)" "calm src lx l" "lx_tokens l = lx_tokens lx"
    and "string_body src val escapes l = (terminated, val', escapes', l')"
  shows "reading src lx (lx_index l') \<and> calm src lx l'"
proof -
  let ?I = "\<lambda>l :: Lexer. reading src lx (lx_index l) \<and> calm src lx l"
  have "?I (snd (snd (snd (string_body src val escapes l))))"
  proof (rule string_body_invariant [where I = ?I])
    fix l :: Lexer assume "?I l" "lx_index l < length src" "src ! lx_index l \<noteq> newline"
    then show "?I (l\<lparr>lx_index := Suc (lx_index l)\<rparr>)"
      by (auto simp: reading_def intro: one_line_more)
  next
    fix l :: Lexer and es
    assume I: "?I l" and i: "Suc (lx_index l) < length src" "src ! lx_index l = backslash"
    have esc: "src ! Suc (lx_index l) \<noteq> newline"
      by (rule escaped_newline_nth [OF assms(1) i])
    then have r: "reading src lx (Suc (Suc (lx_index l)))"
      using I i by (auto simp: reading_def intro!: one_line_more)
    have "cached src (snd (Column src (lx_index l) l))"
      using I one_line_same(2) [of "lx_index lx" "lx_index l" src]
      by (intro column_cached(1) [of src l "lx_index l"]) (auto simp: reading_def calm_def exact_def)
    then show "?I ((snd (pass_string_escape src es l))\<lparr>lx_index := Suc (Suc (lx_index l))\<rparr>)"
      using I r esc i by (simp add: pass_string_escape_def Let_def case_prod_unfold) (simp add: calm_def)
  qed (use assms in simp)
  then show ?thesis by (simp add: assms(5))
qed

text \<open>A string over several lines keeps the counters right as it goes.\<close>

lemma pass_escape_exact:
  assumes "exact src lx" "src ! lx_index lx = backslash" "Suc (lx_index lx) < length src"
  shows "exact src (pass_escape src lx)"
proof -
  let ?i = "lx_index lx" and ?j = "skip_while IsContinuation src (Suc (Suc (lx_index lx)))"
  have j: "Suc (Suc ?i) \<le> ?j" "?j \<le> length src"
    using skip_while_ge [of "Suc (Suc ?i)"] skip_while_le [of "Suc (Suc ?i)" src] assms(3) by auto
  have "one_line src (Suc (Suc ?i)) ?j"
    by (rule one_line_skip_while) (rule letters_not_newline)
  note same = one_line_same [OF j(1) this]
  have "cached src (snd (Column src ?i lx))"
    using assms by (intro column_cached(1) [of src lx ?i]) (auto simp: exact_def)
  then show ?thesis
    using assms j same
    by (auto simp: pass_escape_def Let_def case_prod_unfold exact_def cached_def)
qed

lemma pass_char_exact:
  "exact src lx \<Longrightarrow> lx_index lx < length src \<Longrightarrow> exact src (pass_char src lx)"
  by (auto simp: pass_char_def Let_def exact_def cached_def)

lemma quotes_reading:
  assumes "exact src lx" "take 3 (drop (lx_index lx) src) = [quote, quote, quote]"
  shows "reading src lx (lx_index lx + 3)"
proof -
  have fits: "lx_index lx + 3 \<le> length src"
    by (rule three_quotes_fit [OF assms(2)]) simp_all
  have quotes: "src ! (lx_index lx + n) = quote" if "n < 3" for n
  proof -
    have "src ! (lx_index lx + n) = take 3 (drop (lx_index lx) src) ! n"
      using fits that by simp
    then show ?thesis
      using that unfolding assms(2) by (auto simp: less_Suc_eq numeral_3_eq_3)
  qed
  have "one_line src (lx_index lx) (lx_index lx + 3)"
    unfolding one_line_def
  proof (intro allI impI)
    fix k assume "lx_index lx \<le> k \<and> k < lx_index lx + 3"
    then have "k - lx_index lx < 3" "lx_index lx + (k - lx_index lx) = k" by linarith+
    then show "src ! k \<noteq> newline" using quotes [of "k - lx_index lx"] by simp
  qed
  then show ?thesis using assms(1) fits by (simp add: reading_def)
qed

lemma skip_quotes_exact:
  assumes "exact src lx" "take 3 (drop (lx_index lx) src) = [quote, quote, quote]"
  shows "exact src (lx\<lparr>lx_index := lx_index lx + 3\<rparr>)"
  using quotes_reading [OF assms] by (intro calm_exact [OF quotes_reading [OF assms]])
    (simp_all add: reading_calm)

lemma ReadMultilineString_exact:
  assumes "exact src lx" "take 3 (drop (lx_index lx) src) = [quote, quote, quote]"
  shows "exact src (ReadMultilineString src lx)"
proof -
  note r = quotes_reading [OF assms]
  let ?lx0 = "lx\<lparr>lx_index := lx_index lx + 3\<rparr>"
  obtain found escapes lx1 where body: "multiline_body src [] ?lx0 = (found, escapes, lx1)"
    by (metis prod_cases3)
  have "exact src (snd (snd (multiline_body src [] ?lx0)))"
    by (rule multiline_body_invariant [where I = "exact src"])
      (simp_all add: assms pass_escape_exact pass_char_exact skip_quotes_exact)
  then have e1: "exact src lx1" by (simp add: body)
  have le: "lx_index lx \<le> lx_index lx1" "lx_tokens lx1 = lx_tokens lx"
    using multiline_body_reads [OF _ body] r by (auto simp: reading_def)
  define lx2 where "lx2 = (if found = None
    then Report src ''flow.syntax.unterminated-string''
      (''Unterminated '' @ [quote, quote, quote] @ '' string.'') (lx_index lx) (lx_index lx1) kSyntax lx1
    else lx1)"
  have e2: "exact src lx2" "lx_index lx2 = lx_index lx1"
    using e1 le report_cached [of src lx1 "lx_index lx1" "lx_index lx" "lx_index lx1"]
    by (auto simp: lx2_def exact_def)
  let ?rewound = "lx2\<lparr>lx_line := lx_line lx, lx_line_start := lx_line_start lx\<rparr>"
  have wound: "calm src lx ?rewound"
    using e2(1) by (simp add: calm_def exact_def cached_def)
  have "calm src lx (Push src kString (lx_index lx) e
      (\<lambda>t. t\<lparr>tk_string_value := val, tk_string_escapes := escapes\<rparr>) ?rewound)" for e val
    by (rule calm_push [OF r wound]) (simp_all add: fills_value_def)
  then show ?thesis
    using e2 by (simp add: ReadMultilineString_def body Let_def lx2_def [simplified, symmetric] exact_def calm_def cached_def)
qed

lemma ReadString_exact:
  assumes "\<not> escaped_newline src" "exact src lx" "lx_index lx < length src" "src ! lx_index lx = quote"
  shows "exact src (ReadString src lx)"
proof (cases "take 3 (drop (lx_index lx) src) = [quote, quote, quote]")
  case True
  then show ?thesis using ReadMultilineString_exact [OF assms(2)] by (simp add: ReadString_def)
next
  case False
  let ?lx0 = "lx\<lparr>lx_index := Suc (lx_index lx)\<rparr>"
  obtain terminated val escapes lx1
    where body: "string_body src [] [] ?lx0 = (terminated, val, escapes, lx1)"
    by (metis prod_cases4)
  have "reading src lx (lx_index ?lx0)"
    using assms one_line_Suc [of src "lx_index lx"] by (simp add: reading_def)
  then have r: "reading src lx (lx_index lx1)" and c: "calm src lx lx1"
    using string_body_calm [OF assms(1) _ _ _ body, of lx] reading_calm by auto
  have "calm src lx (Report src code message (lx_index lx) (lx_index lx1) family lx1)" for code message family
    using r by (intro calm_report [OF r c]) (auto simp: reading_def)
  then have "calm src lx (ReadString src lx)" "lx_index (ReadString src lx) = lx_index lx1"
    using False c by (auto simp: ReadString_def body Let_def fills_value_def intro!: calm_push [OF r])
  then show ?thesis using calm_exact [OF r] by blast
qed

lemma lex_step_exact:
  assumes "\<not> escaped_newline src" "exact src lx" "lx_index lx < length src"
  shows "exact src (lex_step num keep src lx)"
proof -
  have semi: "exact src ((Push src kSemicolon (lx_index lx) (lx_index lx + 1) id lx)\<lparr>lx_index := lx_index lx + 1\<rparr>)"
    and blank: "exact src (lx\<lparr>lx_index := lx_index lx + 1\<rparr>)" if "src ! lx_index lx \<noteq> newline"
  proof -
    have r: "reading src lx (lx_index lx + 1)"
      using assms that one_line_Suc by (simp add: reading_def)
    show "exact src ((Push src kSemicolon (lx_index lx) (lx_index lx + 1) id lx)\<lparr>lx_index := lx_index lx + 1\<rparr>)"
      "exact src (lx\<lparr>lx_index := lx_index lx + 1\<rparr>)"
      by (rule calm_exact [OF r]; simp add: calm_push [OF r reading_calm [OF r]] reading_calm [OF r])+
  qed
  note rules = ReadNewline_exact [OF assms(2,3)] ReadComment_exact [OF assms(2)] ReadString_exact [OF assms]
    ReadNumber_exact [OF assms(2,3)] ReadEllipsis_exact [OF assms(2)] ReadWord_exact [OF assms(2,3)]
    ReadPunctuation_exact [OF assms(2,3)]
  show ?thesis
  proof (cases "src ! lx_index lx = newline")
    case True
    then show ?thesis using rules(1) by (simp add: lex_step_def Let_def)
  next
    case False
    then show ?thesis using semi blank rules by (simp add: lex_step_def Let_def)
  qed
qed

section \<open>Every token is where it says\<close>

lemma loop_exact:
  assumes "\<not> escaped_newline src"
  shows "exact src (fst (lex_loop now num options src new_lexer b))"
proof (rule lex_loop_invariant [where I = "exact src"])
  fix lx message assume "exact src lx"
  then show "exact src (resource_limit src message (lx_index lx) lx)"
    using report_cached [of src lx "lx_index lx" "lx_index lx" "lx_index lx"]
    by (auto simp: exact_def resource_limit_def)
next
  show "exact src new_lexer" by (simp add: exact_def cached_def new_lexer_def)
qed (use assms lex_step_exact in blast)

lemma end_exact:
  assumes "cached src lx" "lx_index lx \<le> length src" "lx_line lx = line_of src (lx_index lx)"
    "lx_line_start lx = line_start_of src (lx_index lx)" "list_all (placed src) (lx_tokens lx)"
  shows "list_all (placed src) (lx_tokens (Push src kEnd (lx_index lx) (lx_index lx) id lx))"
  using assms push_placed [of src lx "lx_index lx" id] by simp

text \<open>C16. Every token \<open>Lex\<close> returns, the end token included, carries the line and the column at
  which it starts: one more than the line breaks before it, and one more than the characters
  (not bytes: UTF-8 continuation bytes do not count) since the last of them.  So the column
  scan that resumes from its last answer and the winding back and forth around strings over
  several lines agree with a plain count from the start of the source.  The source must not
  have a backslash right before a line break.
\<close>

theorem token_positions_exact:
  assumes "\<not> escaped_newline src"
  shows "list_all (\<lambda>t. tk_line t = line_of src (tk_start t) \<and> tk_column t = column_of src (tk_start t))
     (lr_tokens (Lex now readings num options budget src))"
proof -
  obtain lx b where run: "Run now readings num options budget src = (lx, b)"
    by fastforce
  from run have "list_all (placed src) (lx_tokens lx)"
  proof (cases rule: Run_cases)
    case oversized
    have "exact src new_lexer" by (simp add: exact_def cached_def new_lexer_def)
    then have "cached src (resource_limit src message 0 new_lexer)" for message
      unfolding resource_limit_def by (intro report_cached [of _ _ 0]) (auto simp: exact_def new_lexer_def)
    then show ?thesis
      using end_exact [of src "resource_limit src ''Source exceeds the configured byte limit.'' 0 new_lexer"]
      by (simp add: oversized(2)) (simp add: new_lexer_def)
  next
    case (ran lx1 b0 lx2 message)
    have e: "exact src lx2"
      using ran(2) loop_exact [OF assms, of now num options b0] report_cached [of src lx1 "lx_index lx1" "lx_index lx1" "lx_index lx1"]
      unfolding ran(1) [symmetric] by (auto simp: exact_def resource_limit_def)
    obtain us where "lx_tokens lx2 = pop_newlines (lx_tokens lx2) @ us"
      using pop_newlines_prefix by blast
    then have "list_all (placed src) (pop_newlines (lx_tokens lx2))"
      using e unfolding exact_def by (metis list_all_append)
    then show ?thesis
      using e end_exact [of src "lx2\<lparr>lx_tokens := pop_newlines (lx_tokens lx2)\<rparr>"]
      by (simp add: ran(3) exact_def cached_def)
  qed
  then show ?thesis
    by (simp add: Lex_def run placed_def [abs_def])
qed

text \<open>A conversion that knows no digits, enough for sources without numbers.\<close>

definition no_numbers :: number_text where
  "no_numbers = \<lparr>SimpleAtod = (\<lambda>_. None), SimpleAtoi64 = (\<lambda>_. None), SecondsOfProduct = (\<lambda>_ _. Ticks 0)\<rparr>"

definition keeping_comments :: LexOptions where
  "keeping_comments = \<lparr>keep_comments = True, lex_limits = default_limits\<rparr>"

definition two_line_source :: string where
  "two_line_source =
     [CHR ''a'', newline, quote, quote, quote, newline, quote, quote, quote, CHR 0xC3, CHR 0xA9, CHR '' '', CHR ''b'']"

text \<open>
  An instance: a word, a string over two lines, a word of one two-byte character and another
  word.
\<close>

theorem token_positions_exact_witness:
  "\<not> escaped_newline two_line_source \<and>
   list_all (\<lambda>t. tk_line t = line_of two_line_source (tk_start t) \<and>
                 tk_column t = column_of two_line_source (tk_start t))
     (lr_tokens (Lex (\<lambda>_. 0) 0 no_numbers keeping_comments None two_line_source))"
proof -
  have "\<not> escaped_newline two_line_source"
    by (simp add: two_line_source_def)
  then show ?thesis
    using token_positions_exact [of two_line_source "\<lambda>_. 0" 0 no_numbers keeping_comments None] by simp
qed

lemmas lexer_evaluates =
  Lex_def Run_def new_budget_def new_lexer_def lex_loop.simps lex_step_def Budget_Check_def read_clock_def
  ConsumeTokens_def ReadString_def ReadMultilineString_def multiline_body.simps string_body.simps
  pass_escape_def pass_char_def pass_string_escape_def EscapeAt_def Push_def Report_def Column_def new_token_def
  blank_token_def ReadWord_def ReadNewline_def substr_def skip_while_def IsDigit_def IsNamePart_def
  IsNameStart_def IsAsciiLetter_def IsContinuation_def kEllipsis_def pop_newlines_def DecodeEscape_def
  keeping_comments_def default_limits_def Let_def nth_Cons'

text \<open>
  The condition on escaped line breaks is needed.  In a string in single quotation marks the
  backslash takes the line break with it, the line is not counted, and the word that follows
  on the next line is reported on the line of the opening quote.
\<close>

definition continued_source :: string where
  "continued_source = [quote, backslash, newline, quote, CHR ''c'']"

lemma continued_string_misplaced:
  "map (\<lambda>t. (tk_kind t, tk_start t, tk_line t))
     (lr_tokens (Lex (\<lambda>_. 0) 0 no_numbers keeping_comments None continued_source)) =
     [(kString, 0, 1), (kWord, 4, 1), (kEnd, 5, 1)]"
  "line_of continued_source 4 = 2"
  by (simp_all add: lexer_evaluates continued_source_def) (simp add: eval_nat_numeral)

end
