(* ===== verification/Flow_Offsets.thy ===== *)
theory Flow_Offsets
  imports Text_Encoding Json_Codec
begin

text \<open>
  Byte offsets against UTF-16 offsets (\<open>cpp/a11/flow/offsets.cc\<close>): the index of a
  document, with the byte and the UTF-16 offset at which each of its lines starts, the
  conversions that walk from the nearest line start, and the rewriting of an answer's
  offsets.  The members of the class \<open>TextIndex\<close> are the record of that name.
\<close>

section \<open>The index\<close>

record TextIndex =
  ti_text :: string
  ti_line_starts :: "nat list"
  ti_line_utf16_starts :: "nat list"

definition Step :: "string \<Rightarrow> nat \<Rightarrow> nat \<times> nat" where
  "Step doc offset =
     (let width = SequenceWidth (doc ! offset);
          width = (if offset + width > length doc then 1 else width)
      in (width, Utf16Units (doc ! offset)))"

lemma step_moves [simp]: "0 < fst (Step doc i)" "0 < snd (Step doc i)"
  by (simp_all add: Step_def Let_def SequenceWidth_def Utf16Units_def)

lemma step_fits: "i < length doc \<Longrightarrow> i + fst (Step doc i) \<le> length doc"
  by (simp add: Step_def Let_def)

lemma step_width_units: "i < length doc \<Longrightarrow> snd (Step doc i) \<le> 2"
  by (simp add: Step_def Let_def Utf16Units_def)

text \<open>The loop of the constructor, with the lists it appends to.\<close>

function index_lines :: "string \<Rightarrow> nat \<Rightarrow> nat \<Rightarrow> nat list \<Rightarrow> nat list \<Rightarrow> nat list \<times> nat list" where
  "index_lines doc at units starts utf16 =
     (if at < length doc then
        let at' = at + fst (Step doc at); units' = units + snd (Step doc at)
        in if doc ! at = CHR 0x0A
           then index_lines doc at' units' (starts @ [at']) (utf16 @ [units'])
           else index_lines doc at' units' starts utf16
      else (starts, utf16))"
  by pat_completeness auto

termination index_lines
  by (relation "measure (\<lambda>(doc, at, units, starts, utf16). length doc - at)")
     (simp_all add: diff_less_mono2)

declare index_lines.simps [simp del]

definition new_TextIndex :: "string \<Rightarrow> TextIndex" where
  "new_TextIndex doc =
     (let (starts, utf16) = index_lines doc 0 0 [0] [0]
      in \<lparr>ti_text = doc, ti_line_starts = starts, ti_line_utf16_starts = utf16\<rparr>)"

definition LineCount :: "TextIndex \<Rightarrow> nat" where
  "LineCount ix = length (ti_line_starts ix)"

definition LineEnd :: "TextIndex \<Rightarrow> nat \<Rightarrow> nat" where
  "LineEnd ix line =
     (if line + 1 < length (ti_line_starts ix) then ti_line_starts ix ! (line + 1) - 1
      else length (ti_text ix))"

text \<open>\<open>std::upper_bound\<close> on a sorted range, as the number of elements before its result.\<close>

definition upper_bound :: "nat list \<Rightarrow> nat \<Rightarrow> nat" where
  "upper_bound xs v = length (takeWhile (\<lambda>x. x \<le> v) xs)"

text \<open>
  The walks along a line: up to a byte offset, and up to a number of UTF-16 units or the end
  given.  Both return the offset and the units reached.
\<close>

function walk_to_byte :: "string \<Rightarrow> nat \<Rightarrow> nat \<Rightarrow> nat \<Rightarrow> nat \<times> nat" where
  "walk_to_byte doc wanted at units =
     (if at < wanted
      then walk_to_byte doc wanted (at + fst (Step doc at)) (units + snd (Step doc at))
      else (at, units))"
  by pat_completeness auto

termination walk_to_byte
  by (relation "measure (\<lambda>(doc, wanted, at, units). wanted - at)") (simp_all add: diff_less_mono2)

function walk_to_units :: "string \<Rightarrow> nat \<Rightarrow> nat \<Rightarrow> nat \<Rightarrow> nat \<Rightarrow> nat \<times> nat" where
  "walk_to_units doc stop wanted at units =
     (if at < stop \<and> units < wanted
      then walk_to_units doc stop wanted (at + fst (Step doc at)) (units + snd (Step doc at))
      else (at, units))"
  by pat_completeness auto

termination walk_to_units
  by (relation "measure (\<lambda>(doc, stop, wanted, at, units). stop - at)") (simp_all add: diff_less_mono2)

declare walk_to_byte.simps [simp del] walk_to_units.simps [simp del]

definition Utf16Of :: "TextIndex \<Rightarrow> nat \<Rightarrow> nat" where
  "Utf16Of ix byte_offset =
     (let wanted = min byte_offset (length (ti_text ix));
          line = upper_bound (ti_line_starts ix) wanted - 1
      in snd (walk_to_byte (ti_text ix) wanted (ti_line_starts ix ! line) (ti_line_utf16_starts ix ! line)))"

definition ByteOf :: "TextIndex \<Rightarrow> nat \<Rightarrow> nat" where
  "ByteOf ix utf16_offset =
     (let line = upper_bound (ti_line_utf16_starts ix) utf16_offset - 1
      in fst (walk_to_units (ti_text ix) (length (ti_text ix)) utf16_offset
                (ti_line_starts ix ! line) (ti_line_utf16_starts ix ! line)))"

text \<open>\<open>static_cast<int>\<close> of a \<open>size_t\<close>, and \<open>static_cast<size_t>\<close> of an \<open>int\<close>.\<close>

definition to_int :: "nat \<Rightarrow> int" where
  "to_int n = sint (word_of_nat n :: u32)"

definition to_size :: "int \<Rightarrow> nat" where
  "to_size i = nat (i mod 2 ^ 64)"

definition PositionOf :: "TextIndex \<Rightarrow> nat \<Rightarrow> int \<times> int" where
  "PositionOf ix byte_offset =
     (let wanted = min byte_offset (length (ti_text ix));
          line = upper_bound (ti_line_starts ix) wanted - 1
      in (to_int line, to_int (snd (walk_to_byte (ti_text ix) wanted (ti_line_starts ix ! line) 0))))"

fun walk_characters :: "string \<Rightarrow> nat \<Rightarrow> nat \<Rightarrow> nat \<Rightarrow> nat" where
  "walk_characters doc stop 0 offset = offset"
| "walk_characters doc stop (Suc n) offset =
     (if offset < stop then walk_characters doc stop n (offset + fst (Step doc offset)) else offset)"

definition ByteOfSourcePosition :: "TextIndex \<Rightarrow> int \<Rightarrow> int \<Rightarrow> nat" where
  "ByteOfSourcePosition ix line column =
     (let row = (if line > 0 then nat (line - 1) else 0)
      in if row \<ge> length (ti_line_starts ix) then length (ti_text ix)
         else min (walk_characters (ti_text ix) (LineEnd ix row) (nat (column - 1)) (ti_line_starts ix ! row))
                  (LineEnd ix row))"

definition ByteOfPosition :: "TextIndex \<Rightarrow> int \<Rightarrow> int \<Rightarrow> nat" where
  "ByteOfPosition ix line character =
     (if line < 0 then 0
      else if nat line \<ge> length (ti_line_starts ix) then length (ti_text ix)
      else fst (walk_to_units (ti_text ix) (LineEnd ix (nat line)) (to_size character)
                  (ti_line_starts ix ! nat line) 0))"

section \<open>Answers\<close>

datatype OffsetBasis = kBytes | kUtf16

definition OffsetBasisFromName :: "string \<Rightarrow> OffsetBasis option" where
  "OffsetBasisFromName name =
     (if name = [] \<or> name = ''bytes'' then Some kBytes
      else if name = ''utf16'' then Some kUtf16 else None)"

definition OffsetBasisName :: "OffsetBasis \<Rightarrow> string" where
  "OffsetBasisName basis = (if basis = kUtf16 then ''utf16'' else ''bytes'')"

definition kOffsetFields :: "string list" where
  "kOffsetFields = [''start'', ''end'', ''offset'', ''prefix_start'', ''replace_start'']"

definition IsOffsetField :: "string \<Rightarrow> bool" where
  "IsOffsetField name \<longleftrightarrow> name \<in> set kOffsetFields"

text \<open>\<open>get<int>()\<close> of an integer value: its low 32 bits.\<close>

fun json_int :: "json \<Rightarrow> int option" where
  "json_int (JUint w) = Some (sint (ucast w :: u32))"
| "json_int (JInt w) = Some (sint (ucast w :: u32))"
| "json_int _ = None"

text \<open>The document the string field \<open>key\<close> names, if it is one of the documents.\<close>

definition document_of ::
  "(string \<times> TextIndex) list \<Rightarrow> (string \<times> json) list \<Rightarrow> string \<Rightarrow> TextIndex option" where
  "document_of documents members key =
     (case map_of members key of
        Some (JString name) \<Rightarrow> map_of documents name
      | _ \<Rightarrow> None)"

definition pick_index ::
  "(string \<times> TextIndex) list \<Rightarrow> TextIndex \<Rightarrow> (string \<times> json) list \<Rightarrow> TextIndex" where
  "pick_index documents inherited members =
     (case document_of documents members ''file'' of
        Some ix \<Rightarrow> ix
      | None \<Rightarrow> (case document_of documents members ''source'' of Some ix \<Rightarrow> ix | None \<Rightarrow> inherited))"

text \<open>
  The two places that set \<open>utf16_column\<close>.  What they write is a number the walk over the
  members leaves alone, so it is put after the walk.
\<close>

definition file_column :: "(string \<times> TextIndex) list \<Rightarrow> (string \<times> json) list \<Rightarrow> int option" where
  "file_column documents members =
     (case document_of documents members ''file'' of
        None \<Rightarrow> None
      | Some ix \<Rightarrow>
          (case (Option.bind (map_of members ''line'') json_int, Option.bind (map_of members ''column'') json_int) of
             (Some line, Some column) \<Rightarrow>
               Some (snd (PositionOf ix (ByteOfSourcePosition ix line column)) + 1)
           | _ \<Rightarrow> None))"

definition offset_column :: "TextIndex \<Rightarrow> (string \<times> json) list \<Rightarrow> int option" where
  "offset_column ix members =
     (case map_of members ''offset'' of
        Some (JUint n) \<Rightarrow>
          if map_of members ''line'' \<noteq> None \<and> map_of members ''column'' \<noteq> None
          then Some (snd (PositionOf ix (unat n)) + 1) else None
      | _ \<Rightarrow> None)"

definition put_column :: "int option \<Rightarrow> (string \<times> json) list \<Rightarrow> (string \<times> json) list" where
  "put_column column members =
     (case column of None \<Rightarrow> members | Some c \<Rightarrow> obj_put ''utf16_column'' (JInt (word_of_int c)) members)"

fun RebaseToUtf16 :: "(string \<times> TextIndex) list \<Rightarrow> TextIndex \<Rightarrow> json \<Rightarrow> json" where
  "RebaseToUtf16 documents inherited (JArray items) =
     JArray (map (RebaseToUtf16 documents inherited) items)"
| "RebaseToUtf16 documents inherited (JObject members) =
     (let ix = pick_index documents inherited members
      in JObject
           (put_column (offset_column ix members)
             (put_column (file_column documents members)
               (map (\<lambda>(key, val).
                  (key, case (IsOffsetField key, val) of
                          (True, JUint n) \<Rightarrow> JUint (word_of_nat (Utf16Of ix (unat n)))
                        | _ \<Rightarrow> RebaseToUtf16 documents ix val)) members))))"
| "RebaseToUtf16 documents inherited other = other"

section \<open>The index is exact\<close>

text \<open>The pairs of offsets a walk over the whole document passes through.\<close>

inductive on_walk :: "string \<Rightarrow> nat \<Rightarrow> nat \<Rightarrow> bool" for doc where
  walk_start: "on_walk doc 0 0"
| walk_step: "on_walk doc at units \<Longrightarrow> at < length doc \<Longrightarrow>
    on_walk doc (at + fst (Step doc at)) (units + snd (Step doc at))"

lemma on_walk_fits: "on_walk doc a u \<Longrightarrow> a \<le> length doc"
  by (induction rule: on_walk.induct) (simp_all add: step_fits)

lemma walk_to_byte_from:
  "on_walk doc a u \<Longrightarrow> a \<le> wanted \<Longrightarrow> walk_to_byte doc wanted 0 0 = walk_to_byte doc wanted a u"
proof (induction rule: on_walk.induct)
  case (walk_step a u)
  have "a < wanted"
    using walk_step.prems step_moves(1) [of doc a] by linarith
  then show ?case
    using walk_step by (simp add: walk_to_byte.simps [of doc wanted a u])
qed simp

lemma walk_to_units_from:
  "on_walk doc a u \<Longrightarrow> u \<le> wanted \<Longrightarrow>
     walk_to_units doc (length doc) wanted 0 0 = walk_to_units doc (length doc) wanted a u"
proof (induction rule: on_walk.induct)
  case (walk_step a u)
  have "u < wanted"
    using walk_step.prems step_moves(2) [of doc a] by linarith
  then show ?case
    using walk_step by (simp add: walk_to_units.simps [of doc _ wanted a u])
qed simp

lemma walk_to_byte_on_walk:
  "on_walk doc a u \<Longrightarrow> wanted \<le> length doc \<Longrightarrow> walk_to_byte doc wanted a u = (a', u') \<Longrightarrow> on_walk doc a' u'"
proof (induction doc wanted a u rule: walk_to_byte.induct)
  case (1 doc wanted a u)
  then show ?case
    using on_walk.walk_step [of doc a u] by (cases "a < wanted") (simp_all add: walk_to_byte.simps [of doc wanted a u])
qed

text \<open>Every line start of the index is on that walk.\<close>

definition index_ok :: "string \<Rightarrow> nat list \<Rightarrow> nat list \<Rightarrow> bool" where
  "index_ok doc starts utf16 \<longleftrightarrow>
     length starts = length utf16 \<and> starts \<noteq> [] \<and> utf16 \<noteq> [] \<and> hd starts = 0 \<and> hd utf16 = 0 \<and>
     list_all2 (on_walk doc) starts utf16"

lemma index_ok_snoc:
  "index_ok doc starts utf16 \<Longrightarrow> on_walk doc a u \<Longrightarrow> index_ok doc (starts @ [a]) (utf16 @ [u])"
  by (auto simp: index_ok_def list_all2_append hd_append)

lemma index_lines_ok:
  "on_walk doc a u \<Longrightarrow> index_ok doc starts utf16 \<Longrightarrow>
     (case index_lines doc a u starts utf16 of (starts', utf16') \<Rightarrow> index_ok doc starts' utf16')"
proof (induction doc a u starts utf16 rule: index_lines.induct)
  case (1 doc a u starts utf16)
  show ?case
  proof (cases "a < length doc")
    case True
    note next_on = on_walk.walk_step [OF "1.prems"(1) True]
    show ?thesis
      using "1.IH" [OF True refl refl] next_on index_ok_snoc [OF "1.prems"(2) next_on] "1.prems"(2) True
      by (cases "doc ! a = CHR 0x0A") (simp_all add: index_lines.simps [of doc a u starts utf16] Let_def)
  qed (use "1.prems" in \<open>simp add: index_lines.simps\<close>)
qed

lemma new_TextIndex_ok:
  "ti_text (new_TextIndex doc) = doc"
  "index_ok doc (ti_line_starts (new_TextIndex doc)) (ti_line_utf16_starts (new_TextIndex doc))"
  using index_lines_ok [OF on_walk.walk_start, of doc "[0]" "[0]"]
  by (auto simp: new_TextIndex_def index_ok_def on_walk.walk_start split: prod.splits)

lemma upper_bound_line:
  assumes "xs \<noteq> []" "hd xs = 0"
  shows "upper_bound xs v - 1 < length xs" "xs ! (upper_bound xs v - 1) \<le> v"
    "Suc (upper_bound xs v - 1) < length xs \<Longrightarrow> v < xs ! Suc (upper_bound xs v - 1)"
proof -
  let ?n = "upper_bound xs v"
  have pos: "0 < ?n" using assms by (cases xs) (auto simp: upper_bound_def)
  have le: "?n \<le> length xs" by (simp add: upper_bound_def length_takeWhile_le)
  show "?n - 1 < length xs" using pos le by linarith
  show "xs ! (?n - 1) \<le> v"
  proof -
    have k: "?n - 1 < length (takeWhile (\<lambda>x. x \<le> v) xs)"
      using pos by (simp add: upper_bound_def)
    show ?thesis
      using set_takeWhileD [OF nth_mem [OF k]] takeWhile_nth [OF k] by simp
  qed
  show "v < xs ! Suc (?n - 1)" if "Suc (?n - 1) < length xs"
    using that pos nth_length_takeWhile [of "\<lambda>x. x \<le> v" xs] by (simp add: upper_bound_def not_le)
qed

lemma index_line:
  assumes "index_ok doc starts utf16"
  shows "on_walk doc (starts ! (upper_bound starts v - 1)) (utf16 ! (upper_bound starts v - 1))"
    "starts ! (upper_bound starts v - 1) \<le> v"
    "on_walk doc (starts ! (upper_bound utf16 v - 1)) (utf16 ! (upper_bound utf16 v - 1))"
    "utf16 ! (upper_bound utf16 v - 1) \<le> v"
  using assms upper_bound_line [of starts v] upper_bound_line [of utf16 v]
  by (auto simp: index_ok_def list_all2_conv_all_nth)

lemma utf16_walks:
  "Utf16Of (new_TextIndex doc) b = snd (walk_to_byte doc (min b (length doc)) 0 0)"
  using walk_to_byte_from [OF index_line(1,2) [OF new_TextIndex_ok(2)]]
  by (simp add: Utf16Of_def Let_def new_TextIndex_ok(1))

lemma byte_walks:
  "ByteOf (new_TextIndex doc) u = fst (walk_to_units doc (length doc) u 0 0)"
  using walk_to_units_from [OF index_line(3,4) [OF new_TextIndex_ok(2)]]
  by (simp add: ByteOf_def Let_def new_TextIndex_ok(1))

text \<open>C18. The line table never changes an answer.  For every text, well-formed UTF-8 or not, the
  UTF-16 offset of a byte offset and the byte offset of a UTF-16 offset that the index finds
  by walking from the nearest line start are those of a walk over the whole text from its
  first byte.
\<close>

theorem line_index_equals_full_walk:
  "Utf16Of (new_TextIndex doc) b = snd (walk_to_byte doc (min b (length doc)) 0 0) \<and>
   ByteOf (new_TextIndex doc) u = fst (walk_to_units doc (length doc) u 0 0)"
  using utf16_walks byte_walks by blast

section \<open>Round trips\<close>

text \<open>The offsets at which a character of the document starts, and its end.\<close>

definition boundary :: "string \<Rightarrow> nat \<Rightarrow> bool" where
  "boundary doc b \<longleftrightarrow> b \<le> length doc \<and> fst (walk_to_byte doc b 0 0) = b"

lemma walk_to_byte_shift:
  "walk_to_byte doc wanted a (u + c) =
     (fst (walk_to_byte doc wanted a u), snd (walk_to_byte doc wanted a u) + c)"
proof (induction doc wanted a u rule: walk_to_byte.induct)
  case (1 doc wanted a u)
  then show ?case
    by (cases "a < wanted")
      (simp_all add: walk_to_byte.simps [of doc wanted a] add.assoc add.commute add.left_commute)
qed

lemma walk_to_byte_more:
  "u \<le> snd (walk_to_byte doc wanted a u)"
proof (induction doc wanted a u rule: walk_to_byte.induct)
  case (1 doc wanted a u)
  then show ?case by (cases "a < wanted") (simp_all add: walk_to_byte.simps [of doc wanted a u])
qed

lemma walk_to_byte_bound:
  "a \<le> wanted \<Longrightarrow> wanted \<le> length doc \<Longrightarrow> snd (walk_to_byte doc wanted a u) \<le> u + 2 * (wanted - a)"
proof (induction doc wanted a u rule: walk_to_byte.induct)
  case (1 doc wanted a u)
  show ?case
  proof (cases "a + fst (Step doc a) \<le> wanted")
    case True
    obtain w where w: "fst (Step doc a) = Suc w"
      using gr0_implies_Suc [OF step_moves(1)] by blast
    then have "a < wanted" using True by simp
    then show ?thesis
      using 1 True step_width_units [of a doc] by (simp add: walk_to_byte.simps [of doc wanted a u] w)
  next
    case False
    then have "walk_to_byte doc wanted a u =
        (if a < wanted then (a + fst (Step doc a), u + snd (Step doc a)) else (a, u))"
      by (simp add: walk_to_byte.simps [of doc wanted a u] walk_to_byte.simps [of doc wanted "a + fst (Step doc a)"])
    then show ?thesis
      using step_width_units [of a doc] 1(2,3) by auto
  qed
qed

lemma walk_to_units_back:
  "walk_to_byte doc b a u = (b, k) \<Longrightarrow> b \<le> e \<Longrightarrow> fst (walk_to_units doc e k a u) = b"
proof (induction doc b a u rule: walk_to_byte.induct)
  case (1 doc b a u)
  show ?case
  proof (cases "a < b")
    case True
    have walk: "walk_to_byte doc b (a + fst (Step doc a)) (u + snd (Step doc a)) = (b, k)"
      using 1(2) True by (simp add: walk_to_byte.simps [of doc b a u])
    have "u + snd (Step doc a) \<le> k"
      using walk_to_byte_more [of "u + snd (Step doc a)" doc b "a + fst (Step doc a)"] walk by simp
    then have "u < k" using step_moves(2) [of doc a] by linarith
    then show ?thesis
      using 1(1) [OF True walk 1(3)] True 1(3) by (simp add: walk_to_units.simps [of doc e k a u])
  next
    case False
    then show ?thesis
      using 1(2) by (simp add: walk_to_byte.simps [of doc b a u] walk_to_units.simps)
  qed
qed

lemma boundary_utf16_byte:
  assumes "boundary doc b"
  shows "ByteOf (new_TextIndex doc) (Utf16Of (new_TextIndex doc) b) = b"
proof -
  obtain k where k: "walk_to_byte doc b 0 0 = (b, k)"
    using assms by (metis boundary_def prod.collapse)
  then have "Utf16Of (new_TextIndex doc) b = k"
    using assms by (simp add: utf16_walks boundary_def min_def)
  then show ?thesis
    using walk_to_units_back [OF k] assms by (simp add: byte_walks boundary_def)
qed

lemma index_lines_length:
  "length (fst (index_lines doc a u starts utf16)) \<le> length starts + (length doc - a)"
proof (induction doc a u starts utf16 rule: index_lines.induct)
  case (1 doc a u starts utf16)
  show ?case
  proof (cases "a < length doc")
    case True
    then have "length doc - (a + fst (Step doc a)) < length doc - a"
      by (simp add: diff_less_mono2)
    then show ?thesis
      using 1 [OF True refl refl] True
      by (cases "doc ! a = CHR 0x0A") (simp_all add: index_lines.simps [of doc a u starts utf16] Let_def)
  qed (simp add: index_lines.simps)
qed

lemma to_int_exact: "n < 2 ^ 31 \<Longrightarrow> to_int n = int n"
  by (simp add: to_int_def signed_of_nat signed_take_bit_int_eq_self)

lemma boundary_position_byte:
  assumes "boundary doc b" "length doc < 2 ^ 30"
  shows "(case PositionOf (new_TextIndex doc) b of
            (line, character) \<Rightarrow> ByteOfPosition (new_TextIndex doc) line character) = b"
proof -
  let ?ix = "new_TextIndex doc"
  define starts where "starts = ti_line_starts ?ix"
  define line where "line = upper_bound starts b - 1"
  note ok = new_TextIndex_ok(2) [of doc, folded starts_def]
  have st: "starts \<noteq> []" "hd starts = 0" using ok by (auto simp: index_ok_def)
  note bounds = upper_bound_line [OF st, of b, folded line_def]
  have walk: "walk_to_byte doc b (starts ! line) 0 = (b, snd (walk_to_byte doc b (starts ! line) 0))"
    using walk_to_byte_from [OF index_line(1) [OF ok, of b]] index_line(2) [OF ok, of b] assms(1)
      walk_to_byte_shift [of doc b "starts ! line" 0]
    by (metis add_0 boundary_def line_def prod.collapse fst_conv)
  define k where "k = snd (walk_to_byte doc b (starts ! line) 0)"
  have b: "b \<le> length doc" using assms(1) by (simp add: boundary_def)
  have "k < 2 ^ 31"
    using walk_to_byte_bound [OF bounds(2) b, of 0] assms(2) b by (simp add: k_def)
  moreover have "line < 2 ^ 31"
    using bounds(1) index_lines_length [of doc 0 0 "[0]" "[0]"] assms(2)
    by (simp add: starts_def new_TextIndex_def case_prod_unfold Let_def)
  moreover have "upper_bound starts b - Suc 0 = line" by (simp add: line_def)
  ultimately have pos: "PositionOf ?ix b = (int line, int k)"
    using b by (simp add: PositionOf_def Let_def new_TextIndex_ok(1) min_def to_int_exact
        flip: starts_def k_def)
  have "b \<le> LineEnd ?ix line"
    using bounds(3) b by (auto simp: LineEnd_def new_TextIndex_ok(1) simp flip: starts_def)
  then have "fst (walk_to_units doc (LineEnd ?ix line) k (starts ! line) 0) = b"
    using walk_to_units_back [OF walk] by (simp add: k_def)
  then show ?thesis
    using pos bounds(1) \<open>k < 2 ^ 31\<close>
    by (simp add: ByteOfPosition_def to_size_def new_TextIndex_ok(1) flip: starts_def)
qed

text \<open>C19. A byte offset at which a character starts, or the end of the document, comes back from
  its UTF-16 offset, and (in a document of less than a gibibyte, whose positions fit an
  \<open>int\<close>) from its line and UTF-16 character position.
\<close>

theorem offsets_roundtrip:
  assumes "boundary doc b" "length doc < 2 ^ 30"
  shows "ByteOf (new_TextIndex doc) (Utf16Of (new_TextIndex doc) b) = b \<and>
    (case PositionOf (new_TextIndex doc) b of
       (line, character) \<Rightarrow> ByteOfPosition (new_TextIndex doc) line character) = b"
  using boundary_utf16_byte [OF assms(1)] boundary_position_byte [OF assms] by blast

text \<open>An instance: the end of a line of one four-byte character, a line break and a letter.\<close>

definition emoji_document :: string where
  "emoji_document = [CHR 0xF0, CHR 0x9F, CHR 0x98, CHR 0x80, CHR 0x0A, CHR ''a'']"

theorem offsets_roundtrip_witness:
  "boundary emoji_document 5 \<and> length emoji_document < 2 ^ 30 \<and>
   ByteOf (new_TextIndex emoji_document) (Utf16Of (new_TextIndex emoji_document) 5) = 5 \<and>
   (case PositionOf (new_TextIndex emoji_document) 5 of
      (line, character) \<Rightarrow> ByteOfPosition (new_TextIndex emoji_document) line character) = 5"
proof -
  have "boundary emoji_document 5" "length emoji_document < 2 ^ 30"
    by (simp_all add: boundary_def emoji_document_def walk_to_byte.simps Step_def Let_def
        SequenceWidth_def Utf16Units_def)
  then show ?thesis
    using offsets_roundtrip [of emoji_document 5] by blast
qed

end
