(* ===== verification/Spec2Isabelle.thy ===== *)
theory Spec2Isabelle
  imports Byte_Reassembly Wire_Properties Wire_Json_Roundtrip Text_Properties Status_Properties Chunk_Store_System
    Path_Mtu_Properties Http1_Properties Authorization_Properties Url_Properties
    Flow_Positions Flow_Offsets
begin

text \<open>
  A verification of the core of A11 (\<open>src/cpp/a11\<close>): the formats its endpoints exchange, the store their data goes
  through, and the protocol engines around them.

  \<^bold>\<open>The program.\<close>  Endpoints exchange wire messages: fragments of nodes (chunks of data or references to stored data),
  calls of actions, and headers.  A message is encoded as MessagePack or as JSON, split into packets where the
  transport limits their size, and reassembled and decoded by the receiver.  Fragments go into a chunk store, which
  readers wait on.  Around this core are the status codes with their details, HTTP/1.1 and URLs for the transports,
  the discovery of the largest packet a path carries, and the authorization of actions on a connection.  Programs over
  actions are written in the Flow language, whose front end starts with a lexer.

  \<^bold>\<open>Values.\<close>  \<open>A11_Prelude\<close> fixes the representation: words of the source's width for machine integers, naturals for
  \<open>size_t\<close> with \<open>sz_add\<close> where an addition may wrap, HOL strings for bytes, \<open>status + 'a\<close> for \<open>absl::StatusOr\<close>, association
  lists for hash maps.  A reader is the unread suffix of its input.  A null pointer is None.  A mutex-protected operation
  is one function on the state; where several fibers run, a step relation interleaves them.
  Replacing an event under the mutex and notifying the old one after the unlock are one step, and the line and column
  counters of the lexer are unbounded.

  \<^bold>\<open>Theories.\<close>
  \<^item> \<open>Byte_Order\<close>, \<open>Byte_Chunking\<close>, \<open>Byte_Reassembly\<close> (\<open>net/byte_chunking.h\<close>, \<open>.cc\<close>): packet layout, splitting, parsing and
    \<open>ByteReassembler\<close> (\<open>FeedPacket\<close>, \<open>FeedPending\<close>, \<open>FeedChunk\<close>, \<open>FeedComplete\<close> are the parts of \<open>Feed\<close>).  Packets in any
    order give the message back; the counters and limits hold whatever bytes arrive.
  \<^item> \<open>Json_Codec\<close>, \<open>Msgpack\<close>, \<open>Msgpack_Roundtrip\<close> (\<open>json_codec.cc\<close>, \<open>data/msgpack.cc\<close>): the datatype \<open>json\<close>, the MessagePack
    decoder, the typed writers, the value scanner and the record reader.  Scanning and then decoding is decoding; what
    the writers write is read back; a value is read from its own bytes only.
  \<^item> \<open>Names\<close>, \<open>Storage_Identity\<close>, \<open>Wire_Types\<close>, \<open>Wire_Roundtrip\<close>, \<open>Wire_Properties\<close> (\<open>data/types.h\<close>, \<open>data/types.cc\<close>): the
    records, their validation and MessagePack form.  Round trip, canonical decoding, independence of map order.  A timestamp
    (\<open>Time\<close>, an \<open>absl::Time\<close>) is carried in whole microseconds: \<open>canon_message floor_micros\<close> is what a receiver gets,
    \<open>canon_message id\<close> only puts the hash maps in key order.
  \<^item> \<open>Wire_Json\<close>, \<open>Wire_Json_Roundtrip\<close> (\<open>data/json.cc\<close>): the JSON form of the records and its round trip, which keeps
    timestamps exactly.
  \<^item> \<open>Status_Codec\<close>, \<open>Status_Properties\<close> (\<open>status.cc\<close>): code tables, details payload, JSON and MessagePack form.
  \<^item> \<open>Text_Encoding\<close>, \<open>Text_Properties\<close> (\<open>utf8.h\<close>, \<open>percent.h\<close>): UTF-8 validation and percent escapes.
  \<^item> \<open>Chunk_Store\<close>, \<open>Chunk_Store_Laws\<close>, \<open>Chunk_Store_System\<close> (\<open>stores/local_chunk_store.cc\<close>,
    \<open>stores/internal/chunk_store_common.h\<close>): \<open>LocalChunkStore\<close>, its contract \<open>chunk_log\<close> (an append-only log), and its use
    by concurrent readers and writers as \<open>store_step\<close>.  Every read is answered exactly once; no wake-up is missed.
  \<^item> \<open>Path_Mtu\<close>, \<open>Path_Mtu_Properties\<close> (\<open>net/internal/path_mtu.h\<close>, \<open>.cc\<close>): \<open>PathMtuDiscovery\<close>.  The prober's callbacks
    are parameters and may, with other fibers, change the shared fields between any two steps (\<open>others\<close>, \<open>polite\<close>); the
    run loop is \<open>run_step\<close>.  A search confirms only what the path carries, settles, and sends a bounded number of probes.
    The loop is woken for stops and black holes, except for one reported just before it reads the event of a retry
    (\<open>retry_can_miss_stop\<close>).
  \<^item> \<open>Absl_Text\<close>, \<open>Http1_Codec\<close>, \<open>Http1_Properties\<close> (\<open>net/http2.cc\<close> header lists, \<open>net/internal/http1_codec.h\<close>, \<open>.cc\<close>): message
    heads, body framing, the chunked coding.  Decoding does not depend on how bytes arrive and undoes encoding.
  \<^item> \<open>Url\<close>, \<open>Url_Properties\<close> (\<open>net/http/url.h\<close>, \<open>.cc\<close>): parsing, printing and resolving of URLs.  Results are well formed,
    printing and parsing agree, and a relative reference stays at its origin.
  \<^item> \<open>Authorization_Glob\<close>, \<open>Authorization\<close>, \<open>Authorization_Store\<close>, \<open>Authorization_Properties\<close> (\<open>actions/authorization_codec.cc\<close>,
    \<open>actions/authorization.h\<close>, \<open>.cc\<close>, the header functions of \<open>actions/action.cc\<close>): envelopes, restrictions, the connection
    context store and the \<open>__authorize__\<close> handler.  \<open>auth_run\<close> is any sequence of calls of the store, with the grants made
    and not withdrawn; only such a grant is ever bound to an action.
  \<^item> \<open>Flow_Token\<close>, \<open>Flow_Lexer\<close>, \<open>Flow_Lexer_Properties\<close>, \<open>Flow_Positions\<close> (\<open>flow/limits.h\<close>, \<open>diagnostic.h\<close>, \<open>token.h\<close>,
    \<open>lexer.h\<close>, \<open>lexer.cc\<close>, the duration units of \<open>vocabulary.cc\<close>): the class \<open>Lexer\<close> as a record, \<open>lex_step\<close> for one round of
    its loop, \<open>Run\<close> and \<open>Lex\<close>.  The tokens tile the source, the stream has the shape the parser relies on, and lines and
    columns are those of a plain count, except after a backslash and a line break in a string on one line.
  \<^item> \<open>Flow_Offsets\<close> (\<open>flow/offsets.h\<close>, \<open>.cc\<close>): \<open>TextIndex\<close> and the rewriting of offsets in an answer.  The line table does not
    change what a walk over the text gives, and offsets and positions of characters come back.
  \<^item> \<open>Codec_Interface\<close>: the contracts \<open>codec\<close>, \<open>strict_codec\<close> and \<open>gateway\<close>, interpreted by the MessagePack and JSON forms
    of messages, by envelopes and by URLs.  This theory composes them with the packet layer.

  \<^bold>\<open>Parameters and laws.\<close>  Code outside the repository is an argument: \<open>to_msgpack\<close>, \<open>dump\<close> and \<open>parse\<close> of the JSON library
  (laws \<open>packs_text\<close>, \<open>packs_plain\<close>, \<open>packs_chain\<close>, \<open>parses_printed\<close>), base64 and RFC 3339 text (\<open>env_ok\<close>, \<open>base64_laws\<close>),
  Abseil's conversions of times to microseconds (\<open>times_ok\<close>: rounding down and saturating one way, exact the other),
  Abseil's text functions (\<open>case_laws\<close>, \<open>strip_laws\<close>, \<open>split_laws\<close>, \<open>number_laws\<close>), the numbers of the lexer (\<open>number_text\<close>,
  of which nothing is assumed), SHA-1, SHA-256, the clock, the random
  generator and the authorization verifier.  Each law is shown for a concrete function and used in a witness.

  \<^bold>\<open>Bounds and termination.\<close>  Every loop terminates by a measure: the decoder by the nesting limit of the source
  (\<open>kMaxMsgpackNesting\<close>), parsers and the lexer by the unread input, the search by its interval.  The wildcard matcher is a partial
  function and is shown to return.  Drawing a fresh context id takes the generator's answers as a list and is None when
  the list ends first.  Encodings are limited to 2^32 bytes where the format's length fields are, and the details of
  a status to the decoder's nesting limit (\<open>nests_within\<close>).

  \<^bold>\<open>Not modelled.\<close>  The parser, linker, analysis and runtime of the flow language (\<open>flow\<close>) are left out: their size is many
  times that of the lexer, and the runtime is written on fibers.  Sessions and nodes, the scheduling of actions, and the readers and
  writers of stores are written on fibers, futures and callbacks of the concurrency library and are left out, as are
  sockets, TLS, WebRTC, nghttp2 and libuv, the Redis and SQLite stores, tracing, the language bindings and the SDK's
  actions.  Of a fiber's scheduling only the interleaving of critical sections is modelled; memory, time spent and
  logging are not.  Floating-point numbers are their bits.  The output node that \<open>__authorize__\<close> finalises is not modelled:
  the handler is modelled up to the text it writes.
\<close>

section \<open>Messages across components\<close>

text \<open>C5. A message crosses a packet transport: its MessagePack encoding is split into packets, the packets
  arrive in any order at a reassembler with room for them, which answers "not yet" until the last one, hands out bytes
  that decode to the message with its hash maps in key order and its timestamps in whole microseconds, and is left as it
  was.  The message is received with its timestamps unchanged where they are whole microseconds of 64 bits.\<close>

theorem message_over_packets:
  assumes "MessageToMsgpack tc tm m = Ok bytes" and "message_wf m" and "packs_text tm" and "times_ok tc" and "length bytes < 2 ^ 32"
    and "SplitBytesIntoPackets bytes i psize = Ok ps" and "mset qs = mset ps"
    and "map_of (pending st) i = None" and "psize \<le> packet_size (options st)"
    and "ValidateOptions (options st) = Ok ()" and "max_message_size (options st) < size_limit"
    and "length bytes \<le> max_message_size (options st)"
    and "pending_bytes st + length bytes \<le> max_pending_bytes (options st)"
    and "length (pending st) < max_pending_messages (options st)"
  shows "\<exists>received. Byte_Chunking.feed_all qs st = (replicate (length ps - 1) (Ok None) @ [Ok (Some received)], st) \<and>
    MessageFromMsgpack tc received = Ok (canon_message floor_micros m) \<and>
    (whole_micros m \<longrightarrow> MessageFromMsgpack tc received = Ok (canon_message id m))"
  using reassembles [OF assms(6-14)] wire_msgpack.dec_enc [OF assms(1,2)] assms(3-5) canon_message_whole by auto

definition wide_limits :: ByteChunkingOptions where
  "wide_limits = \<lparr>packet_size = 100, max_message_size = 2 ^ 40, max_pending_messages = 1, max_pending_bytes = 2 ^ 40\<rparr>"

lemma wide_split:
  assumes "length bytes < 2 ^ 32"
  shows "\<exists>ps. SplitBytesIntoPackets bytes 7 100 = Ok ps"
proof -
  have "(3 + length bytes) div 87 < 4294967295" using assms by (intro less_mult_imp_div_less) simp
  then show ?thesis by (simp add: SplitBytesIntoPackets_def packet_sizes Let_def)
qed

theorem message_over_packets_witness:
  "\<exists>bytes ps received. MessageToMsgpack sample_conv sample_encoder sample_message = Ok bytes \<and> length bytes < 2 ^ 32 \<and>
     times_ok sample_conv \<and> SplitBytesIntoPackets bytes 7 100 = Ok ps \<and>
     Byte_Chunking.feed_all (rev ps) (new_reassembler wide_limits) =
       (replicate (length ps - 1) (Ok None) @ [Ok (Some received)], new_reassembler wide_limits) \<and>
     MessageFromMsgpack sample_conv received = Ok (canon_message floor_micros sample_message)"
proof -
  obtain b where b: "MessageToMsgpack sample_conv sample_encoder sample_message = Ok b" "length b < 2 ^ 32"
    using sample_message_bytes by blast
  obtain ps where ps: "SplitBytesIntoPackets b 7 100 = Ok ps" using wide_split [OF b(2)] by blast
  have "ValidateOptions wide_limits = Ok ()" by (simp add: ValidateOptions_def wide_limits_def packet_sizes size_limit_def)
  then have "\<exists>received. Byte_Chunking.feed_all (rev ps) (new_reassembler wide_limits) =
       (replicate (length ps - 1) (Ok None) @ [Ok (Some received)], new_reassembler wide_limits) \<and>
     MessageFromMsgpack sample_conv received = Ok (canon_message floor_micros sample_message) \<and>
     (whole_micros sample_message \<longrightarrow> MessageFromMsgpack sample_conv received = Ok (canon_message id sample_message))"
    using b(2) by (intro message_over_packets [OF b(1) sample_message_wf sample_packs_text sample_conv_ok b(2) ps])
      (simp_all add: new_reassembler_def wide_limits_def size_limit_def)
  then show ?thesis using b ps sample_conv_ok by blast
qed

text \<open>C6. A message crosses a gateway: sent as MessagePack, decoded, printed as JSON and read again it is the
  message that was sent, with its hash maps in key order and its timestamps in whole microseconds, as the MessagePack form
  carries them.  The JSON form changes nothing more, and timestamps that are whole microseconds of 64 bits arrive unchanged.\<close>

theorem message_crosses_gateway:
  assumes "MessageToMsgpack tc tm m = Ok bytes" and "message_wf m" and "packs_text tm" and "times_ok tc" and "length bytes < 2 ^ 32"
    and "MessageFromMsgpack tc bytes = Ok received" and "WireMessageToJson env dump received = Ok printed"
    and "env_ok env" and "parses_printed dump parse"
  shows "WireMessageFromJson env parse printed = Ok (canon_message floor_micros m) \<and>
    WireMessageFromJson env parse printed = Ok received \<and>
    (whole_micros m \<longrightarrow> WireMessageFromJson env parse printed = Ok (canon_message id m))"
proof -
  have "WireMessageFromJson env parse printed = Ok (canon_message floor_micros m)"
    using msgpack_to_json.end_to_end [OF assms(1,2) _ assms(6,7)] assms(3-5,8,9) by blast
  moreover have "WireMessageFromJson env parse printed = Ok received"
    using msgpack_to_json.forwards [OF assms(6,7)] assms(8,9) by blast
  ultimately show ?thesis using canon_message_whole by simp
qed

theorem message_crosses_gateway_witness:
  "\<exists>bytes received printed. MessageToMsgpack sample_conv sample_encoder sample_message = Ok bytes \<and> length bytes < 2 ^ 32 \<and>
     MessageFromMsgpack sample_conv bytes = Ok received \<and> WireMessageToJson sample_env sample_dump received = Ok printed \<and>
     WireMessageFromJson sample_env sample_parse printed = Ok (canon_message floor_micros sample_message) \<and>
     WireMessageFromJson sample_env sample_parse printed = Ok received"
proof -
  obtain b where b: "MessageToMsgpack sample_conv sample_encoder sample_message = Ok b" "length b < 2 ^ 32"
    "MessageFromMsgpack sample_conv b = Ok (canon_message floor_micros sample_message)"
    using sample_message_decodes by blast
  obtain printed where p: "WireMessageToJson sample_env sample_dump (canon_message floor_micros sample_message) = Ok printed"
    using sample_dumped [OF sample_received_value] by blast
  from message_crosses_gateway [OF b(1) sample_message_wf sample_packs_text sample_conv_ok b(2,3) p sample_env_ok sample_parses]
  show ?thesis using b p by blast
qed

end
